(* ===== verification/Prelude.thy ===== *)
theory Prelude
  imports Main "HOL-Library.Word" "HOL-Library.Sublist" "HOL-Library.Multiset"
begin

unbundle bit_operations_syntax

text \<open>
  What every component shares: the byte strings of Go, the functions of the packages
  \<open>strings\<close>, \<open>bytes\<close> and \<open>strconv\<close> the sources call, checked list access, and the lemma
  collections of the development.

  A Go string or byte slice is a \<^typ>\<open>string\<close>, one \<^typ>\<open>char\<close> for each byte. Bytes above
  127 are ordinary bytes: no letter case and no white space is recognised among them.
\<close>

named_theorems go_defs \<open>definitions of the modelled parts of Go's standard library\<close>
named_theorems inv_intros \<open>preservation of a component's invariant by its operations\<close>

subsection \<open>Lists and checked access\<close>

type_synonym u16 = "16 word"

text \<open>\<open>xs[i]\<close> of Go: an index out of range panics, which is \<^term>\<open>None\<close> here.\<close>

definition idx :: "'a list \<Rightarrow> nat \<Rightarrow> 'a option" where
  "idx xs i = (if i < length xs then Some (xs ! i) else None)"

text \<open>\<open>xs[i:j]\<close> of Go: panics unless \<open>i \<le> j \<le> len(xs)\<close>.\<close>

definition slice :: "'a list \<Rightarrow> nat \<Rightarrow> nat \<Rightarrow> 'a list option" where
  "slice xs i j = (if i \<le> j \<and> j \<le> length xs then Some (take (j - i) (drop i xs)) else None)"

text \<open>The conversion \<open>uint16(n)\<close> of a length.\<close>

definition u16_of :: "nat \<Rightarrow> nat" where
  "u16_of n = n mod 65536"

lemma u16_of_small [simp]: "n < 65536 \<Longrightarrow> u16_of n = n"
  by (simp add: u16_of_def)

lemma idx_Some [simp]: "i < length xs \<Longrightarrow> idx xs i = Some (xs ! i)"
  by (simp add: idx_def)

lemma idx_eq_Some: "idx xs i = Some x \<longleftrightarrow> i < length xs \<and> xs ! i = x"
  by (auto simp: idx_def)

lemma idx_append1: "i < length xs \<Longrightarrow> idx (xs @ ys) i = idx xs i"
  by (simp add: idx_def nth_append)

lemma slice_whole [simp]: "slice xs 0 (length xs) = Some xs"
  by (simp add: slice_def)

lemma slice_append_mid: "slice (xs @ ys @ zs) (length xs) (length xs + length ys) = Some ys"
  by (simp add: slice_def)

lemma slice_append1:
  assumes "slice xs i j = Some ys"
  shows "slice (xs @ zs) i j = Some ys"
  using assms by (auto simp: slice_def split: if_splits)

lemma slice_length: "slice xs i j = Some ys \<Longrightarrow> length ys = j - i"
  by (auto simp: slice_def split: if_splits)

subsection \<open>Bytes\<close>

definition byte :: "char \<Rightarrow> nat" where
  "byte c = of_char c"

lemma byte_char_of: "byte (char_of (n :: nat)) = n mod 256"
  by (simp add: byte_def)

lemma byte_less [simp]: "byte c < 256"
  unfolding byte_def by (rule nat_of_char_less_256)

lemma byte_inj [simp]: "byte c = byte d \<longleftrightarrow> c = d"
  by (simp add: byte_def)

subsection \<open>Substrings: \<open>strings.HasPrefix\<close>, \<open>HasSuffix\<close>, \<open>CutPrefix\<close>, \<open>Index\<close>, \<open>Cut\<close>\<close>

definition has_prefix :: "'a list \<Rightarrow> 'a list \<Rightarrow> bool" where
  [go_defs]: "has_prefix s p \<longleftrightarrow> take (length p) s = p"

definition has_suffix :: "'a list \<Rightarrow> 'a list \<Rightarrow> bool" where
  [go_defs]: "has_suffix s p \<longleftrightarrow> length p \<le> length s \<and> drop (length s - length p) s = p"

definition trim_prefix :: "'a list \<Rightarrow> 'a list \<Rightarrow> 'a list" where
  [go_defs]: "trim_prefix s p = (if has_prefix s p then drop (length p) s else s)"

definition trim_suffix :: "'a list \<Rightarrow> 'a list \<Rightarrow> 'a list" where
  [go_defs]: "trim_suffix s p = (if has_suffix s p then take (length s - length p) s else s)"

definition cut_prefix :: "'a list \<Rightarrow> 'a list \<Rightarrow> 'a list option" where
  [go_defs]: "cut_prefix s p = (if has_prefix s p then Some (drop (length p) s) else None)"

fun index_sub :: "'a list \<Rightarrow> 'a list \<Rightarrow> nat option" where
  "index_sub [] p = (if p = [] then Some 0 else None)"
| "index_sub (c # s) p =
     (if has_prefix (c # s) p then Some 0 else map_option Suc (index_sub s p))"

fun last_index :: "'a list \<Rightarrow> 'a \<Rightarrow> nat option" where
  "last_index [] c = None"
| "last_index (x # s) c =
     (case last_index s c of
        Some i \<Rightarrow> Some (Suc i)
      | None \<Rightarrow> if x = c then Some 0 else None)"

definition contains_sub :: "'a list \<Rightarrow> 'a list \<Rightarrow> bool" where
  [go_defs]: "contains_sub s p \<longleftrightarrow> index_sub s p \<noteq> None"

text \<open>\<open>strings.Cut\<close> at one byte: the text before it, the text after it, and whether it occurs.\<close>

definition cut_at :: "'a list \<Rightarrow> 'a \<Rightarrow> 'a list \<times> 'a list \<times> bool" where
  [go_defs]: "cut_at s c = (let a = takeWhile (\<lambda>x. x \<noteq> c) s in
     if length a < length s then (a, drop (Suc (length a)) s, True) else (s, [], False))"

text \<open>\<open>strings.Split\<close> and \<open>strings.SplitSeq\<close> at one byte.\<close>

fun split_on :: "'a \<Rightarrow> 'a list \<Rightarrow> 'a list list" where
  "split_on c [] = [[]]"
| "split_on c (x # s) =
     (if x = c then [] # split_on c s
      else case split_on c s of [] \<Rightarrow> [[x]] | f # fs \<Rightarrow> (x # f) # fs)"

lemma has_prefix_iff: "has_prefix s p \<longleftrightarrow> (\<exists>r. s = p @ r)"
  unfolding has_prefix_def by (metis append_eq_conv_conj append_take_drop_id)

lemma has_prefix_append [simp]: "has_prefix (p @ r) p"
  by (auto simp: has_prefix_iff)

lemma has_prefix_Nil [simp]: "has_prefix s []"
  by (simp add: has_prefix_def)

lemma has_prefix_Cons [simp]: "has_prefix (c # s) (d # p) \<longleftrightarrow> c = d \<and> has_prefix s p"
  by (auto simp: has_prefix_def)

lemma has_prefix_of_Nil [simp]: "has_prefix [] p \<longleftrightarrow> p = []"
  by (auto simp: has_prefix_def)

lemma has_suffix_iff: "has_suffix s p \<longleftrightarrow> (\<exists>r. s = r @ p)"
proof
  assume "has_suffix s p"
  then have "s = take (length s - length p) s @ p"
    unfolding has_suffix_def by (metis append_take_drop_id)
  then show "\<exists>r. s = r @ p" by blast
qed (auto simp: has_suffix_def)

lemma has_suffix_append [simp]: "has_suffix (r @ p) p"
  by (auto simp: has_suffix_iff)

lemma index_sub_Some:
  "index_sub s p = Some i \<Longrightarrow> i + length p \<le> length s \<and> has_prefix (drop i s) p"
proof (induction s arbitrary: i)
  case Nil
  then show ?case by (simp split: if_splits)
next
  case (Cons c s)
  then show ?case
    by (auto simp: has_prefix_def split: if_splits dest: arg_cong [where f = length])
qed

lemma index_sub_split:
  assumes "index_sub s p = Some i"
  shows "s = take i s @ p @ drop (i + length p) s"
  using index_sub_Some [OF assms]
  by (metis append.assoc append_take_drop_id drop_drop has_prefix_def add.commute)

lemma index_sub_None: "index_sub s p = None \<Longrightarrow> s \<noteq> a @ p @ b"
  by (induction s arbitrary: a) (auto simp: Cons_eq_append_conv has_prefix_iff split: if_splits)

lemma contains_sub_iff: "contains_sub s p \<longleftrightarrow> (\<exists>a b. s = a @ p @ b)"
  unfolding contains_sub_def by (metis index_sub_None index_sub_split not_None_eq)

lemma index_sub_least: "s = a @ p @ b \<Longrightarrow> \<exists>i \<le> length a. index_sub s p = Some i"
proof (induction a arbitrary: s)
  case Nil
  then have "has_prefix s p" by simp
  then show ?case by (cases s) (auto simp del: has_prefix_append)
next
  case (Cons x a)
  then show ?case by auto
qed

lemma last_index_Some:
  "last_index s c = Some i \<Longrightarrow> i < length s \<and> s ! i = c \<and> c \<notin> set (drop (Suc i) s)"
proof (induction s arbitrary: i)
  case (Cons x s)
  show ?case
  proof (cases "last_index s c")
    case None
    then have "c \<notin> set s" by (induction s) (auto split: option.splits if_splits)
    with None Cons.prems show ?thesis by (auto split: if_splits)
  next
    case (Some k)
    with Cons show ?thesis by auto
  qed
qed simp

lemma last_index_None: "last_index s c = None \<longleftrightarrow> c \<notin> set s"
  by (induction s) (auto split: option.splits)

lemma split_on_neq_Nil [simp]: "split_on c s \<noteq> []"
  by (cases s) (auto split: list.splits)

lemma split_on_no_sep: "f \<in> set (split_on c s) \<Longrightarrow> c \<notin> set f"
  by (induction s arbitrary: f) (auto split: if_splits list.splits)

lemma split_on_single: "c \<notin> set s \<Longrightarrow> split_on c s = [s]"
  by (induction s) auto

subsection \<open>Trimming and letter case\<close>

text \<open>The white space of \<open>unicode.IsSpace\<close> below 128.\<close>

definition is_space :: "char \<Rightarrow> bool" where
  [go_defs]: "is_space c \<longleftrightarrow> byte c \<in> {9, 10, 11, 12, 13, 32}"

definition trim_left :: "('a \<Rightarrow> bool) \<Rightarrow> 'a list \<Rightarrow> 'a list" where
  [go_defs]: "trim_left P s = dropWhile P s"

definition trim_right :: "('a \<Rightarrow> bool) \<Rightarrow> 'a list \<Rightarrow> 'a list" where
  [go_defs]: "trim_right P s = rev (dropWhile P (rev s))"

definition trim :: "('a \<Rightarrow> bool) \<Rightarrow> 'a list \<Rightarrow> 'a list" where
  [go_defs]: "trim P s = trim_right P (trim_left P s)"

definition trim_space :: "string \<Rightarrow> string" where
  [go_defs]: "trim_space s = trim is_space s"

definition lower_char :: "char \<Rightarrow> char" where
  [go_defs]: "lower_char c = (if 65 \<le> byte c \<and> byte c \<le> 90 then char_of (byte c + 32) else c)"

definition upper_char :: "char \<Rightarrow> char" where
  [go_defs]: "upper_char c = (if 97 \<le> byte c \<and> byte c \<le> 122 then char_of (byte c - 32) else c)"

definition to_lower :: "string \<Rightarrow> string" where
  [go_defs]: "to_lower s = map lower_char s"

definition to_upper :: "string \<Rightarrow> string" where
  [go_defs]: "to_upper s = map upper_char s"

lemma trim_decomp: "\<exists>a b. s = a @ trim P s @ b \<and> list_all P a \<and> list_all P b"
proof -
  let ?l = "dropWhile P s"
  have "s = takeWhile P s @ ?l" by simp
  moreover have "?l = trim P s @ rev (takeWhile P (rev ?l))"
    unfolding trim_def trim_left_def trim_right_def
    by (metis rev_append rev_rev_ident takeWhile_dropWhile_id)
  moreover have "list_all P (takeWhile P s)" "list_all P (rev (takeWhile P (rev ?l)))"
    by (auto simp: list_all_iff dest: set_takeWhileD)
  ultimately show ?thesis by metis
qed

lemma trim_eq_Nil: "trim P s = [] \<longleftrightarrow> list_all P s"
proof
  assume "trim P s = []"
  then show "list_all P s" using trim_decomp [of s P] by (metis append_Nil list_all_append)
next
  assume "list_all P s"
  then show "trim P s = []"
    by (auto simp: trim_def trim_left_def trim_right_def list_all_iff dest: set_dropWhileD)
qed

lemma set_trim: "set (trim P s) \<subseteq> set s"
  using trim_decomp [of s P] by (metis Un_iff set_append subsetI)

subsection \<open>\<open>strings.ReplaceAll\<close>\<close>

text \<open>Non-overlapping occurrences from the left; the pattern is not empty in the sources.\<close>

function replace_all :: "'a list \<Rightarrow> 'a list \<Rightarrow> 'a list \<Rightarrow> 'a list" where
  "replace_all [] old new = []"
| "replace_all (c # s) old new =
     (if old \<noteq> [] \<and> has_prefix (c # s) old
      then new @ replace_all (drop (length old) (c # s)) old new
      else c # replace_all s old new)"
  by pat_completeness auto
termination
  by (relation "measure (\<lambda>(s, _, _). length s)") auto

lemma replace_all_absent: "index_sub s old = None \<Longrightarrow> replace_all s old new = s"
proof (induction s)
  case (Cons c s)
  then have "\<not> has_prefix (c # s) old" "index_sub s old = None"
    by (auto split: if_splits simp del: has_prefix_Cons)
  with Cons.IH show ?case by (simp del: has_prefix_Cons)
qed simp

end
