(* ===== verification/Host.thy ===== *)
theory Host
  imports Prelude
begin

text \<open>
  \<open>ReverseHost\<close> of \<open>internal/rtree/common.go\<close>: the host labels of a lookup path are put in reverse
  order, in place, so that \<open>www.google.com/x\<close> is indexed as \<open>com.google.www/x\<close>. The model keeps the
  two in-place passes of the code (reverse the host, then each label); the specification is
  \<open>reverse the list of labels\<close>.
\<close>

subsection \<open>The code\<close>

text \<open>\<open>slices.Reverse(xs[i:j])\<close>.\<close>

definition reverse_range :: "'a list \<Rightarrow> nat \<Rightarrow> nat \<Rightarrow> 'a list" where
  "reverse_range xs i j = take i xs @ rev (take (j - i) (drop i xs)) @ drop j xs"

lemma length_reverse_range [simp]:
  "i \<le> j \<Longrightarrow> j \<le> length xs \<Longrightarrow> length (reverse_range xs i j) = length xs"
  by (simp add: reverse_range_def)

lemma reverse_range_parts:
  "reverse_range (a @ b @ c) (length a) (length a + length b) = a @ rev b @ c"
  by (simp add: reverse_range_def)

text \<open>The loop \<open>for i := 0; i <= len(host); i++\<close>; \<open>n\<close> is \<open>len(host)\<close>, which the loop does not change.\<close>

function reverse_labels :: "nat \<Rightarrow> string \<Rightarrow> nat \<Rightarrow> nat \<Rightarrow> string" where
  "reverse_labels n host start i =
     (if i \<le> n then
        if i = n \<or> host ! i = CHR ''.''
        then reverse_labels n (reverse_range host start i) (Suc i) (Suc i)
        else reverse_labels n host start (Suc i)
      else host)"
  by pat_completeness auto
termination
  by (relation "measure (\<lambda>(n, _, _, i). Suc n - i)") auto

declare reverse_labels.simps [simp del]

definition ReverseHost :: "string \<Rightarrow> string" where
  "ReverseHost url =
     (let slashIdx = (case index_sub url ''/'' of Some i \<Rightarrow> i | None \<Rightarrow> length url)
      in if slashIdx \<le> 1 then url
         else reverse_labels slashIdx (rev (take slashIdx url)) 0 0 @ drop slashIdx url)"

subsection \<open>The specification\<close>

fun join_with :: "'a \<Rightarrow> 'a list list \<Rightarrow> 'a list" where
  "join_with c [] = []"
| "join_with c [f] = f"
| "join_with c (f # fs) = f @ c # join_with c fs"

definition reversed_host :: "string \<Rightarrow> string" where
  "reversed_host host = join_with CHR ''.'' (rev (split_on CHR ''.'' host))"

subsection \<open>Splitting and joining\<close>

lemma join_with_Cons: "fs \<noteq> [] \<Longrightarrow> join_with c (f # fs) = f @ c # join_with c fs"
  by (cases fs) auto

lemma split_on_append_sep: "split_on c (a @ c # b) = split_on c a @ split_on c b"
  by (induction a) (auto split: list.splits)

lemma split_on_prefix: "c \<notin> set a \<Longrightarrow> split_on c (a @ c # b) = a # split_on c b"
  by (simp add: split_on_append_sep split_on_single)

lemma join_split [simp]: "join_with c (split_on c s) = s"
proof (induction s)
  case (Cons x s)
  obtain f fs where s: "split_on c s = f # fs" by (meson neq_Nil_conv split_on_neq_Nil)
  with Cons show ?case by (cases fs) (auto simp: join_with_Cons)
qed simp

lemma split_join: "ls \<noteq> [] \<Longrightarrow> \<forall>f \<in> set ls. c \<notin> set f \<Longrightarrow> split_on c (join_with c ls) = ls"
  by (induction c ls rule: join_with.induct) (auto simp: split_on_single split_on_prefix)

lemma split_on_rev: "split_on c (rev s) = rev (map rev (split_on c s))"
proof (induction s)
  case (Cons x s)
  obtain f fs where s: "split_on c s = f # fs" by (meson neq_Nil_conv split_on_neq_Nil)
  show ?case
  proof (cases "x = c")
    case True
    with Cons show ?thesis using split_on_append_sep [of c "rev s" "[]"] by simp
  next
    case False
    have "split_on c (a @ [x]) = butlast (split_on c a) @ [last (split_on c a) @ [x]]" for a
      using False by (induction a) (auto split: list.splits)
    with Cons False s show ?thesis by simp
  qed
qed simp

lemma length_join_with: "ls \<noteq> [] \<Longrightarrow> length (join_with c ls) = sum_list (map length ls) + length ls - 1"
  by (induction c ls rule: join_with.induct) auto

subsection \<open>The in-place loop meets the specification\<close>

lemma reverse_labels_done: "n < i \<Longrightarrow> reverse_labels n host start i = host"
  by (subst reverse_labels.simps) simp

lemma reverse_labels_parts:
  assumes "CHR ''.'' \<notin> set seg"
  shows "reverse_labels (length pre + length seg + length rest) (pre @ seg @ rest) (length pre)
           (length pre + length seg)
         = pre @ join_with CHR ''.'' (map rev (split_on CHR ''.'' (seg @ rest)))"
  using assms
proof (induction rest arbitrary: pre seg)
  case Nil
  then show ?case
    using reverse_range_parts [of pre seg "[]"]
    by (subst reverse_labels.simps) (simp add: reverse_labels_done split_on_single)
next
  case (Cons c rest)
  show ?case
  proof (cases "c = CHR ''.''")
    case True
    with Cons.prems have "reverse_labels (length pre + length seg + length (c # rest))
        (pre @ seg @ c # rest) (length pre) (length pre + length seg) =
      reverse_labels (length (pre @ rev seg @ [c]) + length ([] :: string) + length rest)
        ((pre @ rev seg @ [c]) @ [] @ rest) (length (pre @ rev seg @ [c]))
        (length (pre @ rev seg @ [c]) + length ([] :: string))"
      by (subst reverse_labels.simps) (simp add: reverse_range_parts nth_append)
    also have "\<dots> = (pre @ rev seg @ [c]) @ join_with CHR ''.'' (map rev (split_on CHR ''.'' ([] @ rest)))"
      by (rule Cons.IH) simp
    finally show ?thesis
      using True Cons.prems by (simp add: split_on_prefix join_with_Cons)
  next
    case False
    with Cons.prems have "reverse_labels (length pre + length seg + length (c # rest))
        (pre @ seg @ c # rest) (length pre) (length pre + length seg) =
      reverse_labels (length pre + length (seg @ [c]) + length rest) (pre @ (seg @ [c]) @ rest)
        (length pre) (length pre + length (seg @ [c]))"
      by (subst reverse_labels.simps) (simp add: nth_append)
    also have "\<dots> = pre @ join_with CHR ''.'' (map rev (split_on CHR ''.'' ((seg @ [c]) @ rest)))"
      by (rule Cons.IH) (use Cons.prems False in simp)
    finally show ?thesis by simp
  qed
qed

lemma reverse_labels_rev:
  "reverse_labels (length host) (rev host) 0 0 = reversed_host host"
  using reverse_labels_parts [of "[]" "[]" "rev host"]
  by (simp add: reversed_host_def split_on_rev rev_map [symmetric])

text \<open>Where the host ends: before the first slash.\<close>

definition host_of :: "string \<Rightarrow> string" where
  "host_of url = takeWhile (\<lambda>c. c \<noteq> CHR ''/'') url"

definition path_of :: "string \<Rightarrow> string" where
  "path_of url = dropWhile (\<lambda>c. c \<noteq> CHR ''/'') url"

lemma slash_index:
  "(case index_sub url ''/'' of Some i \<Rightarrow> i | None \<Rightarrow> length url) = length (host_of url)"
  by (induction url) (auto simp: host_of_def has_prefix_def split: option.splits)

lemma host_path [simp]: "host_of url @ path_of url = url"
  by (simp add: host_of_def path_of_def)

lemma take_host: "take (length (host_of url)) url = host_of url"
  and drop_host: "drop (length (host_of url)) url = path_of url"
  by (metis append_eq_conv_conj host_path)+

lemma ReverseHost_eq:
  "ReverseHost url = (if length (host_of url) \<le> 1 then url else reversed_host (host_of url) @ path_of url)"
  by (simp add: ReverseHost_def slash_index Let_def take_host drop_host reverse_labels_rev)

lemma reversed_host_short: "length h \<le> 1 \<Longrightarrow> reversed_host h = h"
  by (cases h) (auto simp: reversed_host_def)

lemma ReverseHost_parts: "ReverseHost url = reversed_host (host_of url) @ path_of url"
  by (simp add: ReverseHost_eq reversed_host_short)

text \<open>\<open>ReverseHost\<close> reverses the order of the host's labels, whatever its length, and leaves the
  labels and the path as they are.\<close>

theorem ReverseHost_reverses_labels:
  "ReverseHost url = reversed_host (host_of url) @ path_of url"
  by (rule ReverseHost_parts)

lemma set_join_with: "set (join_with c ls) \<subseteq> insert c (\<Union> (set ` set ls))"
  by (induction c ls rule: join_with.induct) auto

lemma split_on_set: "f \<in> set (split_on c s) \<Longrightarrow> set f \<subseteq> set s"
  by (induction s arbitrary: f) (auto split: if_splits list.splits, blast+)

lemma reversed_host_set: "set (reversed_host h) \<subseteq> insert CHR ''.'' (set h)"
  using set_join_with [of "CHR ''.''" "rev (split_on CHR ''.'' h)"] split_on_set
  by (fastforce simp: reversed_host_def)

lemma reversed_host_twice: "reversed_host (reversed_host h) = h"
proof -
  have "split_on CHR ''.'' (reversed_host h) = rev (split_on CHR ''.'' h)"
    unfolding reversed_host_def by (rule split_join) (auto dest: split_on_no_sep)
  then show ?thesis by (simp add: reversed_host_def [of "reversed_host h"])
qed

lemma host_of_path: "host_of (path_of url) = []"
  by (induction url) (auto simp: host_of_def path_of_def)

lemma path_of_path: "path_of (path_of url) = path_of url"
  by (induction url) (auto simp: path_of_def)

lemma host_of_append: "CHR ''/'' \<notin> set h \<Longrightarrow> host_of (h @ p) = h @ host_of p"
  and path_of_append: "CHR ''/'' \<notin> set h \<Longrightarrow> path_of (h @ p) = path_of p"
  by (induction h) (auto simp: host_of_def path_of_def)

text \<open>\<open>ReverseHost\<close> undoes itself.\<close>

theorem ReverseHost_involution: "ReverseHost (ReverseHost url) = url"
proof -
  have "CHR ''/'' \<notin> set (reversed_host (host_of url))"
    using reversed_host_set [of "host_of url"] by (auto simp: host_of_def dest: set_takeWhileD)
  then show ?thesis
    by (simp add: ReverseHost_parts host_of_append path_of_append host_of_path
        path_of_path reversed_host_twice)
qed

lemma ReverseHost_eq_Nil [simp]: "ReverseHost url = [] \<longleftrightarrow> url = []"
proof
  assume "ReverseHost url = []"
  then have "reversed_host (host_of url) = []" "path_of url = []"
    by (simp_all add: ReverseHost_parts)
  then have "host_of url = []"
    by (metis join_with.simps(2) reversed_host_def reversed_host_twice rev_singleton_conv split_on.simps(1))
  with \<open>path_of url = []\<close> show "url = []" using host_path [of url] by simp
qed (simp add: ReverseHost_eq host_of_def)

lemma ReverseHost_bytes: "set (ReverseHost url) \<subseteq> insert CHR ''.'' (set url)"
  using reversed_host_set [of "host_of url"]
  by (auto simp: ReverseHost_parts host_of_def path_of_def
      dest: set_takeWhileD set_dropWhileD)

end
