(* ===== verification/Method_Masks.thy ===== *)
theory Method_Masks
  imports Prelude
begin

text \<open>
  HTTP method masks (\<open>internal/rtree/common.go\<close>, the end of \<open>internal/rtree/build.go\<close>) and route
  tag masks (\<open>internal/tags/tags.go\<close>). A mask is a \<^typ>\<open>u16\<close> as in the code.
\<close>

subsection \<open>Method bits\<close>

definition MethodGet :: u16 where "MethodGet = 1"
definition MethodPost :: u16 where "MethodPost = 2"
definition MethodPut :: u16 where "MethodPut = 4"
definition MethodDelete :: u16 where "MethodDelete = 8"
definition MethodHead :: u16 where "MethodHead = 16"
definition MethodConnect :: u16 where "MethodConnect = 32"
definition MethodOptions :: u16 where "MethodOptions = 64"
definition MethodTrace :: u16 where "MethodTrace = 128"
definition MethodPatch :: u16 where "MethodPatch = 256"
definition MethodAny :: u16 where "MethodAny = 4095"

lemmas method_bits = MethodGet_def MethodPost_def MethodPut_def MethodDelete_def MethodHead_def
  MethodConnect_def MethodOptions_def MethodTrace_def MethodPatch_def MethodAny_def

text \<open>\<open>HTTPMethodMap[m]\<close>: a missing key reads as the zero mask.\<close>

definition HTTPMethodMap :: "string \<Rightarrow> u16" where
  "HTTPMethodMap m =
     (if m = ''GET'' then MethodGet else if m = ''POST'' then MethodPost
      else if m = ''PUT'' then MethodPut else if m = ''DELETE'' then MethodDelete
      else if m = ''HEAD'' then MethodHead else if m = ''CONNECT'' then MethodConnect
      else if m = ''OPTIONS'' then MethodOptions else if m = ''TRACE'' then MethodTrace
      else if m = ''PATCH'' then MethodPatch else 0)"

definition lookupMethodToken :: "string \<Rightarrow> u16 option" where
  "lookupMethodToken m =
     (if m \<in> {''g'', ''get''} then Some MethodGet
      else if m \<in> {''p'', ''po'', ''post''} then Some MethodPost
      else if m \<in> {''pu'', ''put''} then Some MethodPut
      else if m \<in> {''d'', ''del'', ''delete''} then Some MethodDelete
      else if m = ''head'' then Some MethodHead
      else if m = ''connect'' then Some MethodConnect
      else if m = ''options'' then Some MethodOptions
      else if m = ''trace'' then Some MethodTrace
      else if m = ''patch'' then Some MethodPatch
      else if m \<in> {''*'', ''any''} then Some MethodAny
      else None)"

text \<open>An unknown token contributes the zero mask (and a log line, which is not modelled).\<close>

definition token_mask :: "string \<Rightarrow> u16" where
  "token_mask token = (case lookupMethodToken token of Some k \<Rightarrow> k | None \<Rightarrow> 0)"

definition parseMethods :: "string \<Rightarrow> u16" where
  "parseMethods methods =
     foldl (\<lambda>res m. res OR token_mask (trim_space m)) 0 (split_on CHR '','' (to_lower methods))"

fun validate_tokens :: "string list \<Rightarrow> bool \<times> string" where
  "validate_tokens [] = (True, [])"
| "validate_tokens (m # ms) =
     (let token = trim_space m
      in if token = [] then validate_tokens ms
         else if lookupMethodToken (to_lower token) = None then (False, token)
         else validate_tokens ms)"

definition ValidateMethods :: "string \<Rightarrow> bool \<times> string" where
  "ValidateMethods methods = validate_tokens (split_on CHR '','' methods)"

text \<open>The compiler's second check, \<open>strings.Trim(methods, ", \t") == ""\<close>.\<close>

definition methods_missing :: "string \<Rightarrow> bool" where
  "methods_missing methods \<longleftrightarrow> trim (\<lambda>c. c \<in> {CHR '','', CHR '' '', CHR 0x09}) methods = []"

subsection \<open>Tags\<close>

definition NoMetricsTag :: u16 where "NoMetricsTag = 1"

definition parseTag :: "string \<Rightarrow> u16" where
  "parseTag tag =
     (if replace_all (trim_prefix tag ''@'') ''!'' ''no-'' = ''no-metrics'' then NoMetricsTag else 0)"

definition analyze_tags :: "string list \<Rightarrow> u16" where
  "analyze_tags origin = foldl (\<lambda>m tag. m OR parseTag tag) 0 origin"

definition valid_tag :: "string \<Rightarrow> bool" where
  "valid_tag tag \<longleftrightarrow> parseTag tag \<noteq> 0"

subsection \<open>Masks accumulate\<close>

lemma foldl_or_eq_0:
  "foldl (\<lambda>r x. r OR f x) a xs = 0 \<longleftrightarrow> a = (0 :: u16) \<and> (\<forall>x \<in> set xs. f x = 0)"
  by (induction xs arbitrary: a) (auto simp: or_eq_0_iff)

lemma lookupMethodToken_nonzero: "lookupMethodToken m = Some k \<Longrightarrow> k \<noteq> 0"
  by (auto simp: lookupMethodToken_def method_bits split: if_splits)

lemma token_mask_eq_0: "token_mask m = 0 \<longleftrightarrow> lookupMethodToken m = None"
  by (auto simp: token_mask_def dest: lookupMethodToken_nonzero split: option.splits)

lemma lookupMethodToken_Nil [simp]: "lookupMethodToken [] = None"
  by (simp add: lookupMethodToken_def)

subsection \<open>Trimming and lowering commute\<close>

lemma byte_lower: "byte (lower_char c) = (if 65 \<le> byte c \<and> byte c \<le> 90 then byte c + 32 else byte c)"
proof -
  have "(byte c + 32) mod 256 = byte c + 32" if "byte c \<le> 90" using that by simp
  then show ?thesis by (simp add: lower_char_def) (simp add: byte_def)
qed

lemma is_space_lower [simp]: "is_space (lower_char c) = is_space c"
  by (auto simp: is_space_def byte_lower)

lemma comma_lower [simp]: "lower_char c = CHR '','' \<longleftrightarrow> c = CHR '',''"
proof -
  have comma: "byte CHR '','' = 44" by (simp add: byte_def)
  have "lower_char c = CHR '','' \<longleftrightarrow> byte (lower_char c) = 44"
    by (metis comma byte_inj)
  also have "\<dots> \<longleftrightarrow> byte c = 44" by (auto simp: byte_lower)
  also have "\<dots> \<longleftrightarrow> c = CHR '',''" by (metis comma byte_inj)
  finally show ?thesis .
qed

lemma split_on_lower: "split_on CHR '','' (to_lower s) = map to_lower (split_on CHR '','' s)"
  by (induction s) (auto simp: to_lower_def split: list.splits)

lemma dropWhile_lower: "dropWhile is_space (to_lower s) = to_lower (dropWhile is_space s)"
  by (induction s) (auto simp: to_lower_def)

lemma trim_space_lower: "trim_space (to_lower s) = to_lower (trim_space s)"
proof -
  have rev_lower: "rev (to_lower x) = to_lower (rev x)" for x
    by (simp add: to_lower_def rev_map)
  show ?thesis
    by (simp add: trim_space_def trim_def trim_left_def trim_right_def dropWhile_lower rev_lower)
qed

lemma to_lower_eq_Nil [simp]: "to_lower s = [] \<longleftrightarrow> s = []"
  by (simp add: to_lower_def)

subsection \<open>The compiler's checks against the mask the router computes\<close>

lemma parseMethods_eq_0:
  "parseMethods ms = 0 \<longleftrightarrow>
     (\<forall>m \<in> set (split_on CHR '','' ms). lookupMethodToken (to_lower (trim_space m)) = None)"
  by (simp add: parseMethods_def foldl_or_eq_0 split_on_lower token_mask_eq_0 trim_space_lower)

lemma validate_tokens_ok:
  "fst (validate_tokens ms) \<longleftrightarrow>
     (\<forall>m \<in> set ms. trim_space m \<noteq> [] \<longrightarrow> lookupMethodToken (to_lower (trim_space m)) \<noteq> None)"
  by (induction ms) (auto simp: Let_def)

lemma split_on_cover: "x \<noteq> c \<Longrightarrow> (\<exists>f \<in> set (split_on c s). x \<in> set f) \<longleftrightarrow> x \<in> set s"
proof (induction s)
  case (Cons a s)
  obtain f fs where "split_on c s = f # fs" by (meson neq_Nil_conv split_on_neq_Nil)
  with Cons show ?case by auto
qed simp

lemma trim_space_eq_Nil: "trim_space m = [] \<longleftrightarrow> (\<forall>c \<in> set m. is_space c)"
  by (simp add: trim_space_def trim_eq_Nil list_all_iff)

lemma all_blank_tokens:
  "(\<forall>m \<in> set (split_on CHR '','' ms). trim_space m = []) \<longleftrightarrow>
     (\<forall>c \<in> set ms. c = CHR '','' \<or> is_space c)"
  unfolding trim_space_eq_Nil using split_on_cover split_on_no_sep by metis

text \<open>
  A methods field that passes \<open>ValidateMethods\<close> gives the zero mask exactly when it holds nothing
  but commas and white space.
\<close>

lemma validated_mask_eq_0:
  assumes "fst (ValidateMethods ms)"
  shows "parseMethods ms = 0 \<longleftrightarrow> (\<forall>c \<in> set ms. c = CHR '','' \<or> is_space c)"
proof -
  have "parseMethods ms = 0 \<longleftrightarrow> (\<forall>m \<in> set (split_on CHR '','' ms). trim_space m = [])"
    using assms unfolding parseMethods_eq_0 ValidateMethods_def validate_tokens_ok
    by (metis lookupMethodToken_Nil to_lower_eq_Nil)
  then show ?thesis by (simp add: all_blank_tokens)
qed

text \<open>A methods field that passes both checks of the rule parser and has no line or form
  feed, carriage return or vertical tab in it always has a method bit, so \<open>Build\<close> does not panic
  on it.\<close>

theorem checked_methods_have_a_bit:
  assumes "fst (ValidateMethods ms)" and "\<not> methods_missing ms"
    and "\<forall>c \<in> set ms. byte c \<notin> {10, 11, 12, 13}"
  shows "parseMethods ms \<noteq> 0"
proof
  assume "parseMethods ms = 0"
  with assms(1) have blank: "c = CHR '','' \<or> is_space c" if "c \<in> set ms" for c
    using that validated_mask_eq_0 by blast
  have "c \<in> {CHR '','', CHR '' '', CHR 0x09}" if "c \<in> set ms" for c
  proof -
    have b: "byte CHR '' '' = 32" "byte CHR 0x09 = 9" by (simp_all add: byte_def)
    show ?thesis using blank [OF that] assms(3) that b
      by (auto simp: is_space_def) (metis byte_inj)+
  qed
  then have "methods_missing ms" by (auto simp: methods_missing_def trim_eq_Nil list_all_iff)
  with assms(2) show False ..
qed

theorem checked_methods_have_a_bit_witness: "parseMethods ''GET, post'' \<noteq> 0"
  by (rule checked_methods_have_a_bit) (code_simp+)

text \<open>Without that restriction the two checks let a field through whose mask is zero, the case
  in which \<open>Build\<close> panics: a vertical tab between two commas.\<close>

theorem vertical_tab_passes_checks:
  "fst (ValidateMethods [CHR '','', CHR 0x0B, CHR '','']) \<and>
   \<not> methods_missing [CHR '','', CHR 0x0B, CHR '',''] \<and>
   parseMethods [CHR '','', CHR 0x0B, CHR '',''] = 0"
  by code_simp

end
