(* ===== verification/Route_Tree.thy ===== *)
theory Route_Tree
  imports Prelude
begin

text \<open>
  The data of \<open>internal/rtree\<close>: the flattened \<open>RouteTree\<close> of \<open>search.go\<close> that is searched and
  shipped as a \<open>.ntu\<close> file, and the linked \<open>buildNode\<close> trie of \<open>build.go\<close> it is made from, with
  \<open>insert\<close>.

  Offsets, identifiers and cursors the code keeps in 32 bits are unbounded here: they count pool
  entries and bytes of one request, and reach \<open>2^31\<close> only with pools of that size. \<open>EdgeOffset\<close> and
  \<open>EdgeCount\<close>, which the code cuts to 16 bits, are cut here too (\<^const>\<open>u16_of\<close>).
\<close>

subsection \<open>The flattened tree\<close>

definition WildcardGreedy :: char where "WildcardGreedy = CHR 0x01"
definition Wildcard :: char where "Wildcard = CHR 0x02"
definition MaxWildcardsPerRoute :: nat where "MaxWildcardsPerRoute = 32"

lemma wildcards_differ [simp]: "Wildcard \<noteq> WildcardGreedy" "WildcardGreedy \<noteq> Wildcard"
  by (simp_all add: Wildcard_def WildcardGreedy_def)

definition is_wild :: "char \<Rightarrow> bool" where
  "is_wild c \<longleftrightarrow> c = Wildcard \<or> c = WildcardGreedy"

lemma is_wild_consts [simp]: "is_wild Wildcard" "is_wild WildcardGreedy"
  by (simp_all add: is_wild_def)

text \<open>A byte that \<open>Search\<close> treats as literal text, \<open>t.FragmentPool[edge.Offset] >= 3\<close>.\<close>

definition is_text :: "char \<Rightarrow> bool" where
  "is_text c \<longleftrightarrow> 3 \<le> byte c"

lemma byte_wildcards [simp]: "byte Wildcard = 2" "byte WildcardGreedy = 1"
  by (simp_all add: byte_def Wildcard_def WildcardGreedy_def)

lemma wild_not_text [simp]: "is_wild c \<Longrightarrow> \<not> is_text c"
  by (auto simp: is_wild_def is_text_def)

record edge =
  TargetID :: nat
  Offset :: nat
  End :: nat
  GraftRollback :: int

record route_node =
  ActionIndex :: nat
  EdgeOffset :: nat
  EdgeCount :: nat
  Methods :: u16
  Tags :: u16

record route_tree =
  FragmentPool :: string
  ActionsRegistry :: string
  ActionMetadata :: "nat list"
  NodePool :: "route_node list"
  EdgePool :: "edge list"

text \<open>What the code reads of a matched node: its action index, method mask and tag mask.\<close>

type_synonym leaf = "nat \<times> u16 \<times> u16"

definition node_leaf :: "route_node \<Rightarrow> leaf" where
  "node_leaf n = (ActionIndex n, Methods n, Tags n)"

subsection \<open>The trie under construction\<close>

datatype build_edge = BuildEdge (Fragment: string) (Node: build_node)
  and build_node = BuildNode (Edges: "build_edge list") (NodeAction: nat) (NodeMethods: u16) (NodeTags: u16)

definition new_build_node :: build_node where
  "new_build_node = BuildNode [] 0 0 0"

text \<open>\<open>roots := make([]buildEdge, 256)\<close>, indexed by the first byte; \<^const>\<open>None\<close> is a nil \<open>Node\<close>.\<close>

type_synonym roots = "char \<Rightarrow> build_edge option"

definition no_roots :: roots where
  "no_roots = (\<lambda>_. None)"

fun set_leaf :: "leaf \<Rightarrow> build_node \<Rightarrow> build_node" where
  "set_leaf (actionIndex, methods, tags) (BuildNode es _ _ _) = BuildNode es actionIndex methods tags"

text \<open>The search for the edge that starts with \<open>char\<close>: the first one is followed, and a new edge is
  appended when there is none.\<close>

fun follow_edge :: "char \<Rightarrow> (build_node \<Rightarrow> build_node) \<Rightarrow> build_edge list \<Rightarrow> build_edge list" where
  "follow_edge c f [] = [BuildEdge [c] (f new_build_node)]"
| "follow_edge c f (e # es) =
     (if hd (Fragment e) = c then BuildEdge (Fragment e) (f (Node e)) # es
      else e # follow_edge c f es)"

primrec insert_below :: "string \<Rightarrow> leaf \<Rightarrow> build_node \<Rightarrow> build_node" where
  "insert_below [] l n = set_leaf l n"
| "insert_below (c # url) l n =
     BuildNode (follow_edge c (insert_below url l) (Edges n)) (NodeAction n) (NodeMethods n) (NodeTags n)"

definition insert_route :: "roots \<Rightarrow> string \<Rightarrow> leaf \<Rightarrow> roots" where
  "insert_route roots url l =
     (case url of
        [] \<Rightarrow> roots
      | c # rest \<Rightarrow>
          let e = (case roots c of Some e \<Rightarrow> e | None \<Rightarrow> BuildEdge [c] new_build_node)
          in roots(c \<mapsto> BuildEdge (Fragment e) (insert_below rest l (Node e))))"

subsection \<open>The paths of a trie\<close>

text \<open>
  The abstraction of a trie is the list of its leaves with the bytes that lead to them: a node
  contributes its own leaf when its method mask is not zero, an edge prepends its fragment.
\<close>

definition own_leaf :: "nat \<Rightarrow> u16 \<Rightarrow> u16 \<Rightarrow> (string \<times> leaf) list" where
  "own_leaf a m t = (if m = 0 then [] else [([], a, m, t)])"

fun edge_paths :: "build_edge \<Rightarrow> (string \<times> leaf) list"
and node_paths :: "build_node \<Rightarrow> (string \<times> leaf) list"
and edges_paths :: "build_edge list \<Rightarrow> (string \<times> leaf) list" where
  "edge_paths (BuildEdge f n) = map (\<lambda>(p, l). (f @ p, l)) (node_paths n)"
| "node_paths (BuildNode es a m t) = own_leaf a m t @ edges_paths es"
| "edges_paths [] = []"
| "edges_paths (e # es) = edge_paths e @ edges_paths es"

definition holds_route :: "roots \<Rightarrow> string \<Rightarrow> leaf \<Rightarrow> bool" where
  "holds_route roots url l \<longleftrightarrow>
     (case url of [] \<Rightarrow> False
      | c # _ \<Rightarrow> (case roots c of None \<Rightarrow> False | Some e \<Rightarrow> (url, l) \<in> set (edge_paths e)))"

text \<open>The shape \<open>insert\<close> keeps: one byte on every edge, no two edges of a node with the same byte.\<close>

fun tidy_edge :: "build_edge \<Rightarrow> bool"
and tidy_node :: "build_node \<Rightarrow> bool"
and tidy_edges :: "build_edge list \<Rightarrow> bool" where
  "tidy_edge (BuildEdge f n) \<longleftrightarrow> length f = 1 \<and> tidy_node n"
| "tidy_node (BuildNode es a m t) \<longleftrightarrow> tidy_edges es"
| "tidy_edges [] \<longleftrightarrow> True"
| "tidy_edges (e # es) \<longleftrightarrow>
     tidy_edge e \<and> hd (Fragment e) \<notin> (\<lambda>e'. hd (Fragment e')) ` set es \<and> tidy_edges es"

definition tidy_roots :: "roots \<Rightarrow> bool" where
  "tidy_roots roots \<longleftrightarrow> (\<forall>c e. roots c = Some e \<longrightarrow> tidy_edge e \<and> Fragment e = [c])"

lemma tidy_edge_iff: "tidy_edge e \<longleftrightarrow> length (Fragment e) = 1 \<and> tidy_node (Node e)"
  by (cases e) simp

lemma tidy_node_iff: "tidy_node n \<longleftrightarrow> tidy_edges (Edges n)"
  by (cases n) simp

lemma edge_paths_eq: "edge_paths e = map (\<lambda>(p, l). (Fragment e @ p, l)) (node_paths (Node e))"
  by (cases e) simp

lemma node_paths_eq:
  "node_paths n = own_leaf (NodeAction n) (NodeMethods n) (NodeTags n) @ edges_paths (Edges n)"
  by (cases n) simp

lemma set_edges_paths: "set (edges_paths es) = (\<Union>e \<in> set es. set (edge_paths e))"
  by (induction es) auto

lemma new_build_node_simps [simp]:
  "Edges new_build_node = []" "NodeMethods new_build_node = 0" "node_paths new_build_node = []"
  "tidy_node new_build_node"
  by (simp_all add: new_build_node_def own_leaf_def)

end
