(* ===== verification/Trie.thy ===== *)
theory Trie
  imports Route_Tree
begin

text \<open>
  \<open>insert\<close> of \<open>internal/rtree/build.go\<close> as a finite map from lookup paths to leaves: a later
  insertion of the same path replaces the leaf, and every other path keeps its own.
\<close>

subsection \<open>A store of routes\<close>

text \<open>The contract of a route store: what it holds after an insertion.\<close>

locale route_store =
  fixes empty :: "'s"
    and ins :: "'s \<Rightarrow> 'k \<Rightarrow> 'v \<Rightarrow> 's"
    and holds :: "'s \<Rightarrow> 'k \<Rightarrow> 'v \<Rightarrow> bool"
    and inv :: "'s \<Rightarrow> bool"
    and key_ok :: "'k \<Rightarrow> bool"
    and val_ok :: "'v \<Rightarrow> bool"
  assumes inv_empty: "inv empty"
    and holds_empty: "\<not> holds empty k v"
    and inv_ins: "inv s \<Longrightarrow> inv (ins s k v)"
    and holds_ins: "inv s \<Longrightarrow> key_ok k \<Longrightarrow> val_ok v \<Longrightarrow>
      holds (ins s k v) k' v' \<longleftrightarrow> (if k' = k then v' = v else holds s k' v')"
begin

definition ins_all :: "'s \<Rightarrow> ('k \<times> 'v) list \<Rightarrow> 's" where
  "ins_all s kvs = foldl (\<lambda>s (k, v). ins s k v) s kvs"

lemma ins_all_simps [simp]:
  "ins_all s [] = s" "ins_all s (kv # kvs) = ins_all (ins s (fst kv) (snd kv)) kvs"
  by (simp_all add: ins_all_def split_beta)

lemma inv_ins_all: "inv s \<Longrightarrow> inv (ins_all s kvs)"
  by (induction kvs arbitrary: s) (auto intro: inv_ins)

lemma holds_ins_all_from:
  assumes "inv s" and "\<forall>(k, v) \<in> set kvs. key_ok k \<and> val_ok v"
  shows "holds (ins_all s kvs) k v \<longleftrightarrow>
    (case map_of (rev kvs) k of Some w \<Rightarrow> v = w | None \<Rightarrow> holds s k v)"
  using assms
  by (induction kvs arbitrary: s)
    (auto simp: inv_ins holds_ins map_add_def split: option.splits)

lemma holds_ins_all:
  assumes "\<forall>(k, v) \<in> set kvs. key_ok k \<and> val_ok v"
  shows "holds (ins_all empty kvs) k v \<longleftrightarrow> map_of (rev kvs) k = Some v"
  using holds_ins_all_from [OF inv_empty assms] holds_empty
  by (auto split: option.splits)

end

subsection \<open>The trie is a store of routes\<close>

lemma follow_edge_hds:
  "(\<lambda>e. hd (Fragment e)) ` set (follow_edge c f es) = insert c ((\<lambda>e. hd (Fragment e)) ` set es)"
  by (induction es) auto

lemma tidy_follow_edge:
  assumes "\<And>n. tidy_node n \<Longrightarrow> tidy_node (f n)" and "tidy_edges es"
  shows "tidy_edges (follow_edge c f es)"
  using assms by (induction es) (auto simp: tidy_edge_iff follow_edge_hds)

lemma tidy_set_leaf: "tidy_node (set_leaf l n) = tidy_node n"
  by (cases l; cases n) simp

lemma tidy_insert_below: "tidy_node n \<Longrightarrow> tidy_node (insert_below url l n)"
proof (induction url arbitrary: n)
  case (Cons c url)
  then show ?case by (simp add: tidy_follow_edge tidy_node_iff [of n])
qed (simp add: tidy_set_leaf)

lemma edge_path_starts:
  assumes "tidy_edge e" and "(u, l) \<in> set (edge_paths e)"
  shows "\<exists>v. u = hd (Fragment e) # v"
proof -
  from assms(1) obtain c where "Fragment e = [c]"
    by (auto simp: tidy_edge_iff length_Suc_conv)
  with assms(2) show ?thesis by (auto simp: edge_paths_eq)
qed

lemma no_path_without_edge:
  assumes "tidy_edges es" and "c \<notin> (\<lambda>e. hd (Fragment e)) ` set es"
  shows "(c # u, l) \<notin> set (edges_paths es)"
  using assms by (induction es) (auto dest: edge_path_starts)

text \<open>Paths through the edge a byte selects.\<close>

lemma follow_edge_paths:
  assumes "tidy_edges es"
  shows "(d # u, l) \<in> set (edges_paths (follow_edge c f es)) \<longleftrightarrow>
    (if d = c then \<exists>n. (u, l) \<in> set (node_paths (f n)) \<and>
        n = (case find (\<lambda>e. hd (Fragment e) = c) es of Some e \<Rightarrow> Node e | None \<Rightarrow> new_build_node)
     else (d # u, l) \<in> set (edges_paths es))"
  using assms
proof (induction es)
  case Nil
  then show ?case by auto
next
  case (Cons e es)
  then obtain b where b: "Fragment e = [b]" by (auto simp: tidy_edge_iff length_Suc_conv)
  show ?case
  proof (cases "b = c")
    case True
    have "(c # u, l) \<notin> set (edges_paths es)"
      using Cons.prems True b by (intro no_path_without_edge) auto
    with True b show ?thesis by (auto simp: edge_paths_eq)
  next
    case False
    with Cons b show ?thesis by (auto simp: edge_paths_eq)
  qed
qed

lemma edges_paths_found:
  assumes "tidy_edges es"
  shows "(c # u, l) \<in> set (edges_paths es) \<longleftrightarrow>
    (\<exists>e. find (\<lambda>e. hd (Fragment e) = c) es = Some e \<and> (u, l) \<in> set (node_paths (Node e)))"
  using assms
proof (induction es)
  case (Cons e es)
  then obtain b where b: "Fragment e = [b]" by (auto simp: tidy_edge_iff length_Suc_conv)
  show ?case
  proof (cases "b = c")
    case True
    have "(c # u, l) \<notin> set (edges_paths es)"
      using Cons.prems True b by (intro no_path_without_edge) auto
    with True b show ?thesis by (auto simp: edge_paths_eq)
  next
    case False
    with Cons b show ?thesis by (auto simp: edge_paths_eq)
  qed
qed simp

lemma edges_paths_nonempty: "tidy_edges es \<Longrightarrow> ([], l) \<notin> set (edges_paths es)"
  by (induction es) (auto dest: edge_path_starts)

lemma find_tidy: "tidy_edges es \<Longrightarrow> find P es = Some e \<Longrightarrow> tidy_node (Node e)"
  by (induction es) (auto simp: tidy_edge_iff split: if_splits)

lemma insert_below_paths:
  assumes "tidy_node n" and "fst (snd l) \<noteq> 0"
  shows "(u, k) \<in> set (node_paths (insert_below url l n)) \<longleftrightarrow>
    (if u = url then k = l else (u, k) \<in> set (node_paths n))"
  using assms
proof (induction url arbitrary: n u)
  case Nil
  obtain a m t where l: "l = (a, m, t)" by (cases l)
  from Nil show ?case
    by (cases n) (auto simp: l own_leaf_def edges_paths_nonempty)
next
  case (Cons c url)
  let ?n = "case find (\<lambda>e. hd (Fragment e) = c) (Edges n) of Some e \<Rightarrow> Node e | None \<Rightarrow> new_build_node"
  have es: "tidy_edges (Edges n)" using Cons.prems(1) by (simp add: tidy_node_iff)
  then have tn: "tidy_node ?n" by (auto split: option.splits dest: find_tidy)
  show ?case
  proof (cases u)
    case Nil
    have "tidy_edges (follow_edge c (insert_below url l) (Edges n))"
      using es by (intro tidy_follow_edge tidy_insert_below)
    with Nil es show ?thesis
      by (auto simp: node_paths_eq [of n] own_leaf_def dest: edges_paths_nonempty)
  next
    case (Cons d v)
    have "(v, k) \<in> set (node_paths (insert_below url l ?n)) \<longleftrightarrow>
        (if v = url then k = l else (v, k) \<in> set (node_paths ?n))"
      using tn Cons.prems(2) \<open>fst (snd l) \<noteq> 0\<close> by (intro Cons.IH)
    moreover have "(v, k) \<in> set (node_paths ?n) \<longleftrightarrow> (c # v, k) \<in> set (edges_paths (Edges n))"
      using edges_paths_found [OF es] by (auto split: option.splits)
    ultimately show ?thesis
      using Cons follow_edge_paths [OF es, of d v k c "insert_below url l"]
      by (auto simp: node_paths_eq [of n] own_leaf_def)
  qed
qed

lemma tidy_insert_route: "tidy_roots roots \<Longrightarrow> tidy_roots (insert_route roots url l)"
  by (auto simp: tidy_roots_def insert_route_def Let_def tidy_edge_iff tidy_insert_below
      split: list.splits option.splits)

lemma insert_route_holds:
  assumes "tidy_roots roots" and "url \<noteq> []" and "fst (snd l) \<noteq> 0"
  shows "holds_route (insert_route roots url l) u k \<longleftrightarrow>
    (if u = url then k = l else holds_route roots u k)"
proof -
  from assms(2) obtain c rest where url: "url = c # rest" by (cases url) auto
  define e where "e = (case roots c of Some e \<Rightarrow> e | None \<Rightarrow> BuildEdge [c] new_build_node)"
  have e: "Fragment e = [c]" "tidy_node (Node e)"
    using assms(1) by (auto simp: e_def tidy_roots_def tidy_edge_iff split: option.splits)
  have old: "holds_route roots (c # v) k \<longleftrightarrow> (v, k) \<in> set (node_paths (Node e))" for v
    using e by (auto simp: holds_route_def e_def edge_paths_eq split: option.splits)
  have new: "holds_route (insert_route roots url l) (c # v) k \<longleftrightarrow>
      (v, k) \<in> set (node_paths (insert_below rest l (Node e)))" for v
    using e by (auto simp: holds_route_def insert_route_def url e_def [symmetric])
  have other: "holds_route (insert_route roots url l) u k = holds_route roots u k"
    if "\<forall>v. u \<noteq> c # v"
    using that by (cases u) (auto simp: holds_route_def insert_route_def url Let_def)
  show ?thesis
  proof (cases "\<exists>v. u = c # v")
    case True
    then show ?thesis using insert_below_paths [OF e(2) assms(3)] old new url by auto
  next
    case False
    then show ?thesis using other url by auto
  qed
qed

interpretation trie: route_store no_roots insert_route holds_route tidy_roots
  "\<lambda>url. url \<noteq> []" "\<lambda>l. fst (snd l) \<noteq> 0"
proof unfold_locales
  show "tidy_roots no_roots" by (simp add: tidy_roots_def no_roots_def)
  show "\<not> holds_route no_roots k v" for k v
    by (simp add: holds_route_def no_roots_def split: list.split)
qed (rule tidy_insert_route insert_route_holds; assumption)+

text \<open>The routes inserted in order: the trie of the loop of \<open>Build\<close>.\<close>

definition insert_routes :: "(string \<times> leaf) list \<Rightarrow> roots" where
  "insert_routes rs = foldl (\<lambda>roots (url, l). insert_route roots url l) no_roots rs"

lemma insert_routes_holds:
  assumes "\<forall>(url, (a, m, t)) \<in> set rs. url \<noteq> [] \<and> m \<noteq> 0"
  shows "holds_route (insert_routes rs) url l \<longleftrightarrow> map_of (rev rs) url = Some l"
  using trie.holds_ins_all [of rs url l] assms
  by (fastforce simp: insert_routes_def trie.ins_all_def)

text \<open>The trie \<open>Build\<close> inserts its routes into holds, for each path, the leaf of the last route
  with that path, and nothing else.\<close>

theorem insert_routes_last_wins:
  assumes "\<forall>(url, (a, m, t)) \<in> set rs. url \<noteq> [] \<and> m \<noteq> 0"
  shows "holds_route (insert_routes rs) url l \<longleftrightarrow> map_of (rev rs) url = Some l"
  using assms by (rule insert_routes_holds)

theorem insert_routes_last_wins_witness:
  "holds_route (insert_routes [(''ab'', 1, 1, 0), (''ac'', 4, 2, 0), (''ab'', 7, 4, 0)]) ''ab'' (7, 4, 0)"
  by (subst insert_routes_last_wins) simp_all

lemma tidy_insert_routes: "tidy_roots (insert_routes rs)"
  using trie.inv_ins_all [OF trie.inv_empty, of rs] by (simp add: insert_routes_def trie.ins_all_def)

end
