(* ===== verification/Compress.thy ===== *)
theory Compress
  imports Trie
begin

text \<open>
  \<open>compress\<close>, \<open>compressEdge\<close> and \<open>compressNode\<close> of \<open>internal/rtree/build.go\<close>: chains of
  single-child nodes become one edge, and the wildcard edges of a node come after its literal ones.
  Compression keeps the paths of the trie and the shape the search relies on.

  \<open>slices.SortFunc\<close> is the stable \<^const>\<open>sort_key\<close>, which is what it does for up to twelve edges; for
  more, Go leaves the order of edges of the same class open. No lemma below depends on that order.
\<close>

subsection \<open>The code\<close>

definition edge_class :: "build_edge \<Rightarrow> nat" where
  "edge_class e = (case Fragment e of [] \<Rightarrow> 0
     | c # _ \<Rightarrow> if c = WildcardGreedy then 2 else if c = Wildcard then 1 else 0)"

definition wild_edge :: "build_edge \<Rightarrow> bool" where
  "wild_edge e \<longleftrightarrow> is_wild (hd (Fragment e))"

text \<open>The three results are the edge as the code leaves it, the length estimate and the flag \<open>ok\<close>.\<close>

fun compress_edge :: "build_edge \<Rightarrow> build_edge \<times> nat \<times> bool"
and compress_each :: "build_edge list \<Rightarrow> build_edge list \<times> nat" where
  "compress_edge (BuildEdge f (BuildNode [] a m t)) =
     (if is_wild (hd f) then (BuildEdge f (BuildNode [] a m t), 0, False)
      else (BuildEdge f (BuildNode [] a m t), 1, True))"
| "compress_edge (BuildEdge f (BuildNode [e] a m t)) =
     (let (child, l, ok) = compress_edge e
      in if is_wild (hd f) then (BuildEdge f (BuildNode [child] a m t), l, False)
         else if ok \<and> m = 0 then (BuildEdge (f @ Fragment child) (Node child), l + 1, True)
         else (BuildEdge f (BuildNode [child] a m t), l + 1, True))"
| "compress_edge (BuildEdge f (BuildNode (e # e' # es) a m t)) =
     (let (es', l) = compress_each (e # e' # es)
      in (BuildEdge f (BuildNode (sort_key edge_class es') a m t), l + 1, True))"
| "compress_each [] = ([], 0)"
| "compress_each (e # es) =
     (fst (compress_edge e) # fst (compress_each es),
      fst (snd (compress_edge e)) + snd (compress_each es))"

definition compress_node :: "build_node \<Rightarrow> build_node \<times> nat" where
  "compress_node n =
     (let (es, total) = compress_each (Edges n)
      in (BuildNode (sort_key edge_class es) (NodeAction n) (NodeMethods n) (NodeTags n), total))"

definition compress_roots :: "roots \<Rightarrow> roots" where
  "compress_roots roots =
     (\<lambda>c. map_option (\<lambda>e. BuildEdge (Fragment e) (fst (compress_node (Node e)))) (roots c))"

text \<open>The estimate \<open>compress\<close> returns, which only sizes the fragment pool.\<close>

definition compress_estimate :: "roots \<Rightarrow> nat" where
  "compress_estimate roots = sum_list (map (\<lambda>c.
     (case roots c of None \<Rightarrow> 0 | Some e \<Rightarrow> snd (compress_node (Node e)))) (map char_of [0..<256::nat]))"

subsection \<open>The shape the search relies on\<close>

text \<open>
  A wildcard edge is one byte long and has no wildcard edge right below it; the first byte of any
  other fragment is literal text; the edges of a node start with different bytes.
\<close>

fun wf_edge :: "build_edge \<Rightarrow> bool"
and wf_node :: "build_node \<Rightarrow> bool"
and wf_edges :: "build_edge list \<Rightarrow> bool" where
  "wf_edge (BuildEdge f n) \<longleftrightarrow> f \<noteq> [] \<and> wf_node n \<and>
     (if is_wild (hd f) then tl f = [] \<and> \<not> list_ex wild_edge (Edges n) else is_text (hd f))"
| "wf_node (BuildNode es a m t) \<longleftrightarrow> wf_edges es"
| "wf_edges [] \<longleftrightarrow> True"
| "wf_edges (e # es) \<longleftrightarrow>
     wf_edge e \<and> hd (Fragment e) \<notin> (\<lambda>e'. hd (Fragment e')) ` set es \<and> wf_edges es"

text \<open>Literal edges first, then \<open>*\<close>, then \<open>**\<close>, at every node.\<close>

fun ordered_edge :: "build_edge \<Rightarrow> bool"
and ordered_node :: "build_node \<Rightarrow> bool"
and ordered_edges :: "build_edge list \<Rightarrow> bool" where
  "ordered_edge (BuildEdge f n) \<longleftrightarrow> ordered_node n"
| "ordered_node (BuildNode es a m t) \<longleftrightarrow> sorted (map edge_class es) \<and> ordered_edges es"
| "ordered_edges [] \<longleftrightarrow> True"
| "ordered_edges (e # es) \<longleftrightarrow> ordered_edge e \<and> ordered_edges es"

text \<open>The largest number of wildcard edges on a path.\<close>

fun wilds_edge :: "build_edge \<Rightarrow> nat"
and wilds_node :: "build_node \<Rightarrow> nat"
and wilds_edges :: "build_edge list \<Rightarrow> nat" where
  "wilds_edge (BuildEdge f n) = (if is_wild (hd f) then 1 else 0) + wilds_node n"
| "wilds_node (BuildNode es a m t) = wilds_edges es"
| "wilds_edges [] = 0"
| "wilds_edges (e # es) = max (wilds_edge e) (wilds_edges es)"

definition wf_roots :: "roots \<Rightarrow> bool" where
  "wf_roots roots \<longleftrightarrow> (\<forall>c e. roots c = Some e \<longrightarrow>
     Fragment e = [c] \<and> wf_edge e \<and> wilds_edge e \<le> MaxWildcardsPerRoute)"

definition ordered_roots :: "roots \<Rightarrow> bool" where
  "ordered_roots roots \<longleftrightarrow> (\<forall>c e. roots c = Some e \<longrightarrow> ordered_edge e)"

subsection \<open>Order of the edges does not matter for the set-like facts\<close>

lemma wf_edges_iff:
  "wf_edges es \<longleftrightarrow> (\<forall>e \<in> set es. wf_edge e) \<and> distinct (map (\<lambda>e. hd (Fragment e)) es)"
  by (induction es) auto

lemma ordered_edges_iff: "ordered_edges es \<longleftrightarrow> (\<forall>e \<in> set es. ordered_edge e)"
  by (induction es) auto

lemma wilds_edges_le: "wilds_edges es \<le> k \<longleftrightarrow> (\<forall>e \<in> set es. wilds_edge e \<le> k)"
  by (induction es) auto

lemma distinct_map_sort_key:
  "distinct (map f (sort_key k xs)) \<longleftrightarrow> distinct (map f xs)"
  by (metis distinct_map distinct_sort set_sort)

lemma wf_edges_sort [simp]: "wf_edges (sort_key edge_class es) = wf_edges es"
  by (simp add: wf_edges_iff distinct_map_sort_key)

lemma ordered_edges_sort [simp]: "ordered_edges (sort_key edge_class es) = ordered_edges es"
  by (simp add: ordered_edges_iff)

lemma wilds_edges_sort [simp]: "wilds_edges (sort_key edge_class es) = wilds_edges es"
proof -
  have "wilds_edges (sort_key edge_class es) \<le> k \<longleftrightarrow> wilds_edges es \<le> k" for k
    by (simp add: wilds_edges_le)
  then show ?thesis by (metis order_antisym order_refl)
qed

lemma edges_paths_sort [simp]:
  "set (edges_paths (sort_key edge_class es)) = set (edges_paths es)"
  by (simp add: set_edges_paths)

lemma list_ex_sort [simp]: "list_ex P (sort_key k es) = list_ex P es"
  by (simp add: list_ex_iff)

subsection \<open>Compression keeps the paths\<close>

lemma merged_edge_paths:
  "edge_paths (BuildEdge (f @ Fragment c) (Node c)) = map (\<lambda>(p, l). (f @ p, l)) (edge_paths c)"
  by (cases c) (simp add: split_beta)

lemma compress_paths:
  "set (edge_paths (fst (compress_edge e))) = set (edge_paths e)"
  "set (edges_paths (fst (compress_each es))) = set (edges_paths es)"
proof (induction e and es rule: compress_edge_compress_each.induct)
  case (2 f e a m t)
  then show ?case
    by (simp add: split_beta own_leaf_def merged_edge_paths image_Un del: edge_paths.simps(1))
      (simp add: split_beta own_leaf_def image_Un)
next
  case (3 f e e' es a m t)
  then show ?case by (simp add: split_beta image_Un del: compress_each.simps)
qed simp_all

subsection \<open>Compression keeps the shape\<close>

lemma compress_head [simp]: "f \<noteq> [] \<Longrightarrow> hd (Fragment (fst (compress_edge (BuildEdge f n)))) = hd f"
  by (rule compress_edge.cases [of "BuildEdge f n"]) (auto simp: split_beta simp del: compress_each.simps)

lemma compress_head_edge: "Fragment e \<noteq> [] \<Longrightarrow> hd (Fragment (fst (compress_edge e))) = hd (Fragment e)"
  by (cases e) simp

lemma wf_edge_Fragment: "wf_edge e \<Longrightarrow> Fragment e \<noteq> []"
  by (cases e) simp

lemma compress_each_heads:
  "wf_edges es \<Longrightarrow> map (\<lambda>e. hd (Fragment e)) (fst (compress_each es)) = map (\<lambda>e. hd (Fragment e)) es"
  by (induction es) (auto simp: split_beta compress_head_edge wf_edge_Fragment)

lemma same_heads_wild:
  "map (\<lambda>e. hd (Fragment e)) xs = map (\<lambda>e. hd (Fragment e)) ys \<Longrightarrow>
     list_ex wild_edge xs = list_ex wild_edge ys"
proof (induction xs arbitrary: ys)
  case (Cons x xs)
  then obtain y ys' where ys: "ys = y # ys'" "hd (Fragment x) = hd (Fragment y)"
    and tl: "map (\<lambda>e. hd (Fragment e)) xs = map (\<lambda>e. hd (Fragment e)) ys'"
    by (auto simp: map_eq_Cons_conv dest: sym)
  from Cons.IH [OF tl] ys show ?case by (simp add: wild_edge_def)
qed simp

lemma wf_node_iff: "wf_node n \<longleftrightarrow> wf_edges (Edges n)"
  by (cases n) simp

lemma compress_wf:
  "wf_edge e \<Longrightarrow> wf_edge (fst (compress_edge e))"
  "wf_edges es \<Longrightarrow> wf_edges (fst (compress_each es))"
proof (induction e and es rule: compress_edge_compress_each.induct)
  case (2 f e a m t)
  then have e: "wf_edge e" "f \<noteq> []" by auto
  then have h: "hd (Fragment (fst (compress_edge e))) = hd (Fragment e)"
    by (simp add: compress_head_edge wf_edge_Fragment)
  have w: "wf_edge (fst (compress_edge e))" using 2 by simp
  then have "wf_node (Node (fst (compress_edge e)))" by (cases "fst (compress_edge e)") simp
  with 2 e h w show ?case by (auto simp: split_beta wild_edge_def wf_edges_iff)
next
  case (3 f e e' es a m t)
  let ?es = "e # e' # es"
  have "wf_edges ?es" using 3 by simp
  then have w: "wf_edges (fst (compress_each ?es))"
    and h: "map (\<lambda>e. hd (Fragment e)) (fst (compress_each ?es)) = map (\<lambda>e. hd (Fragment e)) ?es"
    using "3.IH" by (blast, intro compress_each_heads)
  have "list_ex wild_edge (fst (compress_each ?es)) = list_ex wild_edge ?es"
    by (rule same_heads_wild [OF h])
  with 3 w show ?case by (auto simp: split_beta simp del: compress_each.simps)
next
  case (5 e es)
  have "map (\<lambda>e. hd (Fragment e)) (fst (compress_each es)) = map (\<lambda>e. hd (Fragment e)) es"
    using 5 by (simp add: compress_each_heads)
  then have "(\<lambda>e. hd (Fragment e)) ` set (fst (compress_each es)) = (\<lambda>e. hd (Fragment e)) ` set es"
    by (metis list.set_map)
  with 5 show ?case by (simp add: split_beta compress_head_edge wf_edge_Fragment)
qed simp_all

lemma ordered_edge_iff: "ordered_edge e \<longleftrightarrow> ordered_node (Node e)"
  by (cases e) simp

lemma compress_ordered:
  "ordered_edge (fst (compress_edge e))"
  "ordered_edges (fst (compress_each es))"
proof (induction e and es rule: compress_edge_compress_each.induct)
  case (3 f e e' es a m t)
  then show ?case by (simp add: split_beta del: compress_each.simps)
qed (auto simp: split_beta ordered_edge_iff)

lemma compress_wilds:
  "wf_edge e \<Longrightarrow> wilds_edge (fst (compress_edge e)) \<le> wilds_edge e"
  "wf_edges es \<Longrightarrow> wilds_edges (fst (compress_each es)) \<le> wilds_edges es"
proof (induction e and es rule: compress_edge_compress_each.induct)
  case (2 f e a m t)
  then have e: "wilds_edge (fst (compress_edge e)) \<le> wilds_edge e" "f \<noteq> []" by auto
  then have "wilds_node (Node (fst (compress_edge e))) \<le> wilds_edge (fst (compress_edge e))"
    by (cases "fst (compress_edge e)") simp
  with 2 e show ?case by (auto simp: split_beta)
next
  case (3 f e e' es a m t)
  then show ?case by (auto simp: split_beta simp del: compress_each.simps wilds_edges.simps)
next
  case (5 e es)
  then show ?case by (auto simp: split_beta)
qed simp_all

lemma compress_root:
  assumes "wf_edge e" and "Fragment e = [c]"
  defines "e' \<equiv> BuildEdge (Fragment e) (fst (compress_node (Node e)))"
  shows "wf_edge e'" and "ordered_edge e'" and "wilds_edge e' \<le> wilds_edge e"
    and "set (edge_paths e') = set (edge_paths e)"
proof -
  obtain es a m t where e: "e = BuildEdge [c] (BuildNode es a m t)"
    using assms(2) by (cases e; cases "Node e") auto
  have wf: "wf_edges es" using assms(1) e by simp
  have wild: "list_ex wild_edge (fst (compress_each es)) = list_ex wild_edge es"
    by (rule same_heads_wild [OF compress_each_heads [OF wf]])
  have e': "e' = BuildEdge [c] (BuildNode (sort_key edge_class (fst (compress_each es))) a m t)"
    by (simp add: e'_def e compress_node_def split_beta)
  show "wf_edge e'" using assms(1) wild compress_wf(2) [OF wf] unfolding e'
    by (auto simp: e split: if_splits)
  show "ordered_edge e'" using e' compress_ordered(2) [of es] by simp
  show "wilds_edge e' \<le> wilds_edge e" using e e' compress_wilds(2) [OF wf] by simp
  show "set (edge_paths e') = set (edge_paths e)" using e e' compress_paths(2) [of es] by auto
qed

lemma compress_roots_wf: "wf_roots roots \<Longrightarrow> wf_roots (compress_roots roots)"
  using compress_root by (fastforce simp: wf_roots_def compress_roots_def)

lemma compress_roots_ordered: "wf_roots roots \<Longrightarrow> ordered_roots (compress_roots roots)"
  using compress_root by (fastforce simp: wf_roots_def ordered_roots_def compress_roots_def)

lemma compress_holds:
  assumes "wf_roots roots"
  shows "holds_route (compress_roots roots) url l = holds_route roots url l"
  using assms compress_root(4)
  by (fastforce simp: holds_route_def compress_roots_def wf_roots_def split: list.splits option.splits)

text \<open>Compression changes neither the paths of the trie nor their leaves.\<close>

theorem compress_keeps_routes:
  assumes "wf_roots roots"
  shows "holds_route (compress_roots roots) url l = holds_route roots url l"
  by (rule compress_holds [OF assms])

subsection \<open>Insertion makes the shape\<close>

text \<open>The lookup paths \<open>Build\<close> inserts: wildcards and text, no two wildcards next to each other.\<close>

fun clean_url :: "string \<Rightarrow> bool" where
  "clean_url [] \<longleftrightarrow> True"
| "clean_url (c # s) \<longleftrightarrow> (is_wild c \<or> is_text c) \<and> clean_url s \<and>
     (is_wild c \<longrightarrow> s = [] \<or> \<not> is_wild (hd s))"

definition count_wilds :: "string \<Rightarrow> nat" where
  "count_wilds url = length (filter is_wild url)"


lemma wild_children_insert:
  "list_ex wild_edge (Edges (insert_below url l n)) \<longleftrightarrow>
     list_ex wild_edge (Edges n) \<or> (url \<noteq> [] \<and> is_wild (hd url))"
proof (cases url)
  case Nil
  then show ?thesis by (cases l; cases n) simp
next
  case (Cons c rest)
  have wild: "list_ex wild_edge es \<longleftrightarrow> (\<exists>c \<in> (\<lambda>e. hd (Fragment e)) ` set es. is_wild c)" for es
    by (auto simp: list_ex_iff wild_edge_def)
  have "Edges (insert_below url l n) = follow_edge c (insert_below rest l) (Edges n)"
    using Cons by simp
  then show ?thesis unfolding Cons wild by (simp only: follow_edge_hds) auto
qed

lemma wf_follow_edge:
  assumes "\<And>n. wf_node n \<Longrightarrow> wf_edge (BuildEdge [c] n) \<or> Edges n = [] \<Longrightarrow> tidy_node n \<Longrightarrow>
      wf_edge (BuildEdge [c] (f n))"
    and "wf_edges es" and "tidy_edges es"
  shows "wf_edges (follow_edge c f es)"
  using assms(2,3)
proof (induction es)
  case Nil
  show ?case using assms(1) [of new_build_node] by (auto simp: new_build_node_def split: if_splits)
next
  case (Cons e es)
  then obtain b where b: "Fragment e = [b]" by (auto simp: tidy_edge_iff length_Suc_conv)
  obtain n where e: "e = BuildEdge [b] n" using b by (cases e) simp
  show ?case
  proof (cases "b = c")
    case True
    with Cons.prems e assms(1) [of n] show ?thesis by auto
  next
    case False
    with Cons e show ?thesis by (auto simp: follow_edge_hds)
  qed
qed

lemma wf_set_leaf: "wf_node (set_leaf l n) = wf_node n"
  by (cases l; cases n) simp

lemma wf_insert_below:
  "clean_url url \<Longrightarrow> wf_node n \<Longrightarrow> tidy_node n \<Longrightarrow> wf_node (insert_below url l n)"
proof (induction url arbitrary: n)
  case Nil
  then show ?case by (simp add: wf_set_leaf)
next
  case (Cons c url)
  have "wf_edges (follow_edge c (insert_below url l) (Edges n))"
  proof (rule wf_follow_edge)
    fix n' assume n': "wf_node n'" "wf_edge (BuildEdge [c] n') \<or> Edges n' = []" "tidy_node n'"
    then have "wf_node (insert_below url l n')" using Cons by simp
    moreover have "\<not> list_ex wild_edge (Edges (insert_below url l n'))" if "is_wild c"
      using that n' Cons.prems(1) by (auto simp: wild_children_insert)
    ultimately show "wf_edge (BuildEdge [c] (insert_below url l n'))"
      using Cons.prems(1) by auto
  qed (use Cons.prems in \<open>simp_all add: wf_node_iff tidy_node_iff\<close>)
  then show ?case by simp
qed

lemma wilds_follow_edge:
  assumes "\<And>n. wilds_node (f n) \<le> max (wilds_node n) k"
  shows "wilds_edges (follow_edge c f es) \<le> max (wilds_edges es) ((if is_wild c then 1 else 0) + k)"
proof (induction es)
  case Nil
  show ?case using assms [of new_build_node] by (simp add: new_build_node_def)
next
  case (Cons e es)
  show ?case using Cons assms [of "Node e"] by (cases e) auto
qed

lemma wilds_insert_below:
  "wilds_node (insert_below url l n) \<le> max (wilds_node n) (count_wilds url)"
proof (induction url arbitrary: n)
  case Nil
  show ?case by (cases l; cases n) simp
next
  case (Cons c url)
  have "wilds_edges (follow_edge c (insert_below url l) (Edges n)) \<le>
      max (wilds_edges (Edges n)) ((if is_wild c then 1 else 0) + count_wilds url)"
    by (rule wilds_follow_edge) (rule Cons.IH)
  then show ?case by (cases n) (auto simp: count_wilds_def)
qed

lemma wf_insert_route:
  assumes "wf_roots roots" and "tidy_roots roots"
    and "clean_url url" and "count_wilds url \<le> MaxWildcardsPerRoute"
  shows "wf_roots (insert_route roots url l)"
proof (cases url)
  case Nil
  with assms(1) show ?thesis by (simp add: insert_route_def)
next
  case (Cons c rest)
  define e where "e = (case roots c of Some e \<Rightarrow> e | None \<Rightarrow> BuildEdge [c] new_build_node)"
  have e: "Fragment e = [c]" "tidy_node (Node e)" "wf_node (Node e)"
      "wilds_edge e \<le> MaxWildcardsPerRoute" "wf_edge e \<or> Edges (Node e) = []"
    using assms(1,2)
    by (auto simp: e_def wf_roots_def tidy_roots_def tidy_edge_iff new_build_node_def
        MaxWildcardsPerRoute_def split: option.splits) (metis build_edge.exhaust_sel wf_edge.simps)
  have "wf_edge (BuildEdge [c] (insert_below rest l (Node e)))"
    using assms(3) e wf_insert_below [of rest "Node e" l] Cons
    by (cases e) (auto simp: wild_children_insert)
  moreover have "wilds_edge (BuildEdge [c] (insert_below rest l (Node e))) \<le> MaxWildcardsPerRoute"
    using wilds_insert_below [of rest l "Node e"] e(1,4) assms(4) Cons
    by (cases e) (auto simp: count_wilds_def)
  ultimately show ?thesis
    using assms(1) e(1) Cons by (auto simp: wf_roots_def insert_route_def e_def [symmetric])
qed

definition route_key_ok :: "string \<Rightarrow> bool" where
  "route_key_ok url \<longleftrightarrow> clean_url url \<and> count_wilds url \<le> MaxWildcardsPerRoute"

lemma wf_insert_routes:
  assumes "\<forall>(url, l) \<in> set rs. route_key_ok url"
  shows "wf_roots (insert_routes rs)"
proof -
  have "wf_roots (foldl (\<lambda>roots (url, l). insert_route roots url l) roots rs)"
    if "wf_roots roots" "tidy_roots roots" for roots
    using that assms
    by (induction rs arbitrary: roots)
      (auto simp: split_beta route_key_ok_def wf_insert_route tidy_insert_route)
  moreover have "wf_roots no_roots" "tidy_roots no_roots"
    by (simp_all add: wf_roots_def tidy_roots_def no_roots_def)
  ultimately show ?thesis by (simp add: insert_routes_def)
qed

theorem compress_keeps_routes_witness:
  "holds_route (compress_roots (insert_routes [(''ab'', 1, 1, 0)])) ''ab'' (1, 1, 0) =
     holds_route (insert_routes [(''ab'', 1, 1, 0)]) ''ab'' (1, 1, 0)"
  by (rule compress_keeps_routes, rule wf_insert_routes)
    (simp add: route_key_ok_def count_wilds_def is_text_def byte_def is_wild_def Wildcard_def WildcardGreedy_def)

end
