(* ===== verification/Flatten.thy ===== *)
theory Flatten
  imports Compress "HOL-Library.Monad_Syntax"
begin

text \<open>
  \<open>finalize\<close> and \<open>flattenNode\<close> of \<open>internal/rtree/build.go\<close>: the trie is written into the pools of
  the \<open>RouteTree\<close>, children before their parent. A graft is an extra last edge of a node that leads
  to the wildcard edge to fall back to, with the cursor adjustment that undoes what was matched
  since. \<^const>\<open>None\<close> is the code's panic on a graft whose \<open>GraftRollback\<close> would be zero.
\<close>

subsection \<open>Grafts\<close>

record graft =
  g_target :: edge
  g_checkpoint :: int
  g_length :: int

definition graftCheckpointBits :: nat where "graftCheckpointBits = 8"
definition graftCheckpointMask :: int where "graftCheckpointMask = 255"

definition graft_rollback :: "graft \<Rightarrow> int" where
  "graft_rollback g =
     (if g_checkpoint g < 0 then g_length g
      else NOT (g_checkpoint g OR push_bit graftCheckpointBits (g_length g)))"

definition graft_edge :: "graft \<Rightarrow> edge option" where
  "graft_edge g =
     (if graft_rollback g = 0 then None
      else Some ((g_target g)\<lparr>GraftRollback := graft_rollback g\<rparr>))"

definition through :: "string \<Rightarrow> nat \<Rightarrow> graft \<Rightarrow> graft" where
  "through fragment depth g =
     (if 0 \<le> g_checkpoint g then g
      else if is_wild (hd fragment) then g\<lparr>g_checkpoint := int depth - 1\<rparr>
      else g\<lparr>g_length := g_length g + int (length fragment)\<rparr>)"

definition graft_to :: "edge \<Rightarrow> graft" where
  "graft_to e = \<lparr>g_target = e, g_checkpoint = -1, g_length = 0\<rparr>"

definition graft_edges :: "graft option \<Rightarrow> edge list option" where
  "graft_edges fallback =
     (case fallback of None \<Rightarrow> Some [] | Some g \<Rightarrow> map_option (\<lambda>e. [e]) (graft_edge g))"

subsection \<open>\<open>flattenNode\<close>\<close>

definition append_node :: "edge list \<Rightarrow> leaf \<Rightarrow> route_tree \<Rightarrow> route_tree" where
  "append_node edges l t = t\<lparr>
     EdgePool := EdgePool t @ edges,
     NodePool := NodePool t @ [\<lparr>ActionIndex = fst l, EdgeOffset = u16_of (length (EdgePool t)),
       EdgeCount = u16_of (length edges), Methods = fst (snd l), Tags = snd (snd l)\<rparr>]\<rparr>"

text \<open>The clone through which a wildcard leaf with children accepts, and the graft to it.\<close>

definition accept_clone ::
  "char \<Rightarrow> leaf \<Rightarrow> graft option \<Rightarrow> nat \<Rightarrow> route_tree \<Rightarrow> (graft option \<times> route_tree) option" where
  "accept_clone c l ownFallback depth t = do {
     acceptEdges \<leftarrow> graft_edges ownFallback;
     Some (Some \<lparr>g_target = \<lparr>TargetID = length (NodePool t), Offset = byte c - 1, End = byte c,
                   GraftRollback = 0\<rparr>,
                 g_checkpoint = int depth - 1, g_length = 0\<rparr>,
           append_node acceptEdges l t)
   }"

text \<open>The part after the loop: edges, fragment and node are appended, and the edge is returned.\<close>

definition finish_node :: "string \<Rightarrow> leaf \<Rightarrow> edge list \<Rightarrow> route_tree \<Rightarrow> edge \<times> route_tree" where
  "finish_node f l edges t =
     (let t' = append_node edges l t; id = length (NodePool t)
      in if is_wild (hd f)
         then (\<lparr>TargetID = id, Offset = byte (hd f) - 1, End = byte (hd f), GraftRollback = 0\<rparr>, t')
         else (\<lparr>TargetID = id, Offset = length (FragmentPool t),
                 End = length (FragmentPool t) + length f, GraftRollback = 0\<rparr>,
               t'\<lparr>FragmentPool := FragmentPool t @ f\<rparr>))"

text \<open>
  The loop of \<open>flattenNode\<close> runs from the last child to the first, so the tail of the list is done
  first; the second result is \<open>childFallback\<close> as the loop leaves it.
\<close>

fun flatten_edge :: "build_edge \<Rightarrow> graft option \<Rightarrow> nat \<Rightarrow> route_tree \<Rightarrow> (edge \<times> route_tree) option"
and flatten_children ::
  "build_edge list \<Rightarrow> graft option \<Rightarrow> nat \<Rightarrow> route_tree \<Rightarrow> (edge list \<times> graft option \<times> route_tree) option"
where
  "flatten_edge (BuildEdge f (BuildNode es a m tg)) inherited depth t =
     (let own0 = map_option (through f depth) inherited
      in do {
        (ownFallback, t1) \<leftarrow>
          (if is_wild (hd f) \<and> m \<noteq> 0 \<and> es \<noteq> [] then accept_clone (hd f) (a, m, tg) own0 depth t
           else Some (own0, t));
        (edges, _, t2) \<leftarrow> flatten_children es ownFallback depth t1;
        own \<leftarrow> graft_edges ownFallback;
        Some (finish_node f (a, m, tg) (edges @ own) t2)
      })"
| "flatten_children [] childFallback depth t = Some ([], childFallback, t)"
| "flatten_children (child # es) childFallback depth t = do {
     (edges, childFallback', t1) \<leftarrow> flatten_children es childFallback depth t;
     (e, t2) \<leftarrow> flatten_edge child childFallback'
                 (if wild_edge child then depth + 1 else depth) t1;
     Some (e # edges, if wild_edge child then Some (graft_to e) else childFallback', t2)
   }"

definition zero_edge :: edge where
  "zero_edge = \<lparr>TargetID = 0, Offset = 0, End = 0, GraftRollback = 0\<rparr>"

definition zero_node :: route_node where
  "zero_node = \<lparr>ActionIndex = 0, EdgeOffset = 0, EdgeCount = 0, Methods = 0, Tags = 0\<rparr>"

definition all_bytes :: "char list" where
  "all_bytes = map char_of [0..<256::nat]"

fun finalize_roots :: "char list \<Rightarrow> roots \<Rightarrow> graft option \<Rightarrow> route_tree \<Rightarrow> route_tree option" where
  "finalize_roots [] roots fallback t = Some t"
| "finalize_roots (c # cs) roots fallback t =
     (case roots c of
        None \<Rightarrow> finalize_roots cs roots fallback t
      | Some e \<Rightarrow> do {
          (edge, t1) \<leftarrow> flatten_edge e fallback (if wild_edge e then 1 else 0) t;
          finalize_roots cs roots (if wild_edge e then Some (graft_to edge) else fallback)
            (t1\<lparr>EdgePool := (EdgePool t1)[byte c := edge]\<rparr>)
        })"

definition finalize :: "roots \<Rightarrow> route_tree \<Rightarrow> route_tree option" where
  "finalize roots t = finalize_roots all_bytes roots None
     (t\<lparr>NodePool := [zero_node], EdgePool := replicate 256 zero_edge,
        FragmentPool := [WildcardGreedy, Wildcard]\<rparr>)"

subsection \<open>Packing the checkpoint and the length\<close>

lemma pack_graft:
  assumes "0 \<le> cp" and "cp < 256"
  shows "cp OR push_bit graftCheckpointBits (len :: int) = cp + 256 * len"
proof -
  have cp: "take_bit 8 cp = cp" using assms by (simp add: take_bit_int_eq_self_iff)
  have "take_bit 8 cp AND push_bit 8 len = 0"
    by (rule bit_eqI) (auto simp: bit_and_iff bit_push_bit_iff bit_take_bit_iff)
  then have "take_bit 8 cp OR push_bit 8 len = take_bit 8 cp + push_bit 8 len"
    using plus_and_or [of "take_bit 8 cp" "push_bit 8 len"] by simp
  then show ?thesis by (simp add: cp graftCheckpointBits_def push_bit_eq_mult)
qed

text \<open>What \<open>Search\<close> reads back from a packed \<open>GraftRollback\<close>.\<close>

lemma unpack_graft:
  assumes "0 \<le> g_checkpoint g" and "g_checkpoint g < 256" and "0 \<le> g_length g"
  defines "packed \<equiv> NOT (graft_rollback g)"
  shows "graft_rollback g < 0"
    and "packed AND graftCheckpointMask = g_checkpoint g"
    and "drop_bit graftCheckpointBits packed = g_length g"
proof -
  have p: "packed = g_checkpoint g + 256 * g_length g"
    using assms(1,2) by (simp add: packed_def graft_rollback_def pack_graft)
  have "graft_rollback g = - packed - 1" by (simp add: packed_def not_int_def)
  then show "graft_rollback g < 0" using p assms(1,3) by linarith
  have "packed AND graftCheckpointMask = packed AND mask 8"
    by (simp add: graftCheckpointMask_def mask_eq_exp_minus_1)
  also have "\<dots> = packed mod 256" by (simp add: take_bit_eq_mod flip: take_bit_eq_mask)
  also have "\<dots> = g_checkpoint g" unfolding p using assms(1,2) by simp
  finally show "packed AND graftCheckpointMask = g_checkpoint g" .
  show "drop_bit graftCheckpointBits packed = g_length g"
    unfolding p using assms(1,2) by (simp add: graftCheckpointBits_def drop_bit_eq_div)
qed

subsection \<open>The pools only grow\<close>

definition grows :: "route_tree \<Rightarrow> route_tree \<Rightarrow> bool" where
  "grows t t' \<longleftrightarrow>
     prefix (NodePool t) (NodePool t') \<and> prefix (FragmentPool t) (FragmentPool t') \<and>
     prefix (EdgePool t) (EdgePool t') \<and>
     ActionsRegistry t' = ActionsRegistry t \<and> ActionMetadata t' = ActionMetadata t"

lemma grows_refl [simp]: "grows t t"
  by (simp add: grows_def)

lemma grows_trans: "grows t t' \<Longrightarrow> grows t' t'' \<Longrightarrow> grows t t''"
  unfolding grows_def by (auto intro: prefix_order.order_trans)

lemma grows_append_node [simp]: "grows t (append_node edges l t)"
  by (simp add: grows_def append_node_def)

lemma grows_finish_node [simp]: "grows t (snd (finish_node f l edges t))"
  by (simp add: grows_def append_node_def finish_node_def Let_def)

lemma grows_accept_clone: "accept_clone c l own depth t = Some (g, t') \<Longrightarrow> grows t t'"
  by (auto simp: accept_clone_def bind_eq_Some_conv)

text \<open>The intermediate results of \<^const>\<open>flatten_edge\<close>.\<close>

lemma flatten_edgeE:
  assumes "flatten_edge (BuildEdge f (BuildNode es a m tg)) inh d t = Some (e, t')"
  obtains own t1 edges fb t2 own_edges where
    "(if is_wild (hd f) \<and> m \<noteq> 0 \<and> es \<noteq> []
      then accept_clone (hd f) (a, m, tg) (map_option (through f d) inh) d t
      else Some (map_option (through f d) inh, t)) = Some (own, t1)"
    and "flatten_children es own d t1 = Some (edges, fb, t2)"
    and "graft_edges own = Some own_edges"
    and "finish_node f (a, m, tg) (edges @ own_edges) t2 = (e, t')"
  using assms by (auto simp: bind_eq_Some_conv Let_def)

lemma flatten_childrenE:
  assumes "flatten_children (child # es) fb d t = Some (edges, fb', t')"
  obtains edges' fb1 t1 e where
    "flatten_children es fb d t = Some (edges', fb1, t1)"
    and "flatten_edge child fb1 (if wild_edge child then d + 1 else d) t1 = Some (e, t')"
    and "edges = e # edges'" and "fb' = (if wild_edge child then Some (graft_to e) else fb1)"
  using assms by (auto simp: bind_eq_Some_conv)

lemma flatten_grows:
  "flatten_edge be inh d t = Some (e, t') \<Longrightarrow> grows t t'"
  "flatten_children es fb d t = Some (edges, fb', t') \<Longrightarrow> grows t t'"
proof (induction be inh d t and es fb d t arbitrary: e t' and edges fb' t'
    rule: flatten_edge_flatten_children.induct)
  case (1 f es a m tg inherited depth t)
  from "1.prems" obtain own t1 edges fb t2 own' where
    s1: "(if is_wild (hd f) \<and> m \<noteq> 0 \<and> es \<noteq> []
      then accept_clone (hd f) (a, m, tg) (map_option (through f depth) inherited) depth t
      else Some (map_option (through f depth) inherited, t)) = Some (own, t1)"
    and s2: "flatten_children es own depth t1 = Some (edges, fb, t2)"
    and s3: "finish_node f (a, m, tg) (edges @ own') t2 = (e, t')" by (elim flatten_edgeE)
  have "grows t t1" using s1 by (auto split: if_splits intro: grows_accept_clone)
  moreover have "grows t1 t2" by (rule "1.IH" [OF refl s1 refl s2])
  moreover have "grows t2 t'"
    using grows_finish_node [of t2 f "(a, m, tg)" "edges @ own'"] s3 by simp
  ultimately show ?case by (blast intro: grows_trans)
next
  case (3 child es fb depth t)
  from "3.prems" obtain edges' fb1 t1 e where
    s1: "flatten_children es fb depth t = Some (edges', fb1, t1)"
    and s2: "flatten_edge child fb1 (if wild_edge child then depth + 1 else depth) t1 = Some (e, t')"
    by (elim flatten_childrenE)
  show ?case by (rule grows_trans [OF "3.IH"(1) [OF s1] "3.IH"(2) [OF s1 refl refl s2]])
qed simp

text \<open>
  \<open>finalize\<close> also writes the root edges into the first 256 slots: \<open>extends\<close> leaves these open.
\<close>

definition extends :: "route_tree \<Rightarrow> route_tree \<Rightarrow> bool" where
  "extends t t' \<longleftrightarrow>
     prefix (NodePool t) (NodePool t') \<and> prefix (FragmentPool t) (FragmentPool t') \<and>
     length (EdgePool t) \<le> length (EdgePool t') \<and> 256 \<le> length (EdgePool t) \<and>
     (\<forall>k. 256 \<le> k \<longrightarrow> k < length (EdgePool t) \<longrightarrow> EdgePool t' ! k = EdgePool t ! k) \<and>
     ActionsRegistry t' = ActionsRegistry t \<and> ActionMetadata t' = ActionMetadata t"

lemma extends_refl: "256 \<le> length (EdgePool t) \<Longrightarrow> extends t t"
  by (simp add: extends_def)

lemma extends_trans: "extends t t' \<Longrightarrow> extends t' t'' \<Longrightarrow> extends t t''"
  unfolding extends_def by (auto intro: prefix_order.order_trans)

lemma extends_len: "extends t t' \<Longrightarrow> 256 \<le> length (EdgePool t) \<and> 256 \<le> length (EdgePool t')"
  by (simp add: extends_def)

lemma grows_extends: "grows t t' \<Longrightarrow> 256 \<le> length (EdgePool t) \<Longrightarrow> extends t t'"
  by (auto simp: grows_def extends_def prefix_def nth_append)

lemma flatten_extends:
  "flatten_edge be inh d t = Some (e, t') \<Longrightarrow> 256 \<le> length (EdgePool t) \<Longrightarrow> extends t t'"
  by (rule grows_extends [OF flatten_grows(1)])

lemma extends_root_slot:
  assumes "extends t t'"
  shows "extends t (t'\<lparr>EdgePool := (EdgePool t')[byte c := e]\<rparr>)"
proof -
  have "xs[byte c := e] ! k = xs ! k" if "256 \<le> k" for k and xs :: "edge list"
  proof -
    have "byte c \<noteq> k" using that byte_less [of c] by linarith
    then show ?thesis by simp
  qed
  with assms show ?thesis by (simp add: extends_def)
qed

lemma finalize_roots_extends:
  "finalize_roots cs roots fb t = Some t' \<Longrightarrow> 256 \<le> length (EdgePool t) \<Longrightarrow> extends t t'"
proof (induction cs arbitrary: fb t)
  case Nil
  then show ?case by (simp add: extends_refl)
next
  case (Cons c cs)
  show ?case
  proof (cases "roots c")
    case None
    with Cons show ?thesis by simp
  next
    case (Some be)
    then obtain e t1 where s1: "flatten_edge be fb (if wild_edge be then 1 else 0) t = Some (e, t1)"
      and s2: "finalize_roots cs roots (if wild_edge be then Some (graft_to e) else fb)
          (t1\<lparr>EdgePool := (EdgePool t1)[byte c := e]\<rparr>) = Some t'"
      using Cons.prems(1) by (auto simp: bind_eq_Some_conv)
    have e1: "extends t (t1\<lparr>EdgePool := (EdgePool t1)[byte c := e]\<rparr>)"
      by (rule extends_root_slot [OF flatten_extends [OF s1 Cons.prems(2)]])
    moreover have "extends (t1\<lparr>EdgePool := (EdgePool t1)[byte c := e]\<rparr>) t'"
      by (rule Cons.IH [OF s2]) (use extends_len [OF e1] in simp)
    ultimately show ?thesis by (rule extends_trans)
  qed
qed

subsection \<open>No panic\<close>

text \<open>
  A graft that has passed through the fragment of its own node rolls something back: it has a
  checkpoint, or a length that is not zero.
\<close>

definition graft_ready :: "graft option \<Rightarrow> bool" where
  "graft_ready fb \<longleftrightarrow> (\<forall>g. fb = Some g \<longrightarrow> 0 \<le> g_length g \<and> g_checkpoint g < 256 \<and>
     (g_checkpoint g < 0 \<longrightarrow> 0 < g_length g))"

definition graft_sane :: "graft option \<Rightarrow> bool" where
  "graft_sane fb \<longleftrightarrow> (\<forall>g. fb = Some g \<longrightarrow> 0 \<le> g_length g \<and> g_checkpoint g < 256)"

lemma graft_edge_ready:
  assumes "graft_ready (Some g)"
  shows "graft_edge g = Some ((g_target g)\<lparr>GraftRollback := graft_rollback g\<rparr>)"
    and "graft_rollback g \<noteq> 0"
proof -
  show *: "graft_rollback g \<noteq> 0"
  proof (cases "0 \<le> g_checkpoint g")
    case True
    then have "graft_rollback g < 0" using assms by (intro unpack_graft) (auto simp: graft_ready_def)
    then show ?thesis by simp
  next
    case False
    with assms show ?thesis by (simp add: graft_ready_def graft_rollback_def)
  qed
  then show "graft_edge g = Some ((g_target g)\<lparr>GraftRollback := graft_rollback g\<rparr>)"
    by (simp add: graft_edge_def)
qed

lemma graft_edges_ready:
  "graft_ready fb \<Longrightarrow> graft_edges fb =
     Some (case fb of None \<Rightarrow> [] | Some g \<Rightarrow> [(g_target g)\<lparr>GraftRollback := graft_rollback g\<rparr>])"
  by (cases fb) (auto simp: graft_edges_def dest: graft_edge_ready)

lemma through_ready:
  assumes "graft_sane fb" and "f \<noteq> []" and "d \<le> 256" and "is_wild (hd f) \<Longrightarrow> 0 < d"
  shows "graft_ready (map_option (through f d) fb)"
proof (cases fb)
  case (Some g)
  have "0 < int (length f)" using assms(2) by simp
  moreover have "0 \<le> g_length g" "g_checkpoint g < 256"
    using Some assms(1) by (auto simp: graft_sane_def)
  moreover have "is_wild (hd f) \<Longrightarrow> 1 \<le> int d" using assms(4) by linarith
  ultimately have "0 \<le> g_length (through f d g) \<and> g_checkpoint (through f d g) < 256 \<and>
      (g_checkpoint (through f d g) < 0 \<longrightarrow> 0 < g_length (through f d g))"
    using assms(3) by (cases "is_wild (hd f)") (auto simp: through_def intro: add_nonneg_pos)
  with Some show ?thesis by (simp add: graft_ready_def)
qed (simp add: graft_ready_def)

lemma ready_sane: "graft_ready fb \<Longrightarrow> graft_sane fb"
  by (simp add: graft_ready_def graft_sane_def)

lemma graft_sane_to [simp]: "graft_sane (Some (graft_to e))"
  by (simp add: graft_sane_def graft_to_def)

lemma flatten_total:
  "wf_edge be \<Longrightarrow> graft_sane inh \<Longrightarrow> d + wilds_node (Node be) \<le> 256 \<Longrightarrow> (wild_edge be \<Longrightarrow> 0 < d) \<Longrightarrow>
     \<exists>e t'. flatten_edge be inh d t = Some (e, t')"
  "wf_edges es \<Longrightarrow> graft_sane fb \<Longrightarrow> d + wilds_edges es \<le> 256 \<Longrightarrow>
     \<exists>edges fb' t'. flatten_children es fb d t = Some (edges, fb', t') \<and> graft_sane fb'"
proof (induction be inh d t and es fb d t rule: flatten_edge_flatten_children.induct)
  case (1 f es a m tg inh d t)
  let ?own0 = "map_option (through f d) inh"
  have r0: "graft_ready ?own0"
    using "1.prems" by (intro through_ready) (auto simp: wild_edge_def)
  obtain own t1 where s1: "(if is_wild (hd f) \<and> m \<noteq> 0 \<and> es \<noteq> []
      then accept_clone (hd f) (a, m, tg) ?own0 d t else Some (?own0, t)) = Some (own, t1)"
    and r1: "graft_ready own"
    using r0 graft_edges_ready [OF r0] "1.prems"(3,4)
    by (cases "is_wild (hd f) \<and> m \<noteq> 0 \<and> es \<noteq> []")
      (auto simp: accept_clone_def graft_ready_def wild_edge_def)
  obtain edges fb' t2 where "flatten_children es own d t1 = Some (edges, fb', t2)"
    using "1.IH" [OF refl s1 refl] "1.prems" ready_sane [OF r1] by auto
  then show ?case using s1 graft_edges_ready [OF r1] by (auto simp: Let_def)
next
  case (3 child es fb d t)
  obtain edges fb1 t1 where s1: "flatten_children es fb d t = Some (edges, fb1, t1)" "graft_sane fb1"
  proof -
    have "d + wilds_edges es \<le> 256" using "3.prems"(3) by simp
    with "3.IH"(1) "3.prems" show thesis using that by auto
  qed
  have "(if wild_edge child then d + 1 else d) + wilds_node (Node child) \<le> 256"
    using "3.prems" by (cases child) (auto simp: wild_edge_def)
  then obtain e t2 where "flatten_edge child fb1 (if wild_edge child then d + 1 else d) t1 = Some (e, t2)"
    using "3.IH"(2) [OF s1(1) refl refl] s1(2) "3.prems" by force
  with s1 show ?case by auto
qed auto

lemma finalize_roots_total:
  assumes "wf_roots roots" and "graft_sane fb"
  shows "\<exists>t'. finalize_roots cs roots fb t = Some t'"
  using assms(2)
proof (induction cs arbitrary: fb t)
  case (Cons c cs)
  show ?case
  proof (cases "roots c")
    case None
    with Cons show ?thesis by simp
  next
    case (Some be)
    then have "wf_edge be" "wilds_edge be \<le> 32"
      using assms(1) by (auto simp: wf_roots_def MaxWildcardsPerRoute_def)
    then obtain e t1 where "flatten_edge be fb (if wild_edge be then 1 else 0) t = Some (e, t1)"
      using flatten_total(1) [of be fb "if wild_edge be then 1 else 0" t] Cons.prems
      by (cases be) (auto simp: wild_edge_def split: if_splits)
    with Some Cons show ?thesis by simp
  qed
qed simp

lemma finalize_total: "wf_roots roots \<Longrightarrow> \<exists>t'. finalize roots t = Some t'"
  using finalize_roots_total [of roots None] by (auto simp: finalize_def graft_sane_def)

text \<open>\<open>finalize\<close> never hits its panic: no graft edge gets the rollback of a real edge.\<close>

theorem finalize_no_panic:
  assumes "wf_roots roots"
  shows "\<exists>t'. finalize roots t = Some t'"
  by (rule finalize_total [OF assms])

theorem finalize_no_panic_witness:
  "\<exists>t'. finalize (insert_routes [(''a'' @ [Wildcard], 1, 1, 0)])
     \<lparr>FragmentPool = [], ActionsRegistry = [], ActionMetadata = [], NodePool = [], EdgePool = []\<rparr> = Some t'"
  by (rule finalize_no_panic, rule wf_insert_routes)
    (simp add: route_key_ok_def count_wilds_def is_text_def byte_def is_wild_def MaxWildcardsPerRoute_def
      Wildcard_def WildcardGreedy_def)

end
