(* ===== verification/Search.thy ===== *)
theory Search
  imports Flatten
begin

text \<open>
  \<open>RouteTree.Search\<close> of \<open>internal/rtree/search.go\<close>. A \<open>search_state\<close> is what the loop keeps between
  iterations; one iteration is \<open>search_step\<close>, in which \<^const>\<open>None\<close> is a panic (an index or a slice
  out of range); \<open>search_loop\<close> is the loop itself, undefined (\<^const>\<open>None\<close>) where it would not end.
\<close>

record search_state =
  currentEdgeIdx :: nat
  cursor :: int
  cursorCheckpoints :: "int list"
  checkpointIdx :: nat

datatype search_result = Found route_node | NotFound | Panicked

text \<open>\<open>url[cursor:]\<close> and \<open>url[cursor:cursor+n]\<close> of a signed cursor.\<close>

definition url_from :: "string \<Rightarrow> int \<Rightarrow> string option" where
  "url_from url cur = (if 0 \<le> cur then slice url (nat cur) (length url) else None)"

definition url_part :: "string \<Rightarrow> int \<Rightarrow> nat \<Rightarrow> string option" where
  "url_part url cur n = (if 0 \<le> cur then slice url (nat cur) (nat cur + n) else None)"

text \<open>
  The inner switch on \<open>parentFirstChar\<close>: \<^term>\<open>Some (Some c)\<close> is a match that moves the cursor to
  \<open>c\<close>, \<^term>\<open>Some None\<close> no match.
\<close>

definition match_text :: "char \<Rightarrow> string \<Rightarrow> int \<Rightarrow> string \<Rightarrow> int option option" where
  "match_text parentFirstChar url cur childFrag =
     (if parentFirstChar = Wildcard then do {
        rest \<leftarrow> url_from url cur;
        Some (case index_sub rest childFrag of
            None \<Rightarrow> None
          | Some foundIdx \<Rightarrow>
              (case index_sub rest ''/'' of
                 None \<Rightarrow> Some (cur + (int foundIdx + int (length childFrag)))
               | Some slashIdx \<Rightarrow>
                   if foundIdx \<le> slashIdx then Some (cur + (int foundIdx + int (length childFrag)))
                   else None))
      }
      else if parentFirstChar = WildcardGreedy then do {
        rest \<leftarrow> url_from url cur;
        Some (map_option (\<lambda>foundIdx. cur + (int foundIdx + int (length childFrag)))
          (index_sub rest childFrag))
      }
      else if cur + int (length childFrag) \<le> int (length url) then do {
        part \<leftarrow> url_part url cur (length childFrag);
        Some (if part = childFrag then Some (cur + int (length childFrag)) else None)
      }
      else Some None)"

text \<open>A wildcard child is always taken: the case \<open>Wildcard, WildcardGreedy\<close> of the outer switch.\<close>

definition take_wildcard :: "edge \<Rightarrow> nat \<Rightarrow> search_state \<Rightarrow> search_state option" where
  "take_wildcard childEdge childEdgeIdx s = do {
     (cur, cpi) \<leftarrow>
       (if 0 \<le> GraftRollback childEdge then Some (cursor s - GraftRollback childEdge, checkpointIdx s)
        else let packed = NOT (GraftRollback childEdge);
                 cpi = nat (packed AND graftCheckpointMask)
             in do {
               saved \<leftarrow> idx (cursorCheckpoints s) cpi;
               Some (saved - drop_bit graftCheckpointBits packed, cpi)
             });
     _ \<leftarrow> idx (cursorCheckpoints s) cpi;
     Some \<lparr>currentEdgeIdx = childEdgeIdx, cursor = cur,
           cursorCheckpoints = (cursorCheckpoints s)[cpi := cur], checkpointIdx = cpi + 1\<rparr>
   }"

text \<open>The inner loop over the children, by their indices in the edge pool.\<close>

fun scan_children ::
  "route_tree \<Rightarrow> string \<Rightarrow> edge \<Rightarrow> search_state \<Rightarrow> nat list \<Rightarrow> search_state option option" where
  "scan_children t url parent s [] = Some None"
| "scan_children t url parent s (childEdgeIdx # is) = do {
     childEdge \<leftarrow> idx (EdgePool t) childEdgeIdx;
     childFrag \<leftarrow> slice (FragmentPool t) (Offset childEdge) (End childEdge);
     first \<leftarrow> idx (FragmentPool t) (Offset childEdge);
     if is_wild first then map_option Some (take_wildcard childEdge childEdgeIdx s)
     else do {
       parentFirstChar \<leftarrow> idx (FragmentPool t) (Offset parent);
       matched \<leftarrow> match_text parentFirstChar url (cursor s) childFrag;
       case matched of
         Some cur \<Rightarrow> Some (Some (s\<lparr>cursor := cur, currentEdgeIdx := childEdgeIdx\<rparr>))
       | None \<Rightarrow> scan_children t url parent s is
     }
   }"

definition child_indices :: "route_node \<Rightarrow> nat list" where
  "child_indices n = map (\<lambda>i. u16_of (EdgeOffset n + i)) [0..<EdgeCount n]"

definition accepts :: "route_tree \<Rightarrow> string \<Rightarrow> edge \<Rightarrow> route_node \<Rightarrow> int \<Rightarrow> bool option" where
  "accepts t url edge node cur = do {
     first \<leftarrow> idx (FragmentPool t) (Offset edge);
     if is_text first then Some (cur = int (length url) \<and> Methods node \<noteq> 0)
     else if cur < int (length url) \<and> Methods node \<noteq> 0 then
       (if EdgeCount node = 0 then Some True
        else map_option (\<lambda>e. GraftRollback e \<noteq> 0) (idx (EdgePool t) (EdgeOffset node)))
     else Some False
   }"

definition search_step :: "route_tree \<Rightarrow> string \<Rightarrow> search_state \<Rightarrow> (search_result + search_state) option" where
  "search_step t url s = do {
     edge \<leftarrow> idx (EdgePool t) (currentEdgeIdx s);
     node \<leftarrow> idx (NodePool t) (TargetID edge);
     accepted \<leftarrow> accepts t url edge node (cursor s);
     if accepted then Some (Inl (Found node))
     else do {
       matched \<leftarrow> scan_children t url edge s (child_indices node);
       Some (case matched of None \<Rightarrow> Inl NotFound | Some s' \<Rightarrow> Inr s')
     }
   }"

partial_function (option) search_loop ::
  "route_tree \<Rightarrow> string \<Rightarrow> search_state \<Rightarrow> search_result option" where
  "search_loop t url s =
     (case search_step t url s of
        None \<Rightarrow> Some Panicked
      | Some r \<Rightarrow> (case r of Inl result \<Rightarrow> Some result | Inr s' \<Rightarrow> search_loop t url s'))"

definition no_checkpoints :: "int list" where
  "no_checkpoints = replicate MaxWildcardsPerRoute 0"

text \<open>The root edge the search starts on; \<^term>\<open>Some None\<close> when no route can match.\<close>

definition search_start :: "route_tree \<Rightarrow> char \<Rightarrow> search_state option option" where
  "search_start t firstChar = do {
     e \<leftarrow> idx (EdgePool t) (byte firstChar);
     w \<leftarrow> idx (EdgePool t) (byte Wildcard);
     g \<leftarrow> idx (EdgePool t) (byte WildcardGreedy);
     let start = (\<lambda>c cur cpi. Some (Some \<lparr>currentEdgeIdx = byte c, cursor = cur,
                    cursorCheckpoints = no_checkpoints, checkpointIdx = cpi\<rparr>))
     in if TargetID e \<noteq> 0 then start firstChar 1 0
        else if TargetID w \<noteq> 0 then start Wildcard 0 1
        else if TargetID g \<noteq> 0 then start WildcardGreedy 0 1
        else Some None
   }"

definition Search :: "route_tree \<Rightarrow> string \<Rightarrow> search_result option" where
  "Search t url =
     (case url of
        [] \<Rightarrow> Some NotFound
      | c # _ \<Rightarrow>
          (case search_start t c of
             None \<Rightarrow> Some Panicked
           | Some None \<Rightarrow> Some NotFound
           | Some (Some s) \<Rightarrow> search_loop t url s))"

subsection \<open>The specification: search by backtracking on the trie\<close>

text \<open>
  Where the text of a child is looked for from a cursor, and the cursor after it: anywhere in the
  rest below \<open>**\<close>, before the next slash below \<open>*\<close>, and right at the cursor below text.
\<close>

definition child_match :: "char \<Rightarrow> string \<Rightarrow> nat \<Rightarrow> string \<Rightarrow> nat option" where
  "child_match p url cur f =
     (let rest = drop cur url
      in if p = Wildcard then
           (case index_sub rest f of
              Some i \<Rightarrow> if CHR ''/'' \<in> set (take i rest) then None else Some (cur + i + length f)
            | None \<Rightarrow> None)
         else if p = WildcardGreedy then map_option (\<lambda>i. cur + i + length f) (index_sub rest f)
         else if has_prefix rest f then Some (cur + length f) else None)"

text \<open>
  The result of a search from an edge that has just been taken, at a cursor, where \<open>K\<close> is the
  result of what the search falls back to. A text child that matches is taken for good; then come the
  wildcard siblings after it, in order, then the wildcard leaf itself, then the fallback.
\<close>

function spec_edge :: "string \<Rightarrow> build_edge \<Rightarrow> nat \<Rightarrow> leaf option \<Rightarrow> leaf option"
and spec_children :: "string \<Rightarrow> char \<Rightarrow> build_edge list \<Rightarrow> nat \<Rightarrow> leaf option \<Rightarrow> leaf option"
and spec_wild :: "string \<Rightarrow> build_edge list \<Rightarrow> nat \<Rightarrow> leaf option \<Rightarrow> leaf option" where
  "spec_edge url (BuildEdge f (BuildNode es a m tg)) cur K =
     (if is_wild (hd f)
      then spec_children url (hd f) es cur
             (if cur < length url \<and> m \<noteq> 0 then Some (a, m, tg) else K)
      else if cur = length url \<and> m \<noteq> 0 then Some (a, m, tg)
      else spec_children url (hd f) es cur K)"
| "spec_children url p [] cur K = K"
| "spec_children url p (e # es) cur K =
     (if wild_edge e then spec_edge url e cur (spec_wild url es cur K)
      else case child_match p url cur (Fragment e) of
        Some cur' \<Rightarrow> spec_edge url e cur' (spec_wild url es cur K)
      | None \<Rightarrow> spec_children url p es cur K)"
| "spec_wild url [] cur K = K"
| "spec_wild url (e # es) cur K =
     (if wild_edge e then spec_edge url e cur (spec_wild url es cur K)
      else spec_wild url es cur K)"
  by pat_completeness auto
termination
  by (relation "measure (\<lambda>x. case x of Inl (_, e, _) \<Rightarrow> size e
        | Inr (Inl (_, _, es, _)) \<Rightarrow> size_list size es
        | Inr (Inr (_, es, _)) \<Rightarrow> size_list size es)") auto

text \<open>The root byte decides: its literal root first, then \<open>*\<close>, then \<open>**\<close>.\<close>

definition spec_root :: "string \<Rightarrow> roots \<Rightarrow> char \<Rightarrow> nat \<Rightarrow> leaf option \<Rightarrow> leaf option" where
  "spec_root url roots c cur K = (case roots c of None \<Rightarrow> K | Some e \<Rightarrow> spec_edge url e cur K)"

definition spec_search :: "roots \<Rightarrow> string \<Rightarrow> leaf option" where
  "spec_search roots url =
     (if url = [] then None
      else spec_root url roots (hd url) 1
             (spec_root url roots Wildcard 0 (spec_root url roots WildcardGreedy 0 None)))"

end
