(* ===== verification/Search_Refines.thy ===== *)
theory Search_Refines
  imports Search
begin

text \<open>
  \<open>Search\<close> on the pools \<open>finalize\<close> writes gives the result of the backtracking search on the trie. It
  never panics and it ends. The proof follows \<open>flattenNode\<close>: a flattened edge \<open>runs\<close> to the result
  of its trie edge when its graft \<open>cont\<close>inues with the result of the fallback.
\<close>

subsection \<open>What a state of the search leads to\<close>

definition ends :: "route_tree \<Rightarrow> string \<Rightarrow> search_state \<Rightarrow> leaf option \<Rightarrow> bool" where
  "ends t url s L \<longleftrightarrow> (\<exists>r. search_loop t url s = Some r \<and>
     (case r of Found n \<Rightarrow> L = Some (node_leaf n) | NotFound \<Rightarrow> L = None | Panicked \<Rightarrow> False))"

definition scan_ends :: "route_tree \<Rightarrow> string \<Rightarrow> edge \<Rightarrow> search_state \<Rightarrow> nat list \<Rightarrow> leaf option \<Rightarrow> bool" where
  "scan_ends t url parent s is L \<longleftrightarrow> (\<exists>r. scan_children t url parent s is = Some r \<and>
     (case r of None \<Rightarrow> L = None | Some s' \<Rightarrow> ends t url s' L))"

abbreviation state_at :: "nat \<Rightarrow> nat \<Rightarrow> int list \<Rightarrow> nat \<Rightarrow> search_state" where
  "state_at i cur cps d \<equiv>
     \<lparr>currentEdgeIdx = i, cursor = int cur, cursorCheckpoints = cps, checkpointIdx = d\<rparr>"

definition runs :: "route_tree \<Rightarrow> string \<Rightarrow> edge \<Rightarrow> nat \<Rightarrow> int list \<Rightarrow> nat \<Rightarrow> leaf option \<Rightarrow> bool" where
  "runs t url e cur cps d L \<longleftrightarrow> (\<forall>i e'. idx (EdgePool t) i = Some e' \<longrightarrow> TargetID e' = TargetID e \<longrightarrow>
     Offset e' = Offset e \<longrightarrow> ends t url (state_at i cur cps d) L)"

definition has_frag :: "route_tree \<Rightarrow> edge \<Rightarrow> string \<Rightarrow> bool" where
  "has_frag t e f \<longleftrightarrow> slice (FragmentPool t) (Offset e) (End e) = Some f \<and> f \<noteq> []"

text \<open>Following the graft \<open>fb\<close> from a node of wildcard depth \<open>d\<close>, at a cursor, gives \<open>K\<close>.\<close>

definition cont :: "route_tree \<Rightarrow> string \<Rightarrow> graft option \<Rightarrow> int list \<Rightarrow> nat \<Rightarrow> int \<Rightarrow> leaf option \<Rightarrow> bool" where
  "cont t url fb cps d cur K \<longleftrightarrow> (case fb of None \<Rightarrow> K = None | Some g \<Rightarrow>
     0 \<le> g_length g \<and> (\<exists>c. is_wild c \<and> has_frag t (g_target g) [c]) \<and>
     (\<exists>dt c0. dt < 32 \<and> c0 \<le> length url \<and>
        (if g_checkpoint g < 0 then dt = d \<and> int c0 = cur - g_length g
         else dt = nat (g_checkpoint g) \<and> dt < d \<and> int c0 = cps ! dt - g_length g) \<and>
        (\<forall>cps'. length cps' = 32 \<longrightarrow> take dt cps' = take dt cps \<longrightarrow> cps' ! dt = int c0 \<longrightarrow>
           runs t url (g_target g) c0 cps' (dt + 1) K)))"

text \<open>Below a wildcard every fallback has its checkpoint.\<close>

definition settled :: "graft option \<Rightarrow> bool" where
  "settled fb \<longleftrightarrow> (\<forall>g. fb = Some g \<longrightarrow> 0 \<le> g_checkpoint g)"

definition located :: "route_tree \<Rightarrow> nat list \<Rightarrow> edge list \<Rightarrow> bool" where
  "located t is edges \<longleftrightarrow> list_all2 (\<lambda>i e. idx (EdgePool t) i = Some e) is edges"

text \<open>The bound on the pools under which the 16-bit \<open>EdgeOffset\<close> reaches every edge.\<close>

definition fits :: "route_tree \<Rightarrow> bool" where
  "fits t \<longleftrightarrow> length (EdgePool t) \<le> 65536"

definition has_wild_bytes :: "route_tree \<Rightarrow> bool" where
  "has_wild_bytes t \<longleftrightarrow> prefix [WildcardGreedy, Wildcard] (FragmentPool t)"

subsection \<open>Steps\<close>

lemma has_frag_hd: "has_frag t e f \<Longrightarrow> idx (FragmentPool t) (Offset e) = Some (hd f)"
  by (auto simp: has_frag_def slice_def idx_def hd_drop_conv_nth hd_conv_nth split: if_splits)

lemma has_frag_mono:
  assumes "has_frag t e f" and "prefix (FragmentPool t) (FragmentPool t')"
  shows "has_frag t' e f"
  using assms slice_append1 by (auto simp: has_frag_def prefix_def)

lemma ends_step:
  assumes "idx (EdgePool t) i = Some edge" and "idx (NodePool t) (TargetID edge) = Some node"
    and "accepts t url edge node (int cur) = Some acc"
    and "acc \<Longrightarrow> L = Some (node_leaf node)"
    and "\<not> acc \<Longrightarrow> scan_ends t url edge (state_at i cur cps d) (child_indices node) L"
  shows "ends t url (state_at i cur cps d) L"
proof (cases acc)
  case True
  with assms show ?thesis by (simp add: ends_def search_loop.simps [of t] search_step_def)
next
  case False
  then obtain r where r: "scan_children t url edge (state_at i cur cps d) (child_indices node) = Some r"
    "case r of None \<Rightarrow> L = None | Some s' \<Rightarrow> ends t url s' L"
    using assms(5) by (auto simp: scan_ends_def)
  have "search_step t url (state_at i cur cps d) =
      Some (case r of None \<Rightarrow> Inl NotFound | Some s' \<Rightarrow> Inr s')"
    using assms(1-3) False r(1) by (simp add: search_step_def)
  with r(2) show ?thesis by (auto simp: ends_def search_loop.simps [of t] split: option.splits)
qed

lemma match_text_eq:
  assumes "cur \<le> length url"
  shows "match_text p url (int cur) f = Some (map_option int (child_match p url cur f))"
proof -
  have slash: "CHR ''/'' \<in> set (take i rest) \<longleftrightarrow>
      (case index_sub rest ''/'' of None \<Rightarrow> False | Some j \<Rightarrow> j < i)" if "i \<le> length rest" for i rest
    using that
  proof (induction rest arbitrary: i)
    case (Cons x rest)
    then show ?case by (cases i) (auto split: option.splits)
  qed simp
  have bound: "i \<le> length rest" if "index_sub rest f = Some i" for i rest
    using index_sub_Some [OF that] by simp
  show ?thesis
  proof (cases "index_sub (drop cur url) f")
    case None
    with assms show ?thesis
      by (auto simp: match_text_def child_match_def url_from_def url_part_def slice_def has_prefix_def)
  next
    case (Some i)
    with assms slash [OF bound [OF Some]] show ?thesis
      by (auto simp: match_text_def child_match_def url_from_def url_part_def slice_def
          has_prefix_def split: option.splits)
  qed
qed

lemma child_match_bound:
  assumes "child_match p url cur f = Some cur'" and "cur \<le> length url"
  shows "cur' \<le> length url" and "\<not> is_wild p \<Longrightarrow> cur' = cur + length f"
proof -
  have "i + length f \<le> length url - cur" if "index_sub (drop cur url) f = Some i" for i
    using index_sub_Some [OF that] by simp
  moreover have "length f \<le> length url - cur" if "has_prefix (drop cur url) f"
    using that by (metis has_prefix_def length_drop length_take min.cobounded1)
  ultimately show "cur' \<le> length url"
    using assms by (fastforce simp: child_match_def Let_def split: option.splits if_splits)
  show "cur' = cur + length f" if "\<not> is_wild p"
    using that assms by (auto simp: child_match_def is_wild_def split: if_splits)
qed

subsection \<open>Grafts\<close>

lemma cont_stable:
  assumes "cont t url fb cps d cur K" and "take d cps' = take d cps" and "length cps' = length cps"
  shows "cont t url fb cps' d cur K"
proof -
  have "take dt cps' = take dt cps" if "dt \<le> d" for dt
    using assms(2) that by (metis min.absorb1 take_take)
  moreover have "cps' ! dt = cps ! dt" if "dt < d" for dt
    using assms(2) that by (metis nth_take)
  ultimately show ?thesis
    using assms(1) unfolding cont_def
    by (cases fb) (simp, clarsimp, metis order_refl less_imp_le)
qed

lemma cont_settled: "cont t url fb cps d cur K \<Longrightarrow> settled fb \<Longrightarrow> cont t url fb cps d cur' K"
  by (fastforce simp: cont_def settled_def split: option.splits)

lemma cont_through_text:
  assumes "cont t url fb cps d (int cur - int (length f)) K" and "\<not> is_wild (hd f)"
  shows "cont t url (map_option (through f d) fb) cps d (int cur) K"
proof (cases fb)
  case None
  with assms show ?thesis by (simp add: cont_def)
next
  case (Some g)
  show ?thesis
  proof (cases "0 \<le> g_checkpoint g")
    case True
    with assms Some show ?thesis by (simp add: cont_def through_def)
  next
    case False
    with assms Some show ?thesis by (fastforce simp: cont_def through_def)
  qed
qed

lemma cont_through_wild:
  assumes "cont t url fb cps (d - 1) (int cur) K" and "is_wild (hd f)" and "0 < d"
    and "cps ! (d - 1) = int cur"
  shows "cont t url (map_option (through f d) fb) cps d cur' K"
    and "settled (map_option (through f d) fb)"
proof -
  show "settled (map_option (through f d) fb)"
    using assms(2,3) by (cases fb) (auto simp: settled_def through_def)
  have nd: "nat (int d - 1) = d - 1" using assms(3) by simp
  show "cont t url (map_option (through f d) fb) cps d cur' K"
  proof (cases fb)
    case None
    with assms show ?thesis by (simp add: cont_def)
  next
    case (Some g)
    show ?thesis
    proof (cases "0 \<le> g_checkpoint g")
      case True
      with assms Some show ?thesis by (fastforce simp: cont_def through_def)
    next
      case False
      with assms Some nd show ?thesis by (fastforce simp: cont_def through_def)
    qed
  qed
qed

lemma cont_graft_to:
  assumes "is_wild c" and "has_frag t e [c]" and "d < 32" and "cur \<le> length url"
    and "\<And>cps'. length cps' = 32 \<Longrightarrow> take d cps' = take d cps \<Longrightarrow> cps' ! d = int cur \<Longrightarrow>
      runs t url e cur cps' (d + 1) K"
  shows "cont t url (Some (graft_to e)) cps d (int cur) K"
  using assms by (auto simp: cont_def graft_to_def)

lemma take_upd_same: "take d (xs[d := x]) = take d xs"
  by simp

text \<open>The search takes a graft edge and restores the cursor and the checkpoint stack.\<close>

lemma scan_graft:
  assumes "cont t url (Some g) cps d (int cur) K" and "graft_edge g = Some ge"
    and "idx (EdgePool t) gi = Some ge" and "length cps = 32"
  shows "scan_ends t url pe (state_at i cur cps d) (gi # is) K"
proof -
  from assms(1) obtain c dt c0 where c: "is_wild c" "has_frag t (g_target g) [c]"
    and len: "0 \<le> g_length g" and dt: "dt < 32" "c0 \<le> length url"
    and how: "if g_checkpoint g < 0 then dt = d \<and> int c0 = int cur - g_length g
      else dt = nat (g_checkpoint g) \<and> dt < d \<and> int c0 = cps ! dt - g_length g"
    and then_: "\<And>cps'. length cps' = 32 \<Longrightarrow> take dt cps' = take dt cps \<Longrightarrow> cps' ! dt = int c0 \<Longrightarrow>
        runs t url (g_target g) c0 cps' (dt + 1) K"
    by (auto simp: cont_def)
  have ge: "GraftRollback ge = graft_rollback g" "TargetID ge = TargetID (g_target g)"
      "Offset ge = Offset (g_target g)" "End ge = End (g_target g)"
    using assms(2) by (auto simp: graft_edge_def split: if_splits)
  have "take_wildcard ge gi (state_at i cur cps d) = Some (state_at gi c0 (cps[dt := int c0]) (dt + 1))"
  proof (cases "g_checkpoint g < 0")
    case True
    with how len ge(1) dt(1) assms(4) show ?thesis
      by (simp add: take_wildcard_def graft_rollback_def)
  next
    case False
    with how dt(1) have cp: "0 \<le> g_checkpoint g" "g_checkpoint g < 256" by auto
    note unpack = unpack_graft [OF cp len]
    show ?thesis using False how unpack ge(1) dt(1) assms(4)
      by (simp add: take_wildcard_def Let_def)
  qed
  moreover have "ends t url (state_at gi c0 (cps[dt := int c0]) (dt + 1)) K"
    using then_ [of "cps[dt := int c0]"] assms(3,4) dt(1) ge by (simp add: runs_def)
  ultimately show ?thesis
    using c has_frag_hd [OF c(2)] assms(3) ge by (simp add: scan_ends_def has_frag_def)
qed

lemma scan_grafts:
  assumes "cont t url fb cps d (int cur) K" and "graft_edges fb = Some own"
    and "located t is own" and "length cps = 32"
  shows "scan_ends t url pe (state_at i cur cps d) is K"
proof (cases fb)
  case None
  with assms show ?thesis by (auto simp: graft_edges_def located_def scan_ends_def cont_def)
next
  case (Some g)
  then obtain ge gi where "graft_edge g = Some ge" "is = [gi]" "idx (EdgePool t) gi = Some ge"
    using assms(2,3) by (auto simp: graft_edges_def located_def list_all2_Cons2)
  with scan_graft assms(1,4) Some show ?thesis by simp
qed

subsection \<open>Flattened nodes in the final pools\<close>

lemma located_upt:
  assumes "\<forall>j < length es. EdgePool t ! (a + j) = es ! j" and "a + length es \<le> length (EdgePool t)"
  shows "located t [a..<a + length es] es"
  using assms by (auto simp: located_def list_all2_conv_all_nth idx_def)

lemma located_append:
  assumes "located t is (xs @ ys)"
  obtains is1 is2 where "is = is1 @ is2" "located t is1 xs" "located t is2 ys"
  using assms by (auto simp: located_def list_all2_append2)

text \<open>A node appended by \<open>flattenNode\<close> is found in the final pools with its own edges.\<close>

lemma appended_node:
  assumes "extends (append_node edges l t0) t" and "fits t" and "256 \<le> length (EdgePool t0)"
  obtains node where "idx (NodePool t) (length (NodePool t0)) = Some node" and "node_leaf node = l"
    and "located t (child_indices node) edges" and "EdgeCount node = length edges"
    and "edges \<noteq> [] \<Longrightarrow> idx (EdgePool t) (EdgeOffset node) = Some (hd edges)"
proof -
  let ?a = "length (EdgePool t0)" and ?n = "length edges"
  define node where "node = \<lparr>ActionIndex = fst l, EdgeOffset = u16_of ?a, EdgeCount = u16_of ?n,
    Methods = fst (snd l), Tags = snd (snd l)\<rparr>"
  have len: "?a + ?n \<le> length (EdgePool t)" "?a + ?n \<le> 65536"
    using assms(1,2) by (auto simp: extends_def append_node_def fits_def)
  have n: "u16_of ?n = ?n" using len assms(3) by simp
  have off: "u16_of (u16_of ?a + j) = ?a + j" if "j < ?n" for j
    using that len by (simp add: u16_of_def)
  have nth: "EdgePool t ! (?a + j) = edges ! j" if "j < ?n" for j
    using assms(1,3) that by (auto simp: extends_def append_node_def nth_append)
  have "child_indices node = [?a..<?a + ?n]"
    using off n by (intro nth_equalityI) (auto simp: child_indices_def node_def)
  then have "located t (child_indices node) edges"
    using nth len(1) by (simp add: located_upt)
  moreover have "idx (NodePool t) (length (NodePool t0)) = Some node"
    using assms(1) by (auto simp: extends_def append_node_def prefix_def idx_def node_def nth_append)
  moreover have "idx (EdgePool t) (EdgeOffset node) = Some (hd edges)" if "edges \<noteq> []"
    using that off [of 0] nth [of 0] len by (cases edges) (auto simp: idx_def node_def u16_of_def)
  ultimately show thesis using that n by (simp add: node_def node_leaf_def)
qed

lemma node_leafD: "node_leaf n = (a, m, tg) \<Longrightarrow> Methods n = m"
  by (simp add: node_leaf_def)

lemma finish_frag:
  assumes "finish_node f l edges t = (e, t')" and "f \<noteq> []" and "is_wild (hd f) \<Longrightarrow> tl f = []"
    and "has_wild_bytes t"
  shows "has_frag t' e f" and "GraftRollback e = 0" and "TargetID e = length (NodePool t)"
proof -
  show "GraftRollback e = 0" "TargetID e = length (NodePool t)"
    using assms(1) by (auto simp: finish_node_def Let_def split: if_splits)
  show "has_frag t' e f"
  proof (cases "is_wild (hd f)")
    case True
    then have "f = [hd f]" using assms(2,3) by (cases f) auto
    with True assms(1,4) show ?thesis
      by (auto simp: finish_node_def Let_def has_frag_def slice_def append_node_def has_wild_bytes_def
          prefix_def is_wild_def)
  next
    case False
    with assms(1,2) show ?thesis
      by (auto simp: finish_node_def Let_def has_frag_def slice_def append_node_def)
  qed
qed

lemma has_wild_bytes_mono:
  "has_wild_bytes t \<Longrightarrow> prefix (FragmentPool t) (FragmentPool t') \<Longrightarrow> has_wild_bytes t'"
  unfolding has_wild_bytes_def by (rule prefix_order.order_trans)

lemma grows_wild_bytes: "has_wild_bytes t \<Longrightarrow> grows t t' \<Longrightarrow> has_wild_bytes t'"
  by (rule has_wild_bytes_mono) (auto simp: grows_def)

lemma accept_clone_wild_bytes: 
  "accept_clone c l own d t = Some (g, t') \<Longrightarrow> FragmentPool t' = FragmentPool t"
  by (auto simp: accept_clone_def append_node_def bind_eq_Some_conv)

lemma flatten_frag:
  assumes "flatten_edge be inh d t = Some (e, t')" and "wf_edge be" and "has_wild_bytes t"
  shows "has_frag t' e (Fragment be)" and "GraftRollback e = 0"
    and "length (NodePool t) \<le> TargetID e"
proof -
  obtain f es a m tg where be: "be = BuildEdge f (BuildNode es a m tg)"
    by (metis build_edge.exhaust build_node.exhaust)
  from assms(1) [unfolded be] obtain own t1 edges fb t2 own' where
    s1: "(if is_wild (hd f) \<and> m \<noteq> 0 \<and> es \<noteq> []
      then accept_clone (hd f) (a, m, tg) (map_option (through f d) inh) d t
      else Some (map_option (through f d) inh, t)) = Some (own, t1)"
    and s2: "flatten_children es own d t1 = Some (edges, fb, t2)"
    and s3: "finish_node f (a, m, tg) (edges @ own') t2 = (e, t')" by (elim flatten_edgeE)
  have "grows t t1" using s1 by (auto split: if_splits intro: grows_accept_clone)
  then have g: "grows t t2" using flatten_grows(2) [OF s2] by (rule grows_trans)
  then have w: "has_wild_bytes t2" using assms(3) grows_wild_bytes by blast
  show "has_frag t' e (Fragment be)" "GraftRollback e = 0"
    using finish_frag [OF s3 _ _ w] assms(2) be by (auto split: if_splits)
  have "TargetID e = length (NodePool t2)"
    using finish_frag [OF s3 _ _ w] assms(2) be by (auto split: if_splits)
  with g show "length (NodePool t) \<le> TargetID e" by (auto simp: grows_def dest: prefix_length_le)
qed

lemma flatten_children_real:
  assumes "flatten_children es fb d t = Some (edges, fb', t')" and "wf_edges es" and "has_wild_bytes t"
  shows "length edges = length es" and "\<forall>e \<in> set edges. GraftRollback e = 0"
proof -
  have "length edges = length es \<and> (\<forall>e \<in> set edges. GraftRollback e = 0)"
    using assms
  proof (induction es arbitrary: edges fb' t')
    case (Cons child es)
    from Cons.prems(1) obtain edges' fb1 t1 e where
      s1: "flatten_children es fb d t = Some (edges', fb1, t1)"
      and s2: "flatten_edge child fb1 (if wild_edge child then d + 1 else d) t1 = Some (e, t')"
      and e: "edges = e # edges'" by (elim flatten_childrenE)
    have "has_wild_bytes t1" using flatten_grows(2) [OF s1] Cons.prems(3) by (rule grows_wild_bytes [rotated])
    with flatten_frag(2) [OF s2] Cons.prems(2) have "GraftRollback e = 0" by simp
    with Cons.IH [OF s1] Cons.prems e show ?case by simp
  qed simp
  then show "length edges = length es" "\<forall>e \<in> set edges. GraftRollback e = 0" by auto
qed

end
