(* ===== verification/Search_Correct.thy ===== *)
theory Search_Correct
  imports Search_Refines
begin

text \<open>
  The induction over \<open>flattenNode\<close> and the result for the whole tree: \<open>Search\<close> refines
  \<^const>\<open>spec_search\<close>.
\<close>

lemma graft_edges_nonzero: "graft_edges fb = Some own \<Longrightarrow> e \<in> set own \<Longrightarrow> GraftRollback e \<noteq> 0"
  by (auto simp: graft_edges_def graft_edge_def split: option.splits if_splits)

lemma accepts_wild:
  assumes "idx (FragmentPool t) (Offset e) = Some c" and "is_wild c"
    and "EdgeCount node = length edges"
    and "edges \<noteq> [] \<Longrightarrow> idx (EdgePool t) (EdgeOffset node) = Some (hd edges)"
  shows "accepts t url e node (int cur) = Some (cur < length url \<and> Methods node \<noteq> 0 \<and>
    (edges = [] \<or> GraftRollback (hd edges) \<noteq> 0))"
  using assms by (cases edges) (auto simp: accepts_def)

lemma accepts_text:
  assumes "idx (FragmentPool t) (Offset e) = Some c" and "is_text c"
  shows "accepts t url e node (int cur) = Some (cur = length url \<and> Methods node \<noteq> 0)"
  using assms by (simp add: accepts_def)

lemma take_pred_eq:
  assumes "take (d - 1) xs = take (d - 1) ys" and "xs ! (d - 1) = ys ! (d - 1)" and "0 < d"
    and "d \<le> length xs" and "d \<le> length ys"
  shows "take d xs = take d ys"
proof -
  obtain k where "d = Suc k" using assms(3) by (cases d) auto
  with assms show ?thesis by (simp add: take_Suc_conv_app_nth)
qed

lemma cont_checkpoint:
  assumes "is_wild c" and "has_frag t e [c]" and "dt < 32" and "dt < d" and "c0 \<le> length url"
    and "int c0 = cps ! dt"
    and "\<And>cps'. length cps' = 32 \<Longrightarrow> take dt cps' = take dt cps \<Longrightarrow> cps' ! dt = int c0 \<Longrightarrow>
      runs t url e c0 cps' (dt + 1) K"
  shows "cont t url (Some \<lparr>g_target = e, g_checkpoint = int dt, g_length = 0\<rparr>) cps d x K"
proof -
  have "\<exists>c. is_wild c \<and> has_frag t e [c]" using assms(1,2) by blast
  then show ?thesis
    using assms(3-) unfolding cont_def
    by simp (intro exI [of _ dt] conjI exI [of _ c0]; simp)
qed

subsection \<open>The accept clone\<close>

lemma clone_cont:
  assumes clone: "accept_clone c (a, m, tg) own0 d t0 = Some (own, t1)" and c: "is_wild c"
    and d: "0 < d" "d \<le> 32" and m: "m \<noteq> 0"
    and cps: "length cps = 32" "cps ! (d - 1) = int cur" and cur: "cur \<le> length url"
    and t: "extends t1 t" "fits t" "256 \<le> length (EdgePool t0)" "has_wild_bytes t"
    and own0: "settled own0" "cont t url own0 cps d (int cur) K"
  shows "cont t url own cps d x (if cur < length url then Some (a, m, tg) else K)"
    and "settled own"
proof -
  from clone obtain ae where ae: "graft_edges own0 = Some ae" and t1: "t1 = append_node ae (a, m, tg) t0"
    and own: "own = Some \<lparr>g_target = \<lparr>TargetID = length (NodePool t0), Offset = byte c - 1,
        End = byte c, GraftRollback = 0\<rparr>, g_checkpoint = int d - 1, g_length = 0\<rparr>"
    by (auto simp: accept_clone_def bind_eq_Some_conv)
  show "settled own" using own d by (simp add: settled_def)
  define e where "e = \<lparr>TargetID = length (NodePool t0), Offset = byte c - 1, End = byte c,
    GraftRollback = 0\<rparr>"
  have frag: "has_frag t e [c]" using t(4) c
    by (auto simp: e_def has_frag_def slice_def has_wild_bytes_def prefix_def is_wild_def)
  obtain node where node: "idx (NodePool t) (length (NodePool t0)) = Some node"
      "node_leaf node = (a, m, tg)" "located t (child_indices node) ae" "EdgeCount node = length ae"
      "ae \<noteq> [] \<Longrightarrow> idx (EdgePool t) (EdgeOffset node) = Some (hd ae)"
    using appended_node [OF t(1) [unfolded t1] t(2,3)] by blast
  define L where "L = (if cur < length url then Some (a, m, tg) else K)"
  have "runs t url e cur cps' d L"
    if cps': "length cps' = 32" "take (d - 1) cps' = take (d - 1) cps" "cps' ! (d - 1) = int cur" for cps'
    unfolding runs_def
  proof (intro allI impI)
    fix i e'
    assume e': "idx (EdgePool t) i = Some e'" "TargetID e' = TargetID e" "Offset e' = Offset e"
    have first: "idx (FragmentPool t) (Offset e') = Some c" using has_frag_hd [OF frag] e'(3) by simp
    have n: "idx (NodePool t) (TargetID e') = Some node" using e'(2) node(1) by (simp add: e_def)
    have "ae \<noteq> [] \<Longrightarrow> GraftRollback (hd ae) \<noteq> 0" using graft_edges_nonzero [OF ae] by simp
    then have acc: "accepts t url e' node (int cur) = Some (cur < length url)"
      using accepts_wild [OF first c node(4,5)] node_leafD [OF node(2)] m by auto
    have tk: "take d cps' = take d cps"
      using take_pred_eq [of d cps' cps] cps cps' d by simp
    have "cont t url own0 cps' d (int cur) K"
      by (rule cont_stable [OF own0(2) tk]) (simp only: cps(1) cps'(1))
    then have scan: "scan_ends t url e' (state_at i cur cps' d) (child_indices node) K"
      using ae node(3) cps'(1) by (rule scan_grafts)
    show "ends t url (state_at i cur cps' d) L"
      using node(2) scan by (intro ends_step [OF e'(1) n acc]) (simp_all add: L_def)
  qed
  then have "cont t url (Some \<lparr>g_target = e, g_checkpoint = int (d - 1), g_length = 0\<rparr>) cps d x L"
    using d cps(2) cur c frag by (intro cont_checkpoint [where c = c and dt = "d - 1"]) simp_all
  then show "cont t url own cps d x (if cur < length url then Some (a, m, tg) else K)"
    using own d by (simp add: e_def L_def of_nat_diff)
qed

subsection \<open>One scan step\<close>

lemma scan_wild:
  assumes "idx (EdgePool t) i1 = Some e" and "has_frag t e f" and "is_wild (hd f)"
    and "GraftRollback e = 0" and "d < 32" and "length cps = 32"
    and "runs t url e cur (cps[d := int cur]) (d + 1) L"
  shows "scan_ends t url pe (state_at i cur cps d) (i1 # is) L"
proof -
  have "take_wildcard e i1 (state_at i cur cps d) = Some (state_at i1 cur (cps[d := int cur]) (d + 1))"
    using assms(4-6) by (simp add: take_wildcard_def)
  moreover have "ends t url (state_at i1 cur (cps[d := int cur]) (d + 1)) L"
    using assms(1,7) unfolding runs_def by blast
  ultimately show ?thesis
    using assms(1-3) has_frag_hd [OF assms(2)] by (simp add: scan_ends_def has_frag_def)
qed

lemma scan_text:
  assumes "idx (EdgePool t) i1 = Some e" and "has_frag t e f" and "\<not> is_wild (hd f)"
    and "idx (FragmentPool t) (Offset pe) = Some p" and "cur \<le> length url"
    and "\<And>cur'. child_match p url cur f = Some cur' \<Longrightarrow> runs t url e cur' cps d L"
    and "child_match p url cur f = None \<Longrightarrow> scan_ends t url pe (state_at i cur cps d) is L"
  shows "scan_ends t url pe (state_at i cur cps d) (i1 # is) L"
proof (cases "child_match p url cur f")
  case None
  with assms has_frag_hd [OF assms(2)] show ?thesis
    by (simp add: scan_ends_def has_frag_def match_text_eq)
next
  case (Some cur')
  have "ends t url (state_at i1 cur' cps d) L"
    using assms(1) assms(6) [OF Some] unfolding runs_def by blast
  with Some assms(1-5) has_frag_hd [OF assms(2)] show ?thesis
    by (simp add: scan_ends_def has_frag_def match_text_eq)
qed

lemma flatten_children_same_fb:
  "flatten_children es fb d t = Some (edges, fb', t') \<Longrightarrow> \<not> list_ex wild_edge es \<Longrightarrow> fb' = fb"
  by (induction es arbitrary: edges fb' t') (auto elim!: flatten_childrenE simp del: flatten_children.simps(2))

lemma finish_append: "finish_node f l edges t = (e, t') \<Longrightarrow> grows (append_node edges l t) t'"
  by (auto simp: finish_node_def append_node_def Let_def grows_def split: if_splits)

lemma grows_then_extends:
  "grows t t' \<Longrightarrow> extends t' t'' \<Longrightarrow> 256 \<le> length (EdgePool t) \<Longrightarrow> extends t t''"
  by (blast intro: extends_trans grows_extends)

lemma grows_len: "grows t t' \<Longrightarrow> n \<le> length (EdgePool t) \<Longrightarrow> n \<le> length (EdgePool t')"
  by (auto simp: grows_def dest: prefix_length_le)

lemma wf_wild_Fragment: "wf_edge e \<Longrightarrow> wild_edge e \<Longrightarrow> Fragment e = [hd (Fragment e)]"
  by (cases e) (metis build_edge.sel(1) hd_Cons_tl wf_edge.simps wild_edge_def)

lemma wild_wilds_node: "wild_edge e \<Longrightarrow> wilds_edge e = Suc (wilds_node (Node e))"
  by (cases e) (simp add: wild_edge_def)

lemma text_wilds_node: "\<not> wild_edge e \<Longrightarrow> wilds_edge e = wilds_node (Node e)"
  by (cases e) (simp add: wild_edge_def)

text \<open>One child of the loop, given the result for the children after it.\<close>

definition child_runs :: "route_tree \<Rightarrow> string \<Rightarrow> build_edge \<Rightarrow> edge \<Rightarrow> graft option \<Rightarrow> nat \<Rightarrow> bool" where
  "child_runs t url be e inh d \<longleftrightarrow> (\<forall>cps cur K. length cps = 32 \<longrightarrow> cur \<le> length url \<longrightarrow>
     (wild_edge be \<longrightarrow> 0 < d \<and> cps ! (d - 1) = int cur) \<longrightarrow>
     cont t url inh cps (if wild_edge be then d - 1 else d)
       (if wild_edge be then int cur else int cur - int (length (Fragment be))) K \<longrightarrow>
     runs t url e cur cps d (spec_edge url be cur K))"

definition children_run ::
  "route_tree \<Rightarrow> string \<Rightarrow> build_edge list \<Rightarrow> edge list \<Rightarrow> graft option \<Rightarrow> graft option \<Rightarrow> nat \<Rightarrow> bool" where
  "children_run t url es edges fb fb' d \<longleftrightarrow> (\<forall>cps cur K. length cps = 32 \<longrightarrow> cur \<le> length url \<longrightarrow>
     cont t url fb cps d (int cur) K \<longrightarrow>
     cont t url fb' cps d (int cur) (spec_wild url es cur K) \<and>
     (\<forall>p pe is rest i. (is_wild p \<longrightarrow> settled fb \<and> \<not> list_ex wild_edge es) \<longrightarrow>
        idx (FragmentPool t) (Offset pe) = Some p \<longrightarrow> located t is edges \<longrightarrow>
        scan_ends t url pe (state_at i cur cps d) rest K \<longrightarrow>
        scan_ends t url pe (state_at i cur cps d) (is @ rest) (spec_children url p es cur K)))"

lemma children_run_Nil: "children_run t url [] [] fb fb d"
  by (simp add: children_run_def located_def)

lemma child_runsD:
  assumes "child_runs t url be e inh d" and "length cps = 32" and "cur \<le> length url"
    and "wild_edge be \<Longrightarrow> 0 < d \<and> cps ! (d - 1) = int cur"
    and "cont t url inh cps (if wild_edge be then d - 1 else d)
       (if wild_edge be then int cur else int cur - int (length (Fragment be))) K"
  shows "runs t url e cur cps d (spec_edge url be cur K)"
  using assms unfolding child_runs_def by blast

lemma children_run_wild:
  assumes child: "child_runs t url be e fb' (d + 1)" and rest: "children_run t url es edges fb fb' d"
    and be: "wild_edge be" "wf_edge be" "has_frag t e (Fragment be)" "GraftRollback e = 0" and d: "d < 32"
  shows "children_run t url (be # es) (e # edges) fb (Some (graft_to e)) d"
  unfolding children_run_def
proof (intro allI impI)
  fix cps cur K
  assume cps: "length cps = 32" and cur: "cur \<le> length url" and K: "cont t url fb cps d (int cur) K"
  let ?Kw = "spec_wild url es cur K"
  have fb': "cont t url fb' cps d (int cur) ?Kw" using rest cps cur K unfolding children_run_def by blast
  have run: "runs t url e cur cps' (d + 1) (spec_edge url be cur ?Kw)"
    if "length cps' = 32" "take d cps' = take d cps" "cps' ! d = int cur" for cps'
    using child that(1) cur
  proof (rule child_runsD)
    show "0 < d + 1 \<and> cps' ! (d + 1 - 1) = int cur" using that(3) by simp
    have "cont t url fb' cps' d (int cur) ?Kw"
      by (rule cont_stable [OF fb' that(2)]) (simp only: cps that(1))
    then show "cont t url fb' cps' (if wild_edge be then d + 1 - 1 else d + 1)
       (if wild_edge be then int cur else int cur - int (length (Fragment be))) ?Kw"
      using be(1) by simp
  qed
  have w: "is_wild (hd (Fragment be))" using be(1) by (simp add: wild_edge_def)
  have frag: "has_frag t e [hd (Fragment be)]" using be(3) wf_wild_Fragment [OF be(2,1)] by simp
  have "cont t url (Some (graft_to e)) cps d (int cur) (spec_edge url be cur ?Kw)"
    by (rule cont_graft_to [OF w frag d cur run])
  moreover have "scan_ends t url pe (state_at i cur cps d) (is @ rest) (spec_children url p (be # es) cur K)"
    if loc: "located t is (e # edges)" for pe "is" rest i p
  proof -
    from loc obtain i1 is' where "is = i1 # is'" "idx (EdgePool t) i1 = Some e"
      by (auto simp: located_def list_all2_Cons2)
    moreover have "runs t url e cur (cps[d := int cur]) (d + 1) (spec_edge url be cur ?Kw)"
      using cps d by (intro run) simp_all
    ultimately show ?thesis
      using scan_wild [OF _ be(3) w be(4) d cps, of i1 url cur _ pe i "is' @ rest"] be(1) by simp
  qed
  ultimately show "cont t url (Some (graft_to e)) cps d (int cur) (spec_wild url (be # es) cur K) \<and>
     (\<forall>p pe is rest i. (is_wild p \<longrightarrow> settled fb \<and> \<not> list_ex wild_edge (be # es)) \<longrightarrow>
        idx (FragmentPool t) (Offset pe) = Some p \<longrightarrow> located t is (e # edges) \<longrightarrow>
        scan_ends t url pe (state_at i cur cps d) rest K \<longrightarrow>
        scan_ends t url pe (state_at i cur cps d) (is @ rest) (spec_children url p (be # es) cur K))"
    using be(1) by simp
qed

lemma children_run_text:
  assumes child: "child_runs t url be e fb' d" and rest: "children_run t url es edges fb fb' d"
    and be: "\<not> wild_edge be" "has_frag t e (Fragment be)"
    and same: "\<not> list_ex wild_edge es \<Longrightarrow> fb' = fb"
  shows "children_run t url (be # es) (e # edges) fb fb' d"
  unfolding children_run_def
proof (intro allI impI conjI)
  fix cps cur K
  assume cps: "length cps = 32" and cur: "cur \<le> length url" and K: "cont t url fb cps d (int cur) K"
  let ?Kw = "spec_wild url es cur K"
  show fb': "cont t url fb' cps d (int cur) (spec_wild url (be # es) cur K)"
    using rest cps cur K be(1) unfolding children_run_def by simp
  fix p pe "is" tl_is and i
  assume p: "is_wild p \<longrightarrow> settled fb \<and> \<not> list_ex wild_edge (be # es)"
    and pe: "idx (FragmentPool t) (Offset pe) = Some p" and loc: "located t is (e # edges)"
    and tl: "scan_ends t url pe (state_at i cur cps d) tl_is K"
  from loc obtain i1 is' where i1: "is = i1 # is'" "idx (EdgePool t) i1 = Some e" "located t is' edges"
    by (auto simp: located_def list_all2_Cons2)
  have w: "\<not> is_wild (hd (Fragment be))" using be(1) by (simp add: wild_edge_def)
  have "scan_ends t url pe (state_at i cur cps d) (i1 # is' @ tl_is) (spec_children url p (be # es) cur K)"
    using i1(2) be(2) w pe cur
  proof (rule scan_text)
    fix cur' assume m: "child_match p url cur (Fragment be) = Some cur'"
    have "cont t url fb' cps d (int cur' - int (length (Fragment be))) ?Kw"
    proof (cases "is_wild p")
      case True
      then have "settled fb'" using p same by simp
      with fb' be(1) show ?thesis by (auto intro: cont_settled)
    next
      case False
      with child_match_bound(2) [OF m cur] fb' be(1) show ?thesis by simp
    qed
    then have "runs t url e cur' cps d (spec_edge url be cur' ?Kw)"
      using child_runsD [OF child cps child_match_bound(1) [OF m cur]] be(1) by simp
    then show "runs t url e cur' cps d (spec_children url p (be # es) cur K)" using be(1) m by simp
  next
    assume "child_match p url cur (Fragment be) = None"
    moreover have "scan_ends t url pe (state_at i cur cps d) (is' @ tl_is) (spec_children url p es cur K)"
      using rest cps cur K p pe i1(3) tl unfolding children_run_def by simp
    ultimately show "scan_ends t url pe (state_at i cur cps d) (is' @ tl_is)
        (spec_children url p (be # es) cur K)" using be(1) by simp
  qed
  then show "scan_ends t url pe (state_at i cur cps d) (is @ tl_is) (spec_children url p (be # es) cur K)"
    using i1(1) by simp
qed

subsection \<open>The induction\<close>

text \<open>A node whose children run with the fallback the flattening gave it.\<close>

lemma node_runs:
  assumes fin: "finish_node f (a, m, tg) (edges @ own_edges) t2 = (e, t1)"
    and t: "extends t1 t" "fits t" "256 \<le> length (EdgePool t2)" "has_frag t e f"
    and tid: "TargetID e = length (NodePool t2)"
    and f: "is_wild (hd f) \<or> is_text (hd f)"
    and own: "graft_edges own = Some own_edges" "cont t url own cps d (int cur) L"
    and L: "L = (if is_wild (hd f) \<and> m \<noteq> 0 \<and> es \<noteq> [] then if cur < length url then Some (a, m, tg) else K else K)"
    and real: "length edges = length es" "\<forall>e \<in> set edges. GraftRollback e = 0"
    and kids: "children_run t url es edges own fb d" and wild: "is_wild (hd f) \<longrightarrow> settled own \<and> \<not> list_ex wild_edge es"
    and cps: "length cps = 32" and cur: "cur \<le> length url"
  shows "runs t url e cur cps d (spec_edge url (BuildEdge f (BuildNode es a m tg)) cur K)"
  unfolding runs_def
proof (intro allI impI)
  fix i e'
  assume e': "idx (EdgePool t) i = Some e'" "TargetID e' = TargetID e" "Offset e' = Offset e"
  have ext: "extends (append_node (edges @ own_edges) (a, m, tg) t2) t"
    by (rule grows_then_extends [OF finish_append [OF fin] t(1)])
      (use t(3) in \<open>simp add: append_node_def\<close>)
  obtain node where node: "idx (NodePool t) (length (NodePool t2)) = Some node"
      "node_leaf node = (a, m, tg)" "located t (child_indices node) (edges @ own_edges)"
      "EdgeCount node = length (edges @ own_edges)"
      "edges @ own_edges \<noteq> [] \<Longrightarrow> idx (EdgePool t) (EdgeOffset node) = Some (hd (edges @ own_edges))"
    using appended_node [OF ext t(2,3)] by blast
  have n: "idx (NodePool t) (TargetID e') = Some node" using e'(2) tid node(1) by simp
  have first: "idx (FragmentPool t) (Offset e') = Some (hd f)" using has_frag_hd [OF t(4)] e'(3) by simp
  from node(3) obtain is1 is2 where is12: "child_indices node = is1 @ is2" "located t is1 edges"
      "located t is2 own_edges" by (rule located_append)
  have "scan_ends t url e' (state_at i cur cps d) is2 L"
    by (rule scan_grafts [OF own(2,1) is12(3) cps])
  then have scan: "scan_ends t url e' (state_at i cur cps d) (child_indices node)
      (spec_children url (hd f) es cur L)"
    using kids cps cur own(2) first is12 wild unfolding children_run_def by simp
  have m: "Methods node = m" using node_leafD [OF node(2)] .
  show "ends t url (state_at i cur cps d) (spec_edge url (BuildEdge f (BuildNode es a m tg)) cur K)"
  proof (cases "is_wild (hd f)")
    case True
    have h: "edges @ own_edges = [] \<or> GraftRollback (hd (edges @ own_edges)) \<noteq> 0 \<longleftrightarrow> es = []"
      using real graft_edges_nonzero [OF own(1)] by (cases edges; cases own_edges) auto
    have acc: "accepts t url e' node (int cur) = Some (cur < length url \<and> m \<noteq> 0 \<and> es = [])"
      using accepts_wild [OF first True node(4,5)] h m by auto
    show ?thesis
      using scan L True node(2) by (intro ends_step [OF e'(1) n acc]) (auto split: if_splits)
  next
    case False
    then have acc: "accepts t url e' node (int cur) = Some (cur = length url \<and> m \<noteq> 0)"
      using accepts_text [OF first] f m by simp
    show ?thesis
      using scan L False node(2) by (intro ends_step [OF e'(1) n acc]) (auto split: if_splits)
  qed
qed

lemma flatten_runs:
  "flatten_edge be inh d t0 = Some (e, t1) \<Longrightarrow> wf_edge be \<Longrightarrow> extends t1 t \<Longrightarrow> fits t \<Longrightarrow>
     has_wild_bytes t0 \<Longrightarrow> 256 \<le> length (EdgePool t0) \<Longrightarrow> d + wilds_node (Node be) \<le> 32 \<Longrightarrow>
     child_runs t url be e inh d"
  "flatten_children es fb d t0 = Some (edges, fb', t1) \<Longrightarrow> wf_edges es \<Longrightarrow> extends t1 t \<Longrightarrow> fits t \<Longrightarrow>
     has_wild_bytes t0 \<Longrightarrow> 256 \<le> length (EdgePool t0) \<Longrightarrow> d + wilds_edges es \<le> 32 \<Longrightarrow>
     children_run t url es edges fb fb' d"
proof (induction be inh d t0 and es fb d t0 arbitrary: e t1 and edges fb' t1
    rule: flatten_edge_flatten_children.induct)
  case (1 f es a m tg inh d t0)
  let ?own0 = "map_option (through f d) inh"
  from "1.prems"(1) obtain own u edges fb u2 own_edges where
    s1: "(if is_wild (hd f) \<and> m \<noteq> 0 \<and> es \<noteq> []
      then accept_clone (hd f) (a, m, tg) ?own0 d t0 else Some (?own0, t0)) = Some (own, u)"
    and s2: "flatten_children es own d u = Some (edges, fb, u2)"
    and s3: "graft_edges own = Some own_edges"
    and s4: "finish_node f (a, m, tg) (edges @ own_edges) u2 = (e, t1)" by (elim flatten_edgeE)
  have g1: "grows t0 u" using s1 by (auto split: if_splits intro: grows_accept_clone)
  have g2: "grows u u2" by (rule flatten_grows(2) [OF s2])
  have g3: "grows u2 t1" using grows_finish_node [of u2 f "(a, m, tg)"] s4 by (metis snd_conv)
  have len: "256 \<le> length (EdgePool u)" "256 \<le> length (EdgePool u2)"
    using grows_len g1 g2 "1.prems"(6) by blast+
  have x2: "extends u2 t" by (rule grows_then_extends [OF g3 "1.prems"(3) len(2)])
  have xu: "extends u t" by (rule grows_then_extends [OF g2 x2 len(1)])
  have wu: "has_wild_bytes u" and wu2: "has_wild_bytes u2"
    using grows_wild_bytes "1.prems"(5) g1 g2 by blast+
  have wt: "has_wild_bytes t" using wu xu by (auto simp: extends_def elim: has_wild_bytes_mono)
  have f: "f \<noteq> []" "is_wild (hd f) \<Longrightarrow> tl f = []" "is_wild (hd f) \<or> is_text (hd f)"
      "is_wild (hd f) \<Longrightarrow> \<not> list_ex wild_edge es" "wf_edges es"
    using "1.prems"(2) by (auto split: if_splits)
  note fin = finish_frag [OF s4 f(1,2) wu2]
  have frag: "has_frag t e f" using has_frag_mono [OF fin(1)] "1.prems"(3) by (simp add: extends_def)
  have kids: "children_run t url es edges own fb d"
    using "1.IH" [OF refl s1 refl s2 f(5) x2 "1.prems"(4) wu len(1)] "1.prems"(7) by simp
  note real = flatten_children_real [OF s2 f(5) wu]
  show ?case unfolding child_runs_def
  proof (intro allI impI)
    fix cps cur K
    assume cps: "length cps = 32" and cur: "cur \<le> length url"
      and wild: "wild_edge (BuildEdge f (BuildNode es a m tg)) \<longrightarrow> 0 < d \<and> cps ! (d - 1) = int cur"
      and inh: "cont t url inh cps (if wild_edge (BuildEdge f (BuildNode es a m tg)) then d - 1 else d)
       (if wild_edge (BuildEdge f (BuildNode es a m tg)) then int cur
        else int cur - int (length (Fragment (BuildEdge f (BuildNode es a m tg))))) K"
    have c0: "cont t url ?own0 cps d (int cur) K"
      using inh wild cont_through_wild(1) [of t url inh cps d cur K f]
        cont_through_text [of t url inh cps d cur f K]
      by (cases "is_wild (hd f)") (auto simp: wild_edge_def)
    have st0: "is_wild (hd f) \<Longrightarrow> settled ?own0"
      using inh wild cont_through_wild(2) [of t url inh cps d cur K f] by (auto simp: wild_edge_def)
    define L where "L = (if is_wild (hd f) \<and> m \<noteq> 0 \<and> es \<noteq> []
      then if cur < length url then Some (a, m, tg) else K else K)"
    have own: "cont t url own cps d (int cur) L \<and> (is_wild (hd f) \<longrightarrow> settled own)"
    proof (cases "is_wild (hd f) \<and> m \<noteq> 0 \<and> es \<noteq> []")
      case True
      then have s: "accept_clone (hd f) (a, m, tg) ?own0 d t0 = Some (own, u)" using s1 by simp
      have d: "0 < d" "cps ! (d - 1) = int cur" "d \<le> 32"
        using wild True "1.prems"(7) by (auto simp: wild_edge_def)
      note cl = clone_cont [OF s _ d(1,3) _ cps d(2) cur xu "1.prems"(4,6) wt st0 c0]
      show ?thesis using cl True by (simp add: L_def)
    next
      case False
      then have "own = ?own0" using s1 by (auto split: if_splits)
      with False c0 st0 show ?thesis by (auto simp: L_def)
    qed
    show "runs t url e cur cps d (spec_edge url (BuildEdge f (BuildNode es a m tg)) cur K)"
      using own f(4)
      by (intro node_runs [OF s4 "1.prems"(3,4) len(2) frag fin(3) f(3) s3 _ L_def real kids _ cps cur])
        auto
  qed
next
  case (2 fb d t0)
  then show ?case by (simp add: children_run_Nil)
next
  case (3 child es fb d t0)
  from "3.prems"(1) obtain edges' fb1 u e where
    s1: "flatten_children es fb d t0 = Some (edges', fb1, u)"
    and s2: "flatten_edge child fb1 (if wild_edge child then d + 1 else d) u = Some (e, t1)"
    and r: "edges = e # edges'" "fb' = (if wild_edge child then Some (graft_to e) else fb1)"
    by (elim flatten_childrenE)
  note g1 = flatten_grows(2) [OF s1] and g2 = flatten_grows(1) [OF s2]
  have wf: "wf_edge child" "wf_edges es" using "3.prems"(2) by auto
  have len: "256 \<le> length (EdgePool u)" using grows_len [OF g1] "3.prems"(6) by blast
  have xu: "extends u t" by (rule grows_then_extends [OF g2 "3.prems"(3) len])
  have wu: "has_wild_bytes u" by (rule grows_wild_bytes [OF "3.prems"(5) g1])
  have rest: "children_run t url es edges' fb fb1 d"
    using "3.IH"(1) [OF s1 wf(2) xu "3.prems"(4,5,6)] "3.prems"(7) by simp
  have dw: "(if wild_edge child then d + 1 else d) + wilds_node (Node child) \<le> 32"
    using "3.prems"(7) wild_wilds_node text_wilds_node by (auto simp: max_def split: if_splits)
  have run: "child_runs t url child e fb1 (if wild_edge child then d + 1 else d)"
    by (rule "3.IH"(2) [OF s1 refl refl s2 wf(1) "3.prems"(3,4) wu len dw])
  have frag: "has_frag t e (Fragment child)"
    using has_frag_mono [OF flatten_frag(1) [OF s2 wf(1) wu]] "3.prems"(3) by (simp add: extends_def)
  show ?case
  proof (cases "wild_edge child")
    case True
    have "d < 32" using dw True by simp
    then show ?thesis
      using children_run_wild [OF _ rest True wf(1) frag flatten_frag(2) [OF s2 wf(1) wu]] run True r by simp
  next
    case False
    then show ?thesis
      using children_run_text [OF _ rest False frag flatten_children_same_fb [OF s1]] run r by simp
  qed
qed

end
