(* ===== verification/Search_Root.thy ===== *)
theory Search_Root
  imports Search_Correct
begin

text \<open>
  \<open>finalize\<close> fills the root slots of the edge pool, and \<open>Search\<close> starts on one of them: the refinement
  of the whole search, and that it never fails to end.
\<close>

definition pools_ok :: "route_tree \<Rightarrow> bool" where
  "pools_ok t \<longleftrightarrow> 256 \<le> length (EdgePool t) \<and> has_wild_bytes t \<and> NodePool t \<noteq> []"

lemma pools_ok_extends: "pools_ok t \<Longrightarrow> extends t t' \<Longrightarrow> pools_ok t'"
  by (auto simp: pools_ok_def extends_def elim: has_wild_bytes_mono dest: prefix_length_le)

lemma finalize_roots_SomeE:
  assumes "finalize_roots (c # cs) roots fb t = Some t'" and "roots c = Some be"
  obtains e t1 where "flatten_edge be fb (if wild_edge be then 1 else 0) t = Some (e, t1)"
    and "finalize_roots cs roots (if wild_edge be then Some (graft_to e) else fb)
      (t1\<lparr>EdgePool := (EdgePool t1)[byte c := e]\<rparr>) = Some t'"
  using assms by (auto simp: bind_eq_Some_conv)

text \<open>Only the slots of roots in the list are written.\<close>

lemma finalize_roots_frame:
  "finalize_roots cs roots fb t = Some t' \<Longrightarrow> pools_ok t \<Longrightarrow> c \<notin> set cs \<or> roots c = None \<Longrightarrow>
     EdgePool t' ! byte c = EdgePool t ! byte c"
proof (induction cs arbitrary: fb t)
  case (Cons b cs)
  show ?case
  proof (cases "roots b")
    case None
    then have "finalize_roots cs roots fb t = Some t'" using Cons.prems(1) by simp
    then show ?thesis using Cons.IH Cons.prems(2,3) by auto
  next
    case (Some be)
    with Cons.prems(1) obtain e t1 where s1: "flatten_edge be fb (if wild_edge be then 1 else 0) t = Some (e, t1)"
      and s2: "finalize_roots cs roots (if wild_edge be then Some (graft_to e) else fb)
      (t1\<lparr>EdgePool := (EdgePool t1)[byte b := e]\<rparr>) = Some t'" by (rule finalize_roots_SomeE)
    let ?t2 = "t1\<lparr>EdgePool := (EdgePool t1)[byte b := e]\<rparr>"
    have len: "256 \<le> length (EdgePool t)" using Cons.prems(2) by (simp add: pools_ok_def)
    have "pools_ok ?t2"
      by (rule pools_ok_extends [OF Cons.prems(2) extends_root_slot [OF flatten_extends [OF s1 len]]])
    then have "EdgePool t' ! byte c = EdgePool ?t2 ! byte c" using Cons.IH [OF s2] Cons.prems(3) by auto
    also have "\<dots> = EdgePool t1 ! byte c"
    proof -
      have "byte b \<noteq> byte c" using Cons.prems(3) Some by auto
      then show ?thesis by simp
    qed
    also have "\<dots> = EdgePool t ! byte c"
    proof -
      have "byte c < length (EdgePool t)" using len byte_less [of c] by linarith
      then show ?thesis using flatten_grows(1) [OF s1] by (auto simp: grows_def prefix_def nth_append)
    qed
    finally show ?thesis .
  qed
qed simp

text \<open>One root slot in the finished tree.\<close>

lemma root_slot:
  assumes s: "finalize_roots (c # cs) roots fb t = Some t'" and be: "roots c = Some be"
    and wf: "wf_roots roots" and t: "pools_ok t" "fits t'" and c: "c \<notin> set cs"
  obtains fb' t1 where "finalize_roots cs roots fb' t1 = Some t'" and "pools_ok t1"
    and "fb' = (if is_wild c then Some (graft_to (EdgePool t' ! byte c)) else fb)"
    and "TargetID (EdgePool t' ! byte c) \<noteq> 0"
    and "has_frag t' (EdgePool t' ! byte c) [c]"
    and "child_runs t' url be (EdgePool t' ! byte c) fb (if is_wild c then 1 else 0)"
proof -
  from wf be have frag: "Fragment be = [c]" and wfe: "wf_edge be" and w: "wilds_edge be \<le> 32"
    by (auto simp: wf_roots_def MaxWildcardsPerRoute_def)
  have wc: "wild_edge be = is_wild c" using frag by (simp add: wild_edge_def)
  from s be obtain e t1 where s1: "flatten_edge be fb (if wild_edge be then 1 else 0) t = Some (e, t1)"
    and s2: "finalize_roots cs roots (if wild_edge be then Some (graft_to e) else fb)
      (t1\<lparr>EdgePool := (EdgePool t1)[byte c := e]\<rparr>) = Some t'" by (rule finalize_roots_SomeE)
  let ?t2 = "t1\<lparr>EdgePool := (EdgePool t1)[byte c := e]\<rparr>"
  have len: "256 \<le> length (EdgePool t)" and wild: "has_wild_bytes t" using t(1) by (auto simp: pools_ok_def)
  have x1: "extends t t1" by (rule flatten_extends [OF s1 len])
  have len1: "256 \<le> length (EdgePool t1)" using extends_len [OF x1] by simp
  have p2: "pools_ok ?t2" by (rule pools_ok_extends [OF t(1) extends_root_slot [OF x1]])
  have x12: "extends t1 ?t2" by (rule extends_root_slot [OF extends_refl [OF len1]])
  have x2: "extends ?t2 t'" using finalize_roots_extends [OF s2] len1 by simp
  have x: "extends t1 t'" by (rule extends_trans [OF x12 x2])
  have slot: "EdgePool t' ! byte c = e"
  proof -
    have "byte c < length (EdgePool t1)" using len1 byte_less [of c] by linarith
    then show ?thesis using finalize_roots_frame [OF s2 p2, of c] c by simp
  qed
  have d: "(if wild_edge be then 1 else 0) + wilds_node (Node be) \<le> 32"
    using w wild_wilds_node text_wilds_node by (auto split: if_splits)
  note run = flatten_runs(1) [OF s1 wfe x t(2) wild len d, of url]
  note fr = flatten_frag [OF s1 wfe wild]
  have "TargetID e \<noteq> 0" using fr(3) t(1) by (cases "NodePool t") (auto simp: pools_ok_def)
  moreover have "has_frag t' e [c]"
    using has_frag_mono [OF fr(1)] x frag by (simp add: extends_def)
  ultimately show thesis
    using that [OF s2 p2] slot run wc by simp
qed

lemma text_slots:
  assumes "finalize_roots cs roots fb t = Some t'" and "wf_roots roots" and "pools_ok t" and "fits t'"
    and "distinct cs" and "\<forall>c \<in> set cs. \<not> is_wild c" and "c \<in> set cs" and "roots c = Some be"
  shows "TargetID (EdgePool t' ! byte c) \<noteq> 0 \<and> child_runs t' url be (EdgePool t' ! byte c) fb 0"
  using assms(1,3,5-7)
proof (induction cs arbitrary: t)
  case (Cons b cs)
  show ?case
  proof (cases "roots b")
    case None
    then have "finalize_roots cs roots fb t = Some t'" using Cons.prems(1) by simp
    moreover have "c \<noteq> b" using None assms(8) by auto
    ultimately show ?thesis using Cons.IH Cons.prems by simp
  next
    case (Some bb)
    have nb: "b \<notin> set cs" "\<not> is_wild b" using Cons.prems by auto
    obtain t1 where s: "finalize_roots cs roots fb t1 = Some t'" "pools_ok t1"
      and slot: "TargetID (EdgePool t' ! byte b) \<noteq> 0" "child_runs t' url bb (EdgePool t' ! byte b) fb 0"
      using root_slot [OF Cons.prems(1) Some assms(2) Cons.prems(2) assms(4) nb(1), where url = url] nb(2)
      by auto
    with Cons.IH [OF s] Cons.prems Some assms(8) show ?thesis by auto
  qed
qed simp

text \<open>A wildcard root, and the fallback it hands to the roots after it.\<close>

lemma wild_slot:
  assumes s: "finalize_roots (c # cs) roots fb t = Some t'" and wf: "wf_roots roots"
    and t: "pools_ok t" "fits t'" and c: "c \<notin> set cs" "is_wild c"
    and K: "\<And>cps. length cps = 32 \<Longrightarrow> cont t' url fb cps 0 0 K"
    and zero: "roots c = None \<Longrightarrow> TargetID (EdgePool t' ! byte c) = 0"
  obtains fb' t1 where "finalize_roots cs roots fb' t1 = Some t'" and "pools_ok t1"
    and "\<And>cps. length cps = 32 \<Longrightarrow> cont t' url fb' cps 0 0 (spec_root url roots c 0 K)"
    and "if TargetID (EdgePool t' ! byte c) = 0 then spec_root url roots c 0 K = K
      else runs t' url (EdgePool t' ! byte c) 0 no_checkpoints 1 (spec_root url roots c 0 K)"
proof (cases "roots c")
  case None
  then have s': "finalize_roots cs roots fb t = Some t'" using s by simp
  then show thesis
    using that [OF s' t(1)] K zero None by (simp add: spec_root_def)
next
  case (Some be)
  let ?e = "EdgePool t' ! byte c"
  obtain t1 where s': "finalize_roots cs roots (Some (graft_to ?e)) t1 = Some t'" "pools_ok t1"
    and slot: "TargetID ?e \<noteq> 0" "has_frag t' ?e [c]" "child_runs t' url be ?e fb 1"
    using root_slot [OF s Some wf t c(1), where url = url] c(2) by auto
  have wild: "wild_edge be" using wf Some c(2) by (auto simp: wf_roots_def wild_edge_def)
  have run: "runs t' url ?e 0 cps 1 (spec_root url roots c 0 K)" if "length cps = 32" "cps ! 0 = 0" for cps
    using child_runsD [OF slot(3) that(1), of 0 K] that K [OF that(1)] wild
    by (simp add: spec_root_def Some)
  have "cont t' url (Some (graft_to ?e)) cps 0 (int 0) (spec_root url roots c 0 K)" for cps
    by (rule cont_graft_to [OF c(2) slot(2)]) (use run in simp_all)
  moreover have "runs t' url ?e 0 no_checkpoints 1 (spec_root url roots c 0 K)"
    by (rule run) (simp_all add: no_checkpoints_def MaxWildcardsPerRoute_def)
  ultimately show thesis
    using that [OF s'] slot(1) by simp
qed

lemma all_bytes_split:
  obtains rest where "all_bytes = CHR 0x00 # WildcardGreedy # Wildcard # rest" and "distinct all_bytes"
    and "\<And>c. c \<in> set all_bytes"
proof -
  have "[0..<256::nat] = [0..<3] @ [3..<256]"
    using upt_add_eq_append [of 0 3 253] by simp
  moreover have "map char_of [0..<3::nat] = [CHR 0x00, WildcardGreedy, Wildcard]"
    unfolding WildcardGreedy_def Wildcard_def by code_simp
  ultimately have "all_bytes = CHR 0x00 # WildcardGreedy # Wildcard # map char_of [3..<256::nat]"
    unfolding all_bytes_def by (simp only: map_append append.simps)
  moreover have "distinct all_bytes"
    unfolding all_bytes_def distinct_map by (auto simp: inj_on_def char_of_eq_iff take_bit_nat_eq_self)
  moreover have "c \<in> set all_bytes" for c
    unfolding all_bytes_def by (auto intro!: image_eqI [of _ _ "of_char c"])
  ultimately show thesis by (rule that)
qed

subsection \<open>The whole search\<close>

definition gives :: "search_result option \<Rightarrow> leaf option \<Rightarrow> bool" where
  "gives r L \<longleftrightarrow> (case r of
     Some (Found n) \<Rightarrow> L = Some (node_leaf n)
   | Some NotFound \<Rightarrow> L = None
   | Some Panicked \<Rightarrow> False
   | None \<Rightarrow> False)"

lemma ends_gives: "ends t url s L \<longleftrightarrow> gives (search_loop t url s) L"
  by (auto simp: ends_def gives_def split: option.splits search_result.splits)

lemma runs_gives:
  assumes "runs t url (EdgePool t ! i) cur cps d L" and "i < length (EdgePool t)"
  shows "gives (search_loop t url (state_at i cur cps d)) L"
  using assms unfolding runs_def ends_gives by (simp add: idx_def)

lemma Search_refines:
  assumes wf: "wf_roots roots" and fin: "finalize roots t0 = Some t" and fits: "fits t"
    and url: "url \<noteq> [] \<Longrightarrow> \<not> is_wild (hd url)"
  shows "gives (Search t url) (spec_search roots url)"
proof (cases url)
  case Nil
  then show ?thesis by (simp add: Search_def spec_search_def gives_def)
next
  case (Cons c cs)
  then have tx: "\<not> is_wild c" using url by simp
  let ?t1 = "t0\<lparr>NodePool := [zero_node], EdgePool := replicate 256 zero_edge,
    FragmentPool := [WildcardGreedy, Wildcard]\<rparr>"
  obtain rest where all: "all_bytes = CHR 0x00 # WildcardGreedy # Wildcard # rest" "distinct all_bytes"
    and every: "\<And>c. c \<in> set all_bytes" using all_bytes_split by blast
  have p1: "pools_ok ?t1" by (simp add: pools_ok_def has_wild_bytes_def)
  have nul: "roots (CHR 0x00) = None"
  proof (rule ccontr)
    assume "roots (CHR 0x00) \<noteq> None"
    then obtain be where "roots (CHR 0x00) = Some be" by blast
    with wf have "Fragment be = [CHR 0x00]" "wf_edge be" by (auto simp: wf_roots_def)
    then show False
      by (cases be) (auto simp: is_text_def is_wild_def byte_def Wildcard_def WildcardGreedy_def
          split: if_splits)
  qed
  have f0: "finalize_roots (WildcardGreedy # Wildcard # rest) roots None ?t1 = Some t"
    using fin nul by (simp add: finalize_def all)
  have zero: "EdgePool t ! byte b = zero_edge" if "roots b = None" for b
  proof -
    have "EdgePool t ! byte b = EdgePool ?t1 ! byte b"
      by (rule finalize_roots_frame [OF f0 p1]) (use that in simp)
    then show ?thesis using byte_less [of b] by simp
  qed
  then have z: "roots b = None \<Longrightarrow> TargetID (EdgePool t ! byte b) = 0" for b
    by (simp add: zero_edge_def)
  have d: "WildcardGreedy \<notin> set (Wildcard # rest)" "Wildcard \<notin> set rest" "distinct rest"
      "\<forall>b \<in> set rest. \<not> is_wild b"
    using all(2) unfolding all(1) by (auto simp: is_wild_def)
  define K1 where "K1 = spec_root url roots WildcardGreedy 0 None"
  define K2 where "K2 = spec_root url roots Wildcard 0 K1"
  have c0: "cont t url None cps 0 0 None" for cps by (simp add: cont_def)
  obtain fb1 t1 where s1: "finalize_roots (Wildcard # rest) roots fb1 t1 = Some t" "pools_ok t1"
      "\<And>cps. length cps = 32 \<Longrightarrow> cont t url fb1 cps 0 0 K1"
      "if TargetID (EdgePool t ! byte WildcardGreedy) = 0 then K1 = None
       else runs t url (EdgePool t ! byte WildcardGreedy) 0 no_checkpoints 1 K1"
    unfolding K1_def
    by (rule wild_slot [OF f0 wf p1 fits d(1) _ c0 z]) (simp, assumption, blast)
  obtain fb2 t2 where s2: "finalize_roots rest roots fb2 t2 = Some t" "pools_ok t2"
      "\<And>cps. length cps = 32 \<Longrightarrow> cont t url fb2 cps 0 0 K2"
      "if TargetID (EdgePool t ! byte Wildcard) = 0 then K2 = K1
       else runs t url (EdgePool t ! byte Wildcard) 0 no_checkpoints 1 K2"
    unfolding K2_def
    by (rule wild_slot [OF s1(1) wf s1(2) fits d(2) _ s1(3) z]) (simp, assumption, assumption, blast)
  have len: "byte b < length (EdgePool t)" for b
  proof -
    have "256 \<le> length (EdgePool t)" using extends_len [OF finalize_roots_extends [OF f0]] by simp
    then show ?thesis using byte_less [of b] by linarith
  qed
  define start where "start = (if TargetID (EdgePool t ! byte c) \<noteq> 0 then Some (state_at (byte c) 1 no_checkpoints 0)
    else if TargetID (EdgePool t ! byte Wildcard) \<noteq> 0
      then Some (state_at (byte Wildcard) 0 no_checkpoints 1)
    else if TargetID (EdgePool t ! byte WildcardGreedy) \<noteq> 0
      then Some (state_at (byte WildcardGreedy) 0 no_checkpoints 1)
    else None)"
  have start: "search_start t c = Some start"
    using len [of c] len [of Wildcard] len [of WildcardGreedy]
    by (simp add: search_start_def start_def Let_def idx_def)
  have K: "gives (Search t url) K2" if "TargetID (EdgePool t ! byte c) = 0"
  proof (cases "TargetID (EdgePool t ! byte Wildcard) = 0")
    case True
    then have "K2 = K1" using s2(4) by simp
    with True that s1(4) start Cons runs_gives [OF _ len, of url WildcardGreedy 0 no_checkpoints 1 K1]
    show ?thesis by (auto simp: Search_def start_def gives_def [of "Some NotFound"] split: if_splits)
  next
    case False
    with that s2(4) start Cons runs_gives [OF _ len, of url Wildcard 0 no_checkpoints 1 K2]
    show ?thesis by (simp add: Search_def start_def)
  qed
  show ?thesis
  proof (cases "roots c")
    case None
    have "spec_search roots url = K2"
      by (simp add: spec_search_def Cons spec_root_def [of _ _ c] None K1_def K2_def)
    with K z [OF None] show ?thesis by simp
  next
    case (Some be)
    have "c \<in> set rest"
      using every [of c] tx Some nul by (auto simp: all)
    note slot = text_slots [OF s2(1) wf s2(2) fits d(3,4) this Some, of url]
    have frag: "Fragment be = [c]" using wf Some by (simp add: wf_roots_def)
    then have "\<not> wild_edge be" using tx by (simp add: wild_edge_def)
    then have "runs t url (EdgePool t ! byte c) 1 no_checkpoints 0 (spec_edge url be 1 K2)"
      using s2(3) [of no_checkpoints] frag Cons slot
      by (intro child_runsD [where inh = fb2]) (auto simp: no_checkpoints_def MaxWildcardsPerRoute_def)
    moreover have "spec_search roots url = spec_edge url be 1 K2"
      by (simp add: spec_search_def Cons spec_root_def [of _ _ c] Some K1_def K2_def)
    ultimately show ?thesis
      using slot start Cons runs_gives [OF _ len, of url c 1 no_checkpoints 0]
      by (simp add: Search_def start_def)
  qed
qed

end
