(* ===== verification/Priority.thy ===== *)
theory Priority
  imports Matching
begin

text \<open>
  Which route wins: at a literal node the child whose text comes next is always reached, so a path
  without wildcards finds its own leaf whatever else the tree holds; and a request below a literal
  prefix with a trailing wildcard always finds some route.
\<close>

lemma wf_edge_hd_text: "wf_edge e \<Longrightarrow> \<not> wild_edge e \<Longrightarrow> edge_class e = 0"
  by (cases e) (auto simp: edge_class_def wild_edge_def is_wild_def split: list.splits)

lemma wild_edge_class: "wf_edge e \<Longrightarrow> wild_edge e \<Longrightarrow> 0 < edge_class e"
  by (cases e) (auto simp: edge_class_def wild_edge_def is_wild_def split: list.splits)

lemma has_prefix_hd: "has_prefix u f \<Longrightarrow> f \<noteq> [] \<Longrightarrow> u \<noteq> [] \<and> hd f = hd u"
  by (cases f; cases u) auto

text \<open>The literal child whose text comes next is the one taken.\<close>

lemma reach_text_child:
  assumes "e \<in> set es" and "wf_edges es" and "sorted (map edge_class es)" and "\<not> wild_edge e"
    and "\<not> is_wild p" and "has_prefix (drop cur url) (Fragment e)"
  shows "\<exists>K'. spec_children url p es cur K = spec_edge url e (cur + length (Fragment e)) K'"
  using assms(1-3)
proof (induction es)
  case (Cons e' es)
  show ?case
  proof (cases "e = e'")
    case True
    with assms(4-6) show ?thesis by (auto simp: child_match_def is_wild_def)
  next
    case False
    then have e: "e \<in> set es" using Cons.prems(1) by simp
    have wf: "wf_edge e" using e Cons.prems(2) by (simp add: wf_edges_iff)
    have "edge_class e' \<le> edge_class e" using e Cons.prems(3) by simp
    then have "\<not> wild_edge e'"
      using wf_edge_hd_text [OF wf assms(4)] wild_edge_class [of e'] Cons.prems(2) by auto
    moreover have "hd (Fragment e') \<noteq> hd (Fragment e)" using e Cons.prems(2) by auto
    then have "\<not> has_prefix (drop cur url) (Fragment e')"
      using has_prefix_hd [OF assms(6) wf_edge_Fragment [OF wf]] has_prefix_hd wf_edge_Fragment Cons.prems(2)
      by fastforce
    then have "child_match p url cur (Fragment e') = None"
      using assms(5) by (auto simp: child_match_def is_wild_def)
    ultimately show ?thesis using Cons.IH e Cons.prems by simp
  qed
qed simp

lemma edges_path_split:
  assumes "(q, l) \<in> set (edges_paths es)"
  obtains e q' where "e \<in> set es" "q = Fragment e @ q'" "(q', l) \<in> set (node_paths (Node e))"
  using assms by (auto simp: set_edges_paths edge_paths_eq)

lemma no_empty_path: "wf_edges es \<Longrightarrow> ([], l) \<notin> set (edges_paths es)"
  by (auto elim!: edges_path_split simp: wf_edges_iff dest!: wf_edge_Fragment)

lemma empty_path_leaf:
  assumes "wf_edge e" and "([], l) \<in> set (node_paths (Node e))"
  shows "NodeMethods (Node e) \<noteq> 0"
proof -
  have "wf_edges (Edges (Node e))" using assms(1) by (cases e) (simp add: wf_node_iff)
  with assms(2) no_empty_path show ?thesis by (auto simp: node_paths_eq own_leaf_def)
qed

lemma spec_static:
  assumes "(q, l) \<in> set (node_paths (Node e))" and "wf_edge e" and "ordered_edge e" and "\<not> wild_edge e"
    and "drop cur url = q" and "\<not> list_ex is_wild q" and "cur \<le> length url"
  shows "spec_edge url e cur K = Some l"
  using assms
proof (induction "length q" arbitrary: q e cur K rule: less_induct)
  case less
  obtain f es a m tg where e: "e = BuildEdge f (BuildNode es a m tg)"
    by (metis build_edge.exhaust build_node.exhaust)
  have f: "\<not> is_wild (hd f)" "wf_edges es" using less.prems(2,4) e by (auto simp: wild_edge_def)
  show ?case
  proof (cases "q = []")
    case True
    have "([], l) \<notin> set (edges_paths es)" by (rule no_empty_path [OF f(2)])
    then have "l = (a, m, tg)" "m \<noteq> 0" using less.prems(1) True e by (auto simp: own_leaf_def split: if_splits)
    with True less.prems(5,7) e f(1) show ?thesis by auto
  next
    case False
    then have "(q, l) \<in> set (edges_paths es)"
      using less.prems(1) e by (auto simp: own_leaf_def split: if_splits)
    then obtain e' q' where e': "e' \<in> set es" "q = Fragment e' @ q'" "(q', l) \<in> set (node_paths (Node e'))"
      by (rule edges_path_split)
    have wf: "wf_edge e'" "Fragment e' \<noteq> []" using f(2) e'(1) by (auto simp: wf_edges_iff dest: wf_edge_Fragment)
    have nw: "\<not> wild_edge e'" using less.prems(6) e'(2) wf(2) by (cases "Fragment e'") (auto simp: wild_edge_def)
    have ord: "sorted (map edge_class es)" "ordered_edge e'"
      using less.prems(3) e e'(1) by (auto simp: ordered_edges_iff)
    obtain K' where "spec_children url (hd f) es cur K = spec_edge url e' (cur + length (Fragment e')) K'"
      using reach_text_child [OF e'(1) f(2) ord(1) nw f(1), of cur url K] less.prems(5) e'(2) by auto
    also have "\<dots> = Some l"
    proof (rule less.hyps)
      show "drop (cur + length (Fragment e')) url = q'"
        using less.prems(5) e'(2) drop_drop [of "length (Fragment e')" cur url] by (simp add: add.commute)
      have "length url - cur = length (Fragment e') + length q'"
        using arg_cong [OF less.prems(5), of length] e'(2) by simp
      then show "cur + length (Fragment e') \<le> length url" using wf(2) by (cases "Fragment e'") auto
    qed (use e' wf ord nw less.prems(6) in auto)
    finally show ?thesis using False less.prems(5) e f(1) by auto
  qed
qed

lemma spec_search_static:
  assumes "holds_route roots url l" and "wf_roots roots" and "ordered_roots roots"
    and "\<not> list_ex is_wild url"
  shows "spec_search roots url = Some l"
proof -
  from assms(1) obtain c q e where url: "url = c # q" and e: "roots c = Some e" "(url, l) \<in> set (edge_paths e)"
    by (auto simp: holds_route_def split: list.splits option.splits)
  have w: "Fragment e = [c]" "wf_edge e" "ordered_edge e"
    using assms(2,3) e(1) by (auto simp: wf_roots_def ordered_roots_def)
  then have "(q, l) \<in> set (node_paths (Node e))" "\<not> wild_edge e"
    using e(2) url assms(4) by (auto simp: edge_paths_eq wild_edge_def)
  then have "spec_edge url e 1 K = Some l" for K
    using w assms(4) url by (intro spec_static [of q]) auto
  then show ?thesis using url e(1) by (simp add: spec_search_def spec_root_def [of _ _ c])
qed

subsection \<open>Fallbacks are never lost\<close>

lemma spec_keeps_fallback:
  "K \<noteq> None \<Longrightarrow> spec_edge url e cur K \<noteq> None"
  "K \<noteq> None \<Longrightarrow> spec_children url p es cur K \<noteq> None"
  "K \<noteq> None \<Longrightarrow> spec_wild url es cur K \<noteq> None"
  by (induction url e cur K and url p es cur K and url es cur K
      rule: spec_edge_spec_children_spec_wild.induct)
    (simp_all split: option.splits)

lemma spec_children_wild:
  "spec_wild url es cur K \<noteq> None \<Longrightarrow> spec_children url p es cur K \<noteq> None"
proof (induction es)
  case (Cons e es)
  then show ?case
    using spec_keeps_fallback(1) [of "spec_wild url es cur K" url e]
    by (cases "child_match p url cur (Fragment e)") (simp_all split: if_splits)
qed simp

lemma spec_wild_accepts:
  assumes "e \<in> set es" and "wild_edge e" and "NodeMethods (Node e) \<noteq> 0" and "cur < length url"
  shows "spec_wild url es cur K \<noteq> None"
  using assms(1)
proof (induction es)
  case (Cons e' es)
  obtain f es' a m tg where e: "e = BuildEdge f (BuildNode es' a m tg)"
    by (metis build_edge.exhaust build_node.exhaust)
  have "spec_edge url e cur K' \<noteq> None" for K'
    using assms(2-4) by (simp add: e wild_edge_def spec_keeps_fallback)
  with Cons assms(2) spec_keeps_fallback(1) show ?case by (cases "e = e'") auto
qed simp

text \<open>No wildcard byte inside a literal fragment.\<close>

fun pure_edge :: "build_edge \<Rightarrow> bool"
and pure_node :: "build_node \<Rightarrow> bool"
and pure_edges :: "build_edge list \<Rightarrow> bool" where
  "pure_edge (BuildEdge f n) \<longleftrightarrow> (is_wild (hd f) \<or> \<not> list_ex is_wild f) \<and> pure_node n"
| "pure_node (BuildNode es a m t) \<longleftrightarrow> pure_edges es"
| "pure_edges [] \<longleftrightarrow> True"
| "pure_edges (e # es) \<longleftrightarrow> pure_edge e \<and> pure_edges es"

definition pure_roots :: "roots \<Rightarrow> bool" where
  "pure_roots roots \<longleftrightarrow> (\<forall>c e. roots c = Some e \<longrightarrow> pure_edge e)"

lemma pure_edges_iff: "pure_edges es \<longleftrightarrow> (\<forall>e \<in> set es. pure_edge e)"
  by (induction es) auto

lemma spec_catch_all:
  assumes "(q @ [w], l) \<in> set (node_paths (Node e))" and "wf_edge e" and "ordered_edge e" and "pure_edge e"
    and "\<not> wild_edge e" and "drop cur url = q @ rest" and "rest \<noteq> []" and "\<not> list_ex is_wild q" and "is_wild w"
  shows "spec_edge url e cur K \<noteq> None"
  using assms
proof (induction "length q" arbitrary: q e cur K rule: less_induct)
  case less
  obtain f es a m tg where e: "e = BuildEdge f (BuildNode es a m tg)"
    by (metis build_edge.exhaust build_node.exhaust)
  have f: "\<not> is_wild (hd f)" "wf_edges es" using less.prems(2,5) e by (auto simp: wild_edge_def)
  have cur: "cur < length url" using less.prems(6,7) by (metis append_is_Nil_conv drop_all linorder_not_less)
  have "(q @ [w], l) \<in> set (edges_paths es)"
    using less.prems(1) e by (auto simp: own_leaf_def split: if_splits)
  then obtain e' q' where e': "e' \<in> set es" "q @ [w] = Fragment e' @ q'" "(q', l) \<in> set (node_paths (Node e'))"
    by (rule edges_path_split)
  have wf: "wf_edge e'" "Fragment e' \<noteq> []" "pure_edge e'" and ord: "sorted (map edge_class es)" "ordered_edge e'"
    using f(2) e'(1) less.prems(3,4) e
    by (auto simp: wf_edges_iff ordered_edges_iff pure_edges_iff dest: wf_edge_Fragment)
  have "spec_children url (hd f) es cur K \<noteq> None"
  proof (cases "wild_edge e'")
    case True
    obtain c where c: "Fragment e' = [c]" "is_wild c"
      using wf_wild_Fragment [OF wf(1) True] True unfolding wild_edge_def by blast
    have q: "q = []"
    proof (cases q)
      case (Cons x xs)
      then show ?thesis using e'(2) c less.prems(8) by simp
    qed
    with e'(2) c have "q' = []" by simp
    moreover have "([], l) \<in> set (node_paths (Node e')) \<Longrightarrow> NodeMethods (Node e') \<noteq> 0"
      using empty_path_leaf [OF wf(1)] by blast
    ultimately show ?thesis
      using spec_children_wild [OF spec_wild_accepts [OF e'(1) True _ cur]] e'(3) by simp
  next
    case False
    have nw: "\<not> list_ex is_wild (Fragment e')" using wf(3) False by (cases e') (simp add: wild_edge_def)
    have "q' \<noteq> []" 
    proof
      assume "q' = []"
      then have "list_ex is_wild (Fragment e')" using e'(2) [symmetric] less.prems(9) by simp
      with nw show False by simp
    qed
    then obtain r where q': "q' = r @ [w]" "q = Fragment e' @ r"
      using e'(2) by (cases q' rule: rev_cases) auto
    obtain K' where K': "spec_children url (hd f) es cur K = spec_edge url e' (cur + length (Fragment e')) K'"
      using reach_text_child [OF e'(1) f(2) ord(1) False f(1), of cur url K] less.prems(6) q'(2) by auto
    have dr: "drop (cur + length (Fragment e')) url = r @ rest"
      using less.prems(6) q'(2) drop_drop [of "length (Fragment e')" cur url] by (simp add: add.commute)
    have "length r < length q" "(r @ [w], l) \<in> set (node_paths (Node e'))" "\<not> list_ex is_wild r"
      using q' wf(2) e'(3) less.prems(8) by simp_all
    then have "spec_edge url e' (cur + length (Fragment e')) K' \<noteq> None"
      using less.hyps [OF _ _ wf(1) ord(2) wf(3) False dr less.prems(7) _ less.prems(9)] by blast
    then show ?thesis using K' by simp
  qed
  then show ?case using e f(1) cur by simp
qed

end
