(* ===== verification/Interpolate.thy ===== *)
theory Interpolate
  imports Prelude "HOL-Library.Monad_Syntax"
begin

text \<open>
  \<open>internal/interpolate/interpolate.go\<close>: \<open>Analyze\<close> finds the tags of a service or middleware name at
  build time, \<open>Replace\<close> puts the values of a request in their place. \<^const>\<open>None\<close> in \<open>Replace\<close> is
  the panic of a slice out of range.
\<close>

definition OpHost :: nat where "OpHost = 1"
definition OpPath :: nat where "OpPath = 2"
definition OpQuery :: nat where "OpQuery = 3"
definition OpQueries :: nat where "OpQueries = 4"
definition OpMethod :: nat where "OpMethod = 5"
definition OpRawURI :: nat where "OpRawURI = 6"
definition OpScheme :: nat where "OpScheme = 7"
definition OpPort :: nat where "OpPort = 8"
definition OpHeader :: nat where "OpHeader = 9"
definition OpRemoteIP :: nat where "OpRemoteIP = 10"

lemmas op_defs = OpHost_def OpPath_def OpQuery_def OpQueries_def OpMethod_def OpRawURI_def
  OpScheme_def OpPort_def OpHeader_def OpRemoteIP_def

subsection \<open>\<open>Analyze\<close>\<close>

text \<open>
  \<open>tagRegex\<close> at one position: the length of the match with both braces. A fixed tag is its name and
  a brace; after \<open>query.\<close> and \<open>header.\<close> the shortest text up to a brace is taken, on one line.
\<close>

definition plain_tags :: "string list" where
  "plain_tags = [''host'', ''path'', ''queries'', ''method'', ''rawuri'', ''scheme'', ''port'', ''remoteip'']"

definition keyed_tags :: "string list" where
  "keyed_tags = [''query.'', ''header.'']"

definition plain_match :: "string \<Rightarrow> string \<Rightarrow> nat option" where
  "plain_match s name =
     (if has_prefix (to_lower s) (CHR ''{'' # name @ ''}'') then Some (length name + 2) else None)"

definition keyed_match :: "string \<Rightarrow> string \<Rightarrow> nat option" where
  "keyed_match s name =
     (if has_prefix (to_lower s) (CHR ''{'' # name)
      then let rest = drop (length name + 1) s; key = takeWhile (\<lambda>c. c \<noteq> CHR ''}'' \<and> c \<noteq> CHR 0x0A) rest
           in if has_prefix (drop (length key) rest) ''}'' then Some (length name + length key + 2) else None
      else None)"

definition tag_match :: "string \<Rightarrow> nat option" where
  "tag_match s =
     (case List.map_filter (plain_match s) plain_tags @ List.map_filter (keyed_match s) keyed_tags of
        [] \<Rightarrow> None
      | n # _ \<Rightarrow> Some n)"

text \<open>The switch on the lower-case tag; 0 for no case.\<close>

definition tag_op :: "string \<Rightarrow> nat" where
  "tag_op tag =
     (if tag = ''host'' then OpHost else if tag = ''path'' then OpPath
      else if tag = ''queries'' then OpQueries else if tag = ''method'' then OpMethod
      else if tag = ''rawuri'' then OpRawURI else if tag = ''scheme'' then OpScheme
      else if tag = ''port'' then OpPort else if tag = ''remoteip'' then OpRemoteIP
      else if has_prefix tag ''query.'' then OpQuery
      else if has_prefix tag ''header.'' then OpHeader else 0)"

text \<open>\<open>FindAllStringSubmatchIndex\<close> and the loop over its matches; \<open>pos\<close> is the offset of \<open>s\<close>.\<close>

function analyze_from :: "nat \<Rightarrow> string \<Rightarrow> nat list" where
  "analyze_from pos [] = []"
| "analyze_from pos (c # s) =
     (case tag_match (c # s) of
        None \<Rightarrow> analyze_from (pos + 1) s
      | Some n \<Rightarrow>
          let op = tag_op (to_lower (take (n - 2) s))
          in (if op = 0 then [] else [op, pos, pos + n]) @ analyze_from (pos + n) (drop (n - 1) s))"
  by pat_completeness auto
termination
  by (relation "measure (\<lambda>(_, s). length s)") auto

definition Analyze :: "string \<Rightarrow> nat list" where
  "Analyze origin = analyze_from 0 origin"

subsection \<open>\<open>Replace\<close>\<close>

text \<open>What \<open>Replace\<close> reads of the request and of \<open>RequestContext\<close>; the maps give the first value.\<close>

record request_context =
  rc_host :: string
  rc_path :: string
  rc_query :: "string \<Rightarrow> string"
  rc_encodedQuery :: string
  rc_method :: string
  rc_rawURI :: string
  rc_scheme :: string
  rc_port :: string
  rc_header :: "string \<Rightarrow> string"
  rc_remoteIP :: string

definition op_value :: "request_context \<Rightarrow> string \<Rightarrow> nat \<Rightarrow> nat \<Rightarrow> nat \<Rightarrow> string option" where
  "op_value rc origin code tagStart tagEnd =
     (if code = OpHost then Some (rc_host rc)
      else if code = OpPath then Some (rc_path rc)
      else if code = OpQuery then map_option (rc_query rc) (slice origin (tagStart + 7) (tagEnd - 1))
      else if code = OpQueries then Some (rc_encodedQuery rc)
      else if code = OpMethod then Some (rc_method rc)
      else if code = OpRawURI then Some (rc_rawURI rc)
      else if code = OpScheme then Some (rc_scheme rc)
      else if code = OpPort then Some (rc_port rc)
      else if code = OpRemoteIP then Some (rc_remoteIP rc)
      else if code = OpHeader then map_option (rc_header rc) (slice origin (tagStart + 8) (tagEnd - 1))
      else Some [])"

fun replace_from :: "request_context \<Rightarrow> string \<Rightarrow> nat \<Rightarrow> nat list \<Rightarrow> string option" where
  "replace_from rc origin lastPos [] = slice origin lastPos (length origin)"
| "replace_from rc origin lastPos (code # tagStart # tagEnd # metadata) = do {
     before \<leftarrow> slice origin lastPos tagStart;
     value \<leftarrow> op_value rc origin code tagStart tagEnd;
     rest \<leftarrow> replace_from rc origin tagEnd metadata;
     Some (before @ value @ rest)
   }"
| "replace_from rc origin lastPos _ = None"

definition Replace :: "request_context \<Rightarrow> string \<Rightarrow> nat list \<Rightarrow> string option" where
  "Replace rc origin metadata =
     (if metadata = [] then Some origin else replace_from rc origin 0 metadata)"

subsection \<open>The reference: substitution in one pass\<close>

text \<open>The value of a tag given by its text between the braces; the key keeps its letter case.\<close>

definition tag_value :: "request_context \<Rightarrow> string \<Rightarrow> string" where
  "tag_value rc tag =
     (let t = to_lower tag in
      if t = ''host'' then rc_host rc else if t = ''path'' then rc_path rc
      else if t = ''queries'' then rc_encodedQuery rc else if t = ''method'' then rc_method rc
      else if t = ''rawuri'' then rc_rawURI rc else if t = ''scheme'' then rc_scheme rc
      else if t = ''port'' then rc_port rc else if t = ''remoteip'' then rc_remoteIP rc
      else if has_prefix t ''query.'' then rc_query rc (drop 6 tag)
      else rc_header rc (drop 7 tag))"

function interpolated :: "request_context \<Rightarrow> string \<Rightarrow> string" where
  "interpolated rc [] = []"
| "interpolated rc (c # s) =
     (case tag_match (c # s) of
        None \<Rightarrow> c # interpolated rc s
      | Some n \<Rightarrow> tag_value rc (take (n - 2) s) @ interpolated rc (drop (n - 1) s))"
  by pat_completeness auto
termination
  by (relation "measure (\<lambda>(_, s). length s)") auto

subsection \<open>What a match is\<close>

lemma length_to_lower [simp]: "length (to_lower s) = length s"
  by (simp add: to_lower_def)

lemma to_lower_take: "to_lower (take n s) = take n (to_lower s)"
  by (simp add: to_lower_def take_map)

lemma plain_matchD:
  assumes "plain_match (c # s) name = Some n"
  shows "to_lower (take (n - 2) s) = name" and "n = length name + 2" and "n \<le> Suc (length s)"
proof -
  show n: "n = length name + 2" using assms by (simp add: plain_match_def split: if_splits)
  have "has_prefix (to_lower s) (name @ ''}'')"
    using assms by (simp add: plain_match_def to_lower_def split: if_splits)
  then obtain r where r: "to_lower s = name @ ''}'' @ r" by (auto simp: has_prefix_iff)
  then show "to_lower (take (n - 2) s) = name" by (simp add: n to_lower_take)
  show "n \<le> Suc (length s)" using arg_cong [OF r, of length] n by simp
qed

lemma keyed_matchD:
  assumes "keyed_match (c # s) name = Some n"
  shows "\<exists>key. to_lower (take (n - 2) s) = name @ key \<and> n = length name + length key + 2"
    and "n \<le> Suc (length s)"
proof -
  have "has_prefix (to_lower s) name"
    using assms by (simp add: keyed_match_def to_lower_def split: if_splits)
  then obtain r where r: "to_lower s = name @ r" by (auto simp: has_prefix_iff)
  define key where "key = takeWhile (\<lambda>c. c \<noteq> CHR ''}'' \<and> c \<noteq> CHR 0x0A) (drop (length name) s)"
  have n: "n = length name + length key + 2"
    and close: "has_prefix (drop (length key) (drop (length name) s)) ''}''"
    using assms by (auto simp: keyed_match_def Let_def key_def split: if_splits)
  have "drop (length key) (drop (length name) s) \<noteq> []" using close by auto
  then have len: "length name + length key < length s" by simp
  then show "n \<le> Suc (length s)" using n by simp
  have "to_lower (take (n - 2) s) = name @ take (length key) r"
    by (simp add: n to_lower_take r)
  moreover have "length (take (length key) r) = length key"
    using arg_cong [OF r, of length] len by simp
  ultimately show "\<exists>key. to_lower (take (n - 2) s) = name @ key \<and> n = length name + length key + 2"
    using n by metis
qed

lemma tag_matchD:
  assumes "tag_match (c # s) = Some n"
  shows "n \<le> Suc (length s)"
    and "to_lower (take (n - 2) s) \<in> set plain_tags \<and> n = length (to_lower (take (n - 2) s)) + 2 \<or>
      (\<exists>k key. k \<in> set keyed_tags \<and> to_lower (take (n - 2) s) = k @ key \<and> n = length k + length key + 2)"
proof -
  let ?ms = "List.map_filter (plain_match (c # s)) plain_tags @ List.map_filter (keyed_match (c # s)) keyed_tags"
  obtain r where "?ms = n # r" using assms by (auto simp: tag_match_def split: list.splits)
  then have "n \<in> set ?ms" by (metis list.set_intros(1))
  then consider name where "name \<in> set plain_tags" "plain_match (c # s) name = Some n"
    | name where "name \<in> set keyed_tags" "keyed_match (c # s) name = Some n"
    by (auto simp: map_filter_def)
  then show "n \<le> Suc (length s)"
    and "to_lower (take (n - 2) s) \<in> set plain_tags \<and> n = length (to_lower (take (n - 2) s)) + 2 \<or>
      (\<exists>k key. k \<in> set keyed_tags \<and> to_lower (take (n - 2) s) = k @ key \<and> n = length k + length key + 2)"
    by (cases; use plain_matchD keyed_matchD in metis)+
qed

lemma plain_tag_op:
  "tag \<in> set plain_tags \<Longrightarrow> tag_op tag \<noteq> 0 \<and> tag_op tag \<noteq> OpQuery \<and> tag_op tag \<noteq> OpHeader"
  by (auto simp: plain_tags_def tag_op_def op_defs)

lemma slice_mid: "i \<le> j \<Longrightarrow> j \<le> length s \<Longrightarrow> slice (pre @ s) (length pre + i) (length pre + j) = Some (take (j - i) (drop i s))"
  by (simp add: slice_def)

lemma tag_cases:
  assumes "T \<in> set plain_tags \<and> n = length T + 2 \<or>
    (\<exists>k key. k \<in> set keyed_tags \<and> T = k @ key \<and> n = length k + length key + 2)"
  obtains (plain) "T \<in> set plain_tags"
    | (query) key where "T = ''query.'' @ key" "n = length key + 8"
    | (header) key where "T = ''header.'' @ key" "n = length key + 9"
  using assms by (auto simp: keyed_tags_def)

text \<open>Each match gives the value of its tag.\<close>

lemma op_value_tag:
  assumes "tag_match (c # s) = Some n"
  defines "op \<equiv> tag_op (to_lower (take (n - 2) s))"
  shows "op \<noteq> 0"
    and "op_value rc (pre @ c # s) op (length pre) (length pre + n) = Some (tag_value rc (take (n - 2) s))"
proof -
  let ?tag = "take (n - 2) s"
  note m = tag_matchD [OF assms(1)]
  from m(2) have "op \<noteq> 0 \<and>
      op_value rc (pre @ c # s) op (length pre) (length pre + n) = Some (tag_value rc ?tag)"
  proof (cases rule: tag_cases)
    case plain
    then show ?thesis
      by (auto simp: op_def op_value_def tag_value_def tag_op_def plain_tags_def op_defs Let_def)
  next
    case query
    have "slice (pre @ c # s) (length pre + 7) (length pre + (n - 1)) = Some (take (n - 1 - 7) (drop 7 (c # s)))"
      by (rule slice_mid) (use query(2) m(1) in simp_all)
    then have "slice (pre @ c # s) (length pre + 7) (length pre + n - 1) = Some (drop 6 ?tag)"
      using query(2) by (simp add: drop_take numeral_eq_Suc)
    then show ?thesis
      using query(1) by (simp add: op_def tag_op_def op_value_def tag_value_def op_defs Let_def go_defs)
  next
    case header
    have "slice (pre @ c # s) (length pre + 8) (length pre + (n - 1)) = Some (take (n - 1 - 8) (drop 8 (c # s)))"
      by (rule slice_mid) (use header(2) m(1) in simp_all)
    then have "slice (pre @ c # s) (length pre + 8) (length pre + n - 1) = Some (drop 7 ?tag)"
      using header(2) by (simp add: drop_take numeral_eq_Suc)
    then show ?thesis
      using header(1) by (simp add: op_def tag_op_def op_value_def tag_value_def op_defs Let_def go_defs)
  qed
  then show "op \<noteq> 0"
    and "op_value rc (pre @ c # s) op (length pre) (length pre + n) = Some (tag_value rc ?tag)" by auto
qed

lemma replace_analyzed:
  assumes "lastPos \<le> length pre"
  shows "replace_from rc (pre @ s) lastPos (analyze_from (length pre) s) =
    Some (drop lastPos pre @ interpolated rc s)"
  using assms
proof (induction "length pre" s arbitrary: pre lastPos rule: analyze_from.induct)
  case 1
  then show ?case by (simp add: slice_def)
next
  case (2 c s)
  show ?case
  proof (cases "tag_match (c # s)")
    case None
    then show ?thesis using "2.hyps"(1) [OF None, of "pre @ [c]" lastPos] "2.prems" by simp
  next
    case (Some n)
    note m = tag_matchD(1) [OF Some] and v = op_value_tag [OF Some]
    have n: "2 \<le> n" using tag_matchD(2) [OF Some] by auto
    let ?pre = "pre @ c # take (n - 1) s"
    have "length (take (n - 1) s) = n - 1" using m by (simp only: length_take)
    then have lp: "length ?pre = length pre + n" using n by (simp del: length_take)
    have cat: "?pre @ drop (n - 1) s = pre @ c # s"
      using m n by (auto simp: min_def)
    have "replace_from rc (?pre @ drop (n - 1) s) (length pre + n) (analyze_from (length ?pre) (drop (n - 1) s)) =
        Some (drop (length pre + n) ?pre @ interpolated rc (drop (n - 1) s))"
      by (rule "2.hyps"(2) [OF Some refl]) (simp_all only: lp order_refl)
    then have rest: "replace_from rc (pre @ c # s) (length pre + n) (analyze_from (length pre + n) (drop (n - 1) s)) =
        Some (interpolated rc (drop (n - 1) s))"
      unfolding cat lp using lp by (simp only: drop_all order_refl append_Nil)
    have "slice (pre @ c # s) lastPos (length pre) = Some (drop lastPos pre)"
      using "2.prems" by (simp add: slice_def)
    then show ?thesis using Some v(1) v(2) [of rc pre] rest by (simp add: Let_def)
  qed
qed

text \<open>C39. \<open>Replace\<close> on the operations \<open>Analyze\<close> found is the one-pass substitution; it never slices out of
  range.\<close>

theorem Replace_Analyze: "Replace rc origin (Analyze origin) = Some (interpolated rc origin)"
proof -
  have "replace_from rc origin 0 (Analyze origin) = Some (interpolated rc origin)"
    using replace_analyzed [of 0 "[]" rc origin] by (simp add: Analyze_def)
  then show ?thesis by (auto simp: Replace_def)
qed

lemma tag_match_brace: "tag_match (c # s) = Some n \<Longrightarrow> c = CHR ''{''"
proof -
  assume "tag_match (c # s) = Some n"
  then have "lower_char c = CHR ''{''"
    by (auto simp: tag_match_def plain_match_def keyed_match_def map_filter_def to_lower_def
        plain_tags_def keyed_tags_def split: list.splits if_splits)
  then show ?thesis
    by (auto simp: lower_char_def byte_def split: if_splits dest!: arg_cong [where f = "of_char :: char \<Rightarrow> nat"])
qed

text \<open>A name without a brace has no operations.\<close>

lemma Analyze_plain: "CHR ''{'' \<notin> set s \<Longrightarrow> Analyze s = []"
proof -
  have "CHR ''{'' \<notin> set s \<Longrightarrow> analyze_from pos s = []" for pos
  proof (induction s arbitrary: pos)
    case (Cons c s)
    have "tag_match (c # s) = None" using Cons.prems tag_match_brace by (cases "tag_match (c # s)") auto
    with Cons show ?case by simp
  qed simp
  then show "CHR ''{'' \<notin> set s \<Longrightarrow> Analyze s = []" by (simp add: Analyze_def)
qed

end
