(* ===== verification/Actions.thy ===== *)
theory Actions
  imports Route_Tree Interpolate
begin

text \<open>
  The action tables of a route tree: \<open>getOrCreateActionID\<close> of \<open>internal/rtree/build.go\<close>, which writes
  the name of a service or middleware and the operations of its tags, and \<open>GetActionName\<close> of
  \<open>search.go\<close> with the way \<open>internal/core/proxy\<close> reads \<open>ActionMetadata\<close>.
\<close>

subsection \<open>A pool of encoded values\<close>

text \<open>
  The contract of an append-only pool: a value appended at some offset is read back from that offset,
  whatever stands before it and whatever is appended later.
\<close>

locale pool_codec =
  fixes enc :: "'a \<Rightarrow> 'b list"
    and dec :: "'b list \<Rightarrow> nat \<Rightarrow> 'a option"
    and ok :: "'a \<Rightarrow> bool"
  assumes dec_enc: "ok a \<Longrightarrow> dec (pre @ enc a @ post) (length pre) = Some a"
begin

definition stored :: "'b list \<Rightarrow> nat \<Rightarrow> 'a \<Rightarrow> bool" where
  "stored pool i a \<longleftrightarrow> ok a \<and> (\<exists>pre post. pool = pre @ enc a @ post \<and> i = length pre)"

lemma stored_dec: "stored pool i a \<Longrightarrow> dec pool i = Some a"
  by (auto simp: stored_def dec_enc)

lemma stored_grow:
  assumes "stored pool i a"
  shows "stored (pool @ added) i a"
  using assms by (force simp: stored_def)

lemma stored_new: "ok a \<Longrightarrow> stored (pool @ enc a) (length pool) a"
  by (force simp: stored_def)

lemma stored_unique: "stored pool i a \<Longrightarrow> stored pool i b \<Longrightarrow> a = b"
  by (drule stored_dec)+ simp

end

subsection \<open>Names: a length in base 255 and the bytes\<close>

fun length_bytes :: "nat \<Rightarrow> string" where
  "length_bytes remaining =
     (if remaining < 255 then [char_of remaining] else char_of (255::nat) # length_bytes (remaining - 255))"

declare length_bytes.simps [simp del]

definition action_chunk :: "string \<Rightarrow> string" where
  "action_chunk action = length_bytes (length action) @ action"

text \<open>The loop that adds up the length; \<^const>\<open>None\<close> is an index out of range.\<close>

function read_length :: "string \<Rightarrow> nat \<Rightarrow> nat \<Rightarrow> (nat \<times> nat) option" where
  "read_length registry cur len =
     (if cur < length registry then
        let l = byte (registry ! cur)
        in if l < 255 then Some (cur + 1, len + l) else read_length registry (cur + 1) (len + l)
      else None)"
  by pat_completeness auto
termination
  by (relation "measure (\<lambda>(registry, cur, _). length registry - cur)") auto

declare read_length.simps [simp del]

definition GetActionName :: "string \<Rightarrow> nat \<Rightarrow> string option" where
  "GetActionName registry index =
     (if length registry \<le> index then Some []
      else do {
        (start, len) \<leftarrow> read_length registry index 0;
        if length registry < start + len then Some [] else slice registry start (start + len)
      })"

lemma length_bytes_nonempty [simp]: "length_bytes n \<noteq> []"
  by (subst length_bytes.simps) simp

lemma read_length_bytes:
  "read_length (pre @ length_bytes n @ post) (length pre) len =
     Some (length pre + length (length_bytes n), len + n)"
proof (induction n arbitrary: pre len rule: length_bytes.induct)
  case (1 n)
  show ?case
  proof (cases "n < 255")
    case True
    then show ?thesis
      by (simp add: length_bytes.simps [of n] read_length.simps byte_char_of Let_def)
  next
    case False
    have "byte (char_of (255::nat)) = 255" by (simp add: byte_char_of)
    then show ?thesis
      using False "1.IH" [OF False, of "pre @ [char_of (255::nat)]" "len + 255"]
      by (simp add: length_bytes.simps [of n] read_length.simps [of "pre @ _"] Let_def nth_append)
  qed
qed

interpretation names: pool_codec action_chunk GetActionName "\<lambda>_. True"
proof unfold_locales
  fix a pre post :: string
  let ?r = "pre @ action_chunk a @ post" and ?l = "length_bytes (length a)"
  have "read_length ?r (length pre) 0 = Some (length pre + length ?l, length a)"
    using read_length_bytes [of pre "length a" "a @ post" 0] by (simp add: action_chunk_def)
  moreover have "slice ?r (length pre + length ?l) (length pre + length ?l + length a) = Some a"
    using slice_append_mid [of "pre @ ?l" a post] by (simp add: action_chunk_def)
  moreover have "length pre < length ?r"
    by (simp add: action_chunk_def)
  moreover have "length pre + length ?l + length a \<le> length ?r" by (simp add: action_chunk_def)
  ultimately show "GetActionName ?r (length pre) = Some a"
    unfolding GetActionName_def by (simp add: not_le [symmetric] del: length_append)
qed

subsection \<open>Counted blocks: an action with its operations, a route with its middlewares\<close>

definition counted_block :: "nat \<times> nat list \<Rightarrow> nat list" where
  "counted_block b = fst b # length (snd b) # snd b"

text \<open>How \<open>resolve.go\<close> and \<open>middleware.go\<close> read one: head, count, and the slice after them.\<close>

definition read_block :: "nat list \<Rightarrow> nat \<Rightarrow> (nat \<times> nat list) option" where
  "read_block metadata i = do {
     h \<leftarrow> idx metadata i;
     n \<leftarrow> idx metadata (i + 1);
     xs \<leftarrow> slice metadata (i + 2) (i + 2 + n);
     Some (h, xs)
   }"

interpretation blocks: pool_codec counted_block read_block "\<lambda>_. True"
proof unfold_locales
  fix a :: "nat \<times> nat list" and pre post :: "nat list"
  have "slice (pre @ counted_block a @ post) (length pre + 2) (length pre + 2 + length (snd a)) = Some (snd a)"
    using slice_append_mid [of "pre @ [fst a, length (snd a)]" "snd a" post] by (simp add: counted_block_def)
  then show "read_block (pre @ counted_block a @ post) (length pre) = Some a"
    by (simp add: read_block_def counted_block_def idx_def nth_append)
qed

subsection \<open>\<open>getOrCreateActionID\<close>\<close>

type_synonym action_map = "string \<Rightarrow> nat option"

definition getOrCreateActionID :: "string \<Rightarrow> route_tree \<times> action_map \<Rightarrow> nat \<times> route_tree \<times> action_map" where
  "getOrCreateActionID action s =
     (case s of (t, m) \<Rightarrow>
        (case m action of
           Some actionID \<Rightarrow> (actionID, t, m)
         | None \<Rightarrow>
             (length (ActionMetadata t),
              t\<lparr>ActionsRegistry := ActionsRegistry t @ action_chunk action,
                ActionMetadata := ActionMetadata t @
                  counted_block (length (ActionsRegistry t), Analyze action)\<rparr>,
              m(action \<mapsto> length (ActionMetadata t)))))"

fun action_ids :: "string list \<Rightarrow> route_tree \<times> action_map \<Rightarrow> nat list \<times> route_tree \<times> action_map" where
  "action_ids [] s = ([], s)"
| "action_ids (a # as) s =
     (let (i, s1) = getOrCreateActionID a s; (is, s2) = action_ids as s1 in (i # is, s2))"

text \<open>Reading an action back: its name and its operations.\<close>

definition read_action :: "route_tree \<Rightarrow> nat \<Rightarrow> (string \<times> nat list) option" where
  "read_action t actionID = do {
     (off, ops) \<leftarrow> read_block (ActionMetadata t) actionID;
     name \<leftarrow> GetActionName (ActionsRegistry t) off;
     Some (name, ops)
   }"

definition read_route :: "route_tree \<Rightarrow> nat \<Rightarrow> ((string \<times> nat list) \<times> (string \<times> nat list) list) option" where
  "read_route t actionIndex = do {
     (svcID, mwIDs) \<leftarrow> read_block (ActionMetadata t) actionIndex;
     svc \<leftarrow> read_action t svcID;
     mws \<leftarrow> those (map (read_action t) mwIDs);
     Some (svc, mws)
   }"

text \<open>An action that is stored with its name and the operations of its tags.\<close>

definition action_stored :: "route_tree \<Rightarrow> nat \<Rightarrow> string \<Rightarrow> bool" where
  "action_stored t i action \<longleftrightarrow> (\<exists>off. blocks.stored (ActionMetadata t) i (off, Analyze action) \<and>
     names.stored (ActionsRegistry t) off action)"

definition tables_grow :: "route_tree \<Rightarrow> route_tree \<Rightarrow> bool" where
  "tables_grow t t' \<longleftrightarrow> prefix (ActionMetadata t) (ActionMetadata t') \<and>
     prefix (ActionsRegistry t) (ActionsRegistry t')"

definition map_ok :: "route_tree \<times> action_map \<Rightarrow> bool" where
  "map_ok s \<longleftrightarrow> (\<forall>action i. snd s action = Some i \<longrightarrow> action_stored (fst s) i action)"

lemma tables_grow_refl [simp]: "tables_grow t t"
  by (simp add: tables_grow_def)

lemma tables_grow_trans: "tables_grow t t' \<Longrightarrow> tables_grow t' t'' \<Longrightarrow> tables_grow t t''"
  unfolding tables_grow_def by (auto intro: prefix_order.order_trans)

lemma action_stored_grow: "action_stored t i action \<Longrightarrow> tables_grow t t' \<Longrightarrow> action_stored t' i action"
  unfolding action_stored_def tables_grow_def prefix_def by (metis blocks.stored_grow names.stored_grow)

lemma action_stored_read: "action_stored t i action \<Longrightarrow> read_action t i = Some (action, Analyze action)"
  unfolding action_stored_def read_action_def
  by (auto dest!: blocks.stored_dec names.stored_dec)

lemma map_ok_empty [inv_intros]: "map_ok (t, Map.empty)"
  by (simp add: map_ok_def)

lemma getOrCreateActionID_ok [inv_intros]:
  assumes "map_ok s" and "getOrCreateActionID action s = (i, s')"
  shows "map_ok s' \<and> action_stored (fst s') i action \<and> tables_grow (fst s) (fst s')"
proof (cases "snd s action")
  case (Some k)
  with assms show ?thesis by (auto simp: getOrCreateActionID_def map_ok_def split: prod.splits)
next
  case None
  obtain t m where s: "s = (t, m)" by (cases s)
  have s': "i = length (ActionMetadata t)"
    "fst s' = t\<lparr>ActionsRegistry := ActionsRegistry t @ action_chunk action,
       ActionMetadata := ActionMetadata t @ counted_block (length (ActionsRegistry t), Analyze action)\<rparr>"
    "snd s' = m(action \<mapsto> i)"
    using assms(2) None s by (auto simp: getOrCreateActionID_def)
  have grow: "tables_grow t (fst s')" by (simp add: s'(2) tables_grow_def)
  have new: "action_stored (fst s') i action"
    unfolding action_stored_def s'(1,2)
    by (intro exI [of _ "length (ActionsRegistry t)"])
      (simp add: blocks.stored_new names.stored_new)
  show ?thesis
    using assms(1) new action_stored_grow [OF _ grow] grow by (auto simp: map_ok_def s s'(3))
qed

lemma action_ids_ok [inv_intros]:
  "map_ok s \<Longrightarrow> action_ids as s = (is, s') \<Longrightarrow>
     map_ok s' \<and> list_all2 (action_stored (fst s')) is as \<and> tables_grow (fst s) (fst s')"
proof (induction as arbitrary: s "is" s')
  case (Cons a as)
  obtain i s1 where s1: "getOrCreateActionID a s = (i, s1)" by (metis surj_pair)
  obtain js s2 where s2: "action_ids as s1 = (js, s2)" by (metis surj_pair)
  from Cons.prems(2) s1 s2 have "is = i # js" "s' = s2" by auto
  with getOrCreateActionID_ok [OF Cons.prems(1) s1] Cons.IH [OF _ s2] show ?case
    by (blast intro: action_stored_grow tables_grow_trans list_all2_Cons [THEN iffD2])
qed simp

text \<open>C38. \<open>GetActionName\<close> reads back every name \<open>getOrCreateActionID\<close> writes, of any length, and keeps
  reading it as the registry grows.\<close>

theorem action_name_roundtrip:
  "GetActionName (registry @ action_chunk action @ later) (length registry) = Some action"
  by (rule names.dec_enc) simp

end
