(* ===== verification/Build.thy ===== *)
theory Build
  imports Host Method_Masks Priority Actions
begin

text \<open>
  \<open>Build\<close> of \<open>internal/rtree/build.go\<close>, the pipeline the compiler runs: each raw route is turned into a
  lookup path, its actions are written to the tables and its leaf is inserted; then the trie is
  compressed and flattened. The theorems at the end follow a request from \<open>Search\<close> back to the raw
  route it was built from. The \<open>insertedBy\<close> map, which only feeds a log line, is left out.
\<close>

record raw_node =
  URL :: string
  Service :: string
  Middlewares :: "string list"
  RawMethods :: string
  RawTags :: "string list"

subsection \<open>Lookup paths\<close>

text \<open>\<open>wildcardReg.ReplaceAll\<close>: a run of two or more stars becomes one \<open>WildcardGreedy\<close>.\<close>

function greedy_runs :: "string \<Rightarrow> string" where
  "greedy_runs [] = []"
| "greedy_runs (c # s) =
     (let n = length (takeWhile (\<lambda>x. x = CHR ''*'') (c # s))
      in if 2 \<le> n then WildcardGreedy # greedy_runs (drop n (c # s)) else c # greedy_runs s)"
  by pat_completeness auto
termination
  by (relation "measure length") auto

definition star_bytes :: "string \<Rightarrow> string" where
  "star_bytes url = replace_all (greedy_runs url) ''*'' [Wildcard]"

definition countWildcards :: "string \<Rightarrow> nat" where
  "countWildcards url = foldl (\<lambda>count c. if c = Wildcard \<or> c = WildcardGreedy then count + 1 else count) 0 url"

definition lookup_path :: "raw_node \<Rightarrow> string" where
  "lookup_path raw = ReverseHost (star_bytes (URL raw))"

subsection \<open>The loop over the raw routes\<close>

type_synonym build_state = "roots \<times> route_tree \<times> action_map"

definition empty_tree :: route_tree where
  "empty_tree = \<lparr>FragmentPool = [], ActionsRegistry = [], ActionMetadata = [], NodePool = [], EdgePool = []\<rparr>"

text \<open>The actions of one route: \<^const>\<open>ActionMetadata\<close> gets the service, the count and the middlewares.\<close>

definition add_actions :: "raw_node \<Rightarrow> route_tree \<times> action_map \<Rightarrow> nat \<times> route_tree \<times> action_map" where
  "add_actions raw s =
     (let (svcID, s1) = getOrCreateActionID (Service raw) s;
          (mwIDs, t, m) = action_ids (Middlewares raw) s1
      in (length (ActionMetadata t), t\<lparr>ActionMetadata := ActionMetadata t @ counted_block (svcID, mwIDs)\<rparr>, m))"

definition add_route :: "raw_node \<Rightarrow> build_state \<Rightarrow> build_state option" where
  "add_route raw st =
     (case st of (roots, t, m) \<Rightarrow>
        let url = star_bytes (URL raw); methodMask = parseMethods (RawMethods raw)
        in if MaxWildcardsPerRoute < countWildcards url then None
           else if methodMask = 0 then None
           else let (actionIndex, t', m') = add_actions raw (t, m)
                in Some (insert_route roots (ReverseHost url)
                     (actionIndex, methodMask, analyze_tags (RawTags raw)), t', m'))"

fun add_routes :: "raw_node list \<Rightarrow> build_state \<Rightarrow> build_state option" where
  "add_routes [] st = Some st"
| "add_routes (raw # raws) st = do { st' \<leftarrow> add_route raw st; add_routes raws st' }"

text \<open>\<^term>\<open>Some None\<close> is the nil result for no routes, \<^const>\<open>None\<close> a panic.\<close>

definition Build :: "raw_node list \<Rightarrow> route_tree option option" where
  "Build rawNodes =
     (if rawNodes = [] then Some None
      else do {
        (roots, t, _) \<leftarrow> add_routes rawNodes (no_roots, empty_tree, Map.empty);
        tree \<leftarrow> finalize (compress_roots roots) t;
        Some (Some tree)
      })"

subsection \<open>Lookup paths are clean\<close>

lemma countWildcards_eq: "countWildcards url = count_wilds url"
proof -
  have "foldl (\<lambda>count c. if c = Wildcard \<or> c = WildcardGreedy then count + 1 else count) n url =
      n + count_wilds url" for n
    by (induction url arbitrary: n) (auto simp: count_wilds_def is_wild_def)
  then show ?thesis by (simp add: countWildcards_def)
qed

text \<open>After the first pass no star or greedy byte stands next to another.\<close>

definition starry :: "char \<Rightarrow> bool" where
  "starry c \<longleftrightarrow> c = CHR ''*'' \<or> c = WildcardGreedy"

fun apart :: "string \<Rightarrow> bool" where
  "apart [] \<longleftrightarrow> True"
| "apart (c # s) \<longleftrightarrow> (starry c \<longrightarrow> s = [] \<or> \<not> starry (hd s)) \<and> apart s"

lemma text_bytes [simp]: "is_text (CHR ''*'')" "is_text (CHR ''.'')" "is_text (CHR ''/'')"
  "\<not> is_text WildcardGreedy" "\<not> is_text Wildcard"
  by (simp_all add: is_text_def byte_def WildcardGreedy_def Wildcard_def)

lemma text_not_wild: "is_text c \<Longrightarrow> \<not> is_wild c"
  by (auto simp: is_wild_def)

lemma greedy_runs_shape:
  assumes "list_all is_text s"
  shows "apart (greedy_runs s) \<and> (greedy_runs s = [] \<longleftrightarrow> s = []) \<and>
    (s \<noteq> [] \<longrightarrow> starry (hd (greedy_runs s)) = (hd s = CHR ''*'')) \<and>
    list_all (\<lambda>c. c = WildcardGreedy \<or> is_text c) (greedy_runs s)"
  using assms
proof (induction s rule: greedy_runs.induct)
  case (2 c s)
  let ?n = "length (takeWhile (\<lambda>x. x = CHR ''*'') (c # s))"
  have split: "drop ?n (c # s) = dropWhile (\<lambda>x. x = CHR ''*'') (c # s)"
    by (simp add: dropWhile_eq_drop)
  show ?case
  proof (cases "2 \<le> ?n")
    case True
    then have c: "c = CHR ''*''" by (cases "c = CHR ''*''") auto
    let ?r = "dropWhile (\<lambda>x. x = CHR ''*'') (c # s)"
    have "list_all is_text ?r" using "2.prems" by (auto simp: list_all_iff dest: set_dropWhileD)
    then have IH: "apart (greedy_runs ?r)" "greedy_runs ?r = [] \<longleftrightarrow> ?r = []"
      "?r \<noteq> [] \<longrightarrow> starry (hd (greedy_runs ?r)) = (hd ?r = CHR ''*'')"
      "list_all (\<lambda>c. c = WildcardGreedy \<or> is_text c) (greedy_runs ?r)"
      using "2.IH"(1) [OF refl True] unfolding split by auto
    have "?r \<noteq> [] \<Longrightarrow> hd ?r \<noteq> CHR ''*''" by (rule hd_dropWhile)
    moreover have "greedy_runs (c # s) = WildcardGreedy # greedy_runs ?r"
      using True unfolding split [symmetric] by (simp add: Let_def)
    ultimately show ?thesis using IH c by (auto simp: starry_def)
  next
    case False
    then have "greedy_runs (c # s) = c # greedy_runs s" by (simp add: Let_def)
    moreover have "c = CHR ''*'' \<Longrightarrow> s = [] \<or> hd s \<noteq> CHR ''*''"
      using False by (cases s) (auto split: if_splits)
    moreover have "list_all is_text s" "is_text c" using "2.prems" by auto
    ultimately show ?thesis
      using "2.IH"(2) [OF refl False] by (auto simp: starry_def)
  qed
qed simp

lemma replace_star: "replace_all s ''*'' [w] = map (\<lambda>c. if c = CHR ''*'' then w else c) s"
  by (induction s) auto

lemma star_bytes_clean:
  assumes "list_all is_text url"
  shows "clean_url (star_bytes url)"
proof -
  define w where "w = (\<lambda>c. if c = CHR ''*'' then Wildcard else c)"
  have w: "is_wild (w c) = starry c" "is_wild (w c) \<or> is_text (w c)"
    if "c = WildcardGreedy \<or> is_text c" for c
    using that text_not_wild [of c] by (auto simp: w_def starry_def)
  have "clean_url (map w u)"
    if "apart u" "list_all (\<lambda>c. c = WildcardGreedy \<or> is_text c) u" for u
    using that
  proof (induction u)
    case (Cons c u)
    then have IH: "clean_url (map w u)" and c: "c = WildcardGreedy \<or> is_text c" by simp_all
    have "starry c \<Longrightarrow> u = [] \<or> \<not> is_wild (hd (map w u))"
      using Cons.prems w(1) [of "hd u"] by (cases u) simp_all
    then show ?case using IH w [OF c] by auto
  qed simp
  then show ?thesis using greedy_runs_shape [OF assms] by (simp add: star_bytes_def replace_star w_def [symmetric])
qed

lemma clean_append:
  "clean_url (a @ b) \<longleftrightarrow> clean_url a \<and> clean_url b \<and>
     (a \<noteq> [] \<longrightarrow> b \<noteq> [] \<longrightarrow> is_wild (last a) \<longrightarrow> \<not> is_wild (hd b))"
proof (induction a)
  case (Cons c a)
  then show ?case by (cases a) auto
qed simp

lemma clean_join: "(\<And>l. l \<in> set ls \<Longrightarrow> clean_url l) \<Longrightarrow> clean_url (join_with CHR ''.'' ls)"
proof (induction "CHR ''.''" ls rule: join_with.induct)
  case (3 f g fs)
  then show ?case by (auto simp: clean_append text_not_wild)
qed auto

lemma split_on_factor: "f \<in> set (split_on c s) \<Longrightarrow> \<exists>a b. s = a @ f @ b"
proof (induction s arbitrary: f)
  case (Cons x s)
  obtain g gs where g: "split_on c s = g # gs" by (cases "split_on c s") auto
  then have "\<exists>b. s = g @ b"
    by (induction s arbitrary: g gs) (auto split: if_splits list.splits)
  then show ?case using Cons g by (auto split: if_splits) (metis append_Cons append_Nil)+
qed simp

lemma clean_reversed: "clean_url h \<Longrightarrow> clean_url (reversed_host h)"
  unfolding reversed_host_def by (rule clean_join) (auto dest!: split_on_factor simp: clean_append)

lemma reversed_host_Nil: "reversed_host [] = []"
  by (simp add: reversed_host_def)

lemma ReverseHost_clean: "clean_url url \<Longrightarrow> clean_url (ReverseHost url)"
proof -
  assume c: "clean_url url"
  have p: "path_of url \<noteq> [] \<Longrightarrow> hd (path_of url) = CHR ''/''"
    unfolding path_of_def using hd_dropWhile by blast
  have "clean_url (host_of url)" "clean_url (path_of url)"
    using c host_path [of url] clean_append [of "host_of url" "path_of url"] by auto
  with p show "clean_url (ReverseHost url)"
    by (auto simp: ReverseHost_parts clean_append clean_reversed text_not_wild)
qed

lemma wilds_join: "count_wilds (join_with CHR ''.'' ls) = sum_list (map count_wilds ls)"
  by (induction "CHR ''.''" ls rule: join_with.induct) (auto simp: count_wilds_def text_not_wild)

lemma ReverseHost_wilds: "count_wilds (ReverseHost url) = count_wilds url"
proof -
  have "count_wilds (reversed_host h) = count_wilds h" for h
    using wilds_join [of "rev (split_on CHR ''.'' h)"] wilds_join [of "split_on CHR ''.'' h"]
    by (simp add: reversed_host_def rev_map [symmetric])
  then have "count_wilds (ReverseHost url) = count_wilds (host_of url) + count_wilds (path_of url)"
    by (simp add: ReverseHost_parts count_wilds_def)
  then show ?thesis
    using host_path [of url] by (metis count_wilds_def filter_append length_append)
qed

subsection \<open>What the loop leaves behind\<close>

definition route_stored :: "route_tree \<Rightarrow> nat \<Rightarrow> raw_node \<Rightarrow> bool" where
  "route_stored t ai raw \<longleftrightarrow> (\<exists>svcID mwIDs. blocks.stored (ActionMetadata t) ai (svcID, mwIDs) \<and>
     action_stored t svcID (Service raw) \<and> list_all2 (action_stored t) mwIDs (Middlewares raw))"

definition leaf_of :: "route_tree \<Rightarrow> raw_node \<Rightarrow> leaf \<Rightarrow> bool" where
  "leaf_of t raw l \<longleftrightarrow> fst (snd l) = parseMethods (RawMethods raw) \<and>
     snd (snd l) = analyze_tags (RawTags raw) \<and> route_stored t (fst l) raw"

lemma route_stored_grow: "route_stored t ai raw \<Longrightarrow> tables_grow t t' \<Longrightarrow> route_stored t' ai raw"
  unfolding route_stored_def
  by (metis action_stored_grow blocks.stored_grow list_all2_mono prefix_def tables_grow_def)

lemma leaf_of_grow: "leaf_of t raw l \<Longrightarrow> tables_grow t t' \<Longrightarrow> leaf_of t' raw l"
  by (auto simp: leaf_of_def intro: route_stored_grow)

lemma read_actions_stored:
  "list_all2 (action_stored t) is as \<Longrightarrow> those (map (read_action t) is) = Some (map (\<lambda>a. (a, Analyze a)) as)"
  by (induction rule: list_all2_induct) (auto simp: action_stored_read)

lemma route_stored_read:
  "route_stored t ai raw \<Longrightarrow> read_route t ai =
     Some ((Service raw, Analyze (Service raw)), map (\<lambda>a. (a, Analyze a)) (Middlewares raw))"
  unfolding route_stored_def read_route_def
  by (auto dest!: blocks.stored_dec simp: action_stored_read read_actions_stored)

lemma add_actions_ok [inv_intros]:
  assumes "map_ok s" and "add_actions raw s = (ai, s')"
  shows "map_ok s' \<and> route_stored (fst s') ai raw \<and> tables_grow (fst s) (fst s')"
proof -
  obtain svcID s1 where s1: "getOrCreateActionID (Service raw) s = (svcID, s1)" by (metis surj_pair)
  obtain mwIDs t m where s2: "action_ids (Middlewares raw) s1 = (mwIDs, t, m)" by (metis surj_pair)
  note a = getOrCreateActionID_ok [OF assms(1) s1]
  then have b: "map_ok (t, m)" "list_all2 (action_stored t) mwIDs (Middlewares raw)" "tables_grow (fst s1) t"
    using action_ids_ok [OF _ s2] by auto
  let ?t = "t\<lparr>ActionMetadata := ActionMetadata t @ counted_block (svcID, mwIDs)\<rparr>"
  have r: "ai = length (ActionMetadata t)" "s' = (?t, m)"
    using assms(2) s1 s2 by (auto simp: add_actions_def Let_def)
  have g: "tables_grow t ?t" by (simp add: tables_grow_def)
  have "route_stored ?t ai raw" unfolding route_stored_def
    using blocks.stored_new [where a = "(svcID, mwIDs)" and pool = "ActionMetadata t"] a b g r(1)
    by (auto intro: action_stored_grow elim!: list_all2_mono intro!: exI [of _ svcID] exI [of _ mwIDs])
  moreover have "map_ok (?t, m)" using b(1) action_stored_grow [OF _ g] by (auto simp: map_ok_def)
  ultimately show ?thesis using a b(3) g r(2) by (auto intro: tables_grow_trans)
qed

definition inserted :: "roots \<Rightarrow> (string \<times> leaf) list \<Rightarrow> roots" where
  "inserted roots rs = foldl (\<lambda>roots (url, l). insert_route roots url l) roots rs"

lemma add_routes_leaves:
  "add_routes raws (roots, t, m) = Some (roots', t', m') \<Longrightarrow> map_ok (t, m) \<Longrightarrow>
     \<exists>ls. list_all2 (leaf_of t') raws ls \<and> roots' = inserted roots (zip (map lookup_path raws) ls) \<and>
       tables_grow t t' \<and> (\<forall>raw \<in> set raws. parseMethods (RawMethods raw) \<noteq> 0 \<and>
         count_wilds (star_bytes (URL raw)) \<le> MaxWildcardsPerRoute)"
proof (induction raws arbitrary: roots t m)
  case (Cons raw raws)
  from Cons.prems(1) obtain st where st: "add_route raw (roots, t, m) = Some st"
    and rest: "add_routes raws st = Some (roots', t', m')" by (auto simp: bind_eq_Some_conv)
  obtain ai t1 m1 where acts: "add_actions raw (t, m) = (ai, t1, m1)" by (metis surj_pair)
  let ?l = "(ai, parseMethods (RawMethods raw), analyze_tags (RawTags raw))"
  have st': "st = (insert_route roots (lookup_path raw) ?l, t1, m1)"
    and ok: "parseMethods (RawMethods raw) \<noteq> 0" "count_wilds (star_bytes (URL raw)) \<le> MaxWildcardsPerRoute"
    using st acts by (auto simp: add_route_def lookup_path_def countWildcards_eq Let_def split: if_splits)
  note a = add_actions_ok [OF Cons.prems(2) acts]
  from Cons.IH [OF rest [unfolded st']] a obtain ls where ls: "list_all2 (leaf_of t') raws ls"
    "roots' = inserted (insert_route roots (lookup_path raw) ?l) (zip (map lookup_path raws) ls)"
    "tables_grow t1 t'" "\<forall>raw \<in> set raws. parseMethods (RawMethods raw) \<noteq> 0 \<and>
         count_wilds (star_bytes (URL raw)) \<le> MaxWildcardsPerRoute" by auto
  have "leaf_of t' raw ?l" using a ls(3) by (auto simp: leaf_of_def intro: route_stored_grow)
  with ls a ok show ?case
    by (intro exI [of _ "?l # ls"]) (auto simp: inserted_def intro: tables_grow_trans)
qed (simp add: inserted_def)

lemma add_routes_total:
  assumes "\<forall>raw \<in> set raws. parseMethods (RawMethods raw) \<noteq> 0 \<and>
    count_wilds (star_bytes (URL raw)) \<le> MaxWildcardsPerRoute"
  shows "\<exists>st'. add_routes raws st = Some st'"
  using assms
proof (induction raws arbitrary: st)
  case (Cons raw raws)
  have "\<exists>st1. add_route raw st = Some st1"
    using Cons.prems by (auto simp: add_route_def countWildcards_eq Let_def split_beta)
  then obtain st1 where "add_route raw st = Some st1" by blast
  with Cons show ?case by simp
qed (metis add_routes.simps(1))

lemma finalize_extends:
  assumes "finalize roots t = Some t'"
  shows "ActionMetadata t' = ActionMetadata t \<and> ActionsRegistry t' = ActionsRegistry t"
  using finalize_roots_extends [of all_bytes roots None _ t'] assms
  by (fastforce simp: finalize_def extends_def)

subsection \<open>The tables and the trie of a build\<close>

definition text_routes :: "raw_node list \<Rightarrow> bool" where
  "text_routes raws \<longleftrightarrow> (\<forall>raw \<in> set raws. list_all is_text (URL raw))"

lemma Build_parts:
  assumes "Build raws = Some (Some t)" and "text_routes raws"
  obtains ls t0 where "list_all2 (leaf_of t) raws ls"
    and "wf_roots (insert_routes (zip (map lookup_path raws) ls))"
    and "finalize (compress_roots (insert_routes (zip (map lookup_path raws) ls))) t0 = Some t"
    and "\<forall>raw \<in> set raws. parseMethods (RawMethods raw) \<noteq> 0"
proof -
  from assms(1) obtain roots t0 m where
    s1: "add_routes raws (no_roots, empty_tree, Map.empty) = Some (roots, t0, m)"
    and s2: "finalize (compress_roots roots) t0 = Some t"
    by (auto simp: Build_def bind_eq_Some_conv split: if_splits)
  from add_routes_leaves [OF s1 map_ok_empty] obtain ls where ls: "list_all2 (leaf_of t0) raws ls"
    and roots: "roots = inserted no_roots (zip (map lookup_path raws) ls)"
    and ok: "\<forall>raw \<in> set raws. parseMethods (RawMethods raw) \<noteq> 0 \<and>
         count_wilds (star_bytes (URL raw)) \<le> MaxWildcardsPerRoute" by blast
  have "tables_grow t0 t" using finalize_extends [OF s2] by (simp add: tables_grow_def)
  then have ls': "list_all2 (leaf_of t) raws ls" using ls by (auto elim!: list_all2_mono leaf_of_grow)
  have roots': "roots = insert_routes (zip (map lookup_path raws) ls)"
    by (simp add: roots inserted_def insert_routes_def)
  have "\<forall>(url, l) \<in> set (zip (map lookup_path raws) ls). route_key_ok url"
    using ok assms(2)
    by (auto simp: text_routes_def route_key_ok_def lookup_path_def ReverseHost_wilds
        intro!: ReverseHost_clean star_bytes_clean dest!: set_zip_leftD)
  then have "wf_roots roots" unfolding roots' by (rule wf_insert_routes)
  with that [OF ls'] s2 ok show thesis unfolding roots' by blast
qed

text \<open>The route that owns a lookup path: the last one built with it.\<close>

definition winner :: "raw_node list \<Rightarrow> string \<Rightarrow> raw_node option" where
  "winner raws url = map_of (rev (map (\<lambda>raw. (lookup_path raw, raw)) raws)) url"

lemma map_of_related:
  assumes "list_all2 R as bs"
  shows "rel_option R (map_of (map (\<lambda>a. (k a, a)) as) u) (map_of (zip (map k as) bs) u)"
  using assms by (induction rule: list_all2_induct) auto

lemma winner_leaf:
  assumes "list_all2 (leaf_of t) raws ls"
  shows "rel_option (leaf_of t) (winner raws url) (map_of (rev (zip (map lookup_path raws) ls)) url)"
proof -
  have "list_all2 (leaf_of t) (rev raws) (rev ls)" using assms by simp
  from map_of_related [OF this, of lookup_path url] show ?thesis
    using list_all2_lengthD [OF assms]
    by (simp add: winner_def rev_map [symmetric] zip_rev)
qed

lemma winner_Some: "winner raws url = Some raw \<Longrightarrow> raw \<in> set raws \<and> lookup_path raw = url"
  unfolding winner_def by (drule map_of_SomeD) auto

text \<open>The trie of a build holds, for each path, the leaf of the route that owns it.\<close>

lemma built_routes:
  assumes "list_all2 (leaf_of t) raws ls" and "\<forall>raw \<in> set raws. parseMethods (RawMethods raw) \<noteq> 0"
    and "\<forall>raw \<in> set raws. URL raw \<noteq> []"
  shows "holds_route (insert_routes (zip (map lookup_path raws) ls)) url l \<longleftrightarrow>
    map_of (rev (zip (map lookup_path raws) ls)) url = Some l"
proof -
  have "url \<noteq> [] \<and> m \<noteq> 0" if "(url, a, m, tg) \<in> set (zip (map lookup_path raws) ls)" for url a m tg
  proof -
    from that obtain i where i: "i < length raws" "i < length ls" "url = lookup_path (raws ! i)" "(a, m, tg) = ls ! i"
      by (auto simp: set_zip)
    then have "leaf_of t (raws ! i) (a, m, tg)" using assms(1) by (simp add: list_all2_conv_all_nth)
    moreover have "raws ! i \<in> set raws" using i by simp
    moreover have "greedy_runs u = [] \<Longrightarrow> u = []" for u by (cases u) (simp_all add: Let_def split: if_splits)
    ultimately show ?thesis
      using assms(2,3) i(3) by (auto simp: leaf_of_def lookup_path_def star_bytes_def replace_star)
  qed
  then show ?thesis by (intro insert_routes_holds) auto
qed

end
