(* ===== verification/Pool_Size.thy ===== *)
theory Pool_Size
  imports Build
begin

text \<open>
  The size of the edge pool. \<open>EdgeOffset\<close> is a \<open>uint16\<close>, and \<open>flattenNode\<close> cuts the length of the pool
  to it without a check; a pool within 65536 edges is what the search needs. Every byte of a lookup
  path makes at most one trie edge, and every trie edge at most three pool edges: itself, the graft of
  its node and the graft of its accept clone.
\<close>

fun size_edge :: "build_edge \<Rightarrow> nat"
and size_node :: "build_node \<Rightarrow> nat"
and size_edges :: "build_edge list \<Rightarrow> nat" where
  "size_edge (BuildEdge f n) = Suc (size_node n)"
| "size_node (BuildNode es a m t) = size_edges es"
| "size_edges [] = 0"
| "size_edges (e # es) = size_edge e + size_edges es"

definition size_roots :: "char list \<Rightarrow> roots \<Rightarrow> nat" where
  "size_roots cs roots = sum_list (map (\<lambda>c. case roots c of None \<Rightarrow> 0 | Some e \<Rightarrow> size_edge e) cs)"

lemma size_edge_eq: "size_edge e = Suc (size_node (Node e))"
  by (cases e) simp

lemma size_node_eq: "size_node n = size_edges (Edges n)"
  by (cases n) simp

lemma size_edges_sum: "size_edges es = sum_list (map size_edge es)"
  by (induction es) auto

lemma size_edges_sort [simp]: "size_edges (sort_key edge_class es) = size_edges es"
  by (simp add: size_edges_sum) (metis mset_map mset_sort sum_mset_sum_list)

subsection \<open>Inserting and compressing\<close>

lemma size_follow_edge:
  assumes "\<And>n. size_node (f n) \<le> size_node n + k"
  shows "size_edges (follow_edge c f es) \<le> size_edges es + Suc k"
proof (induction es)
  case Nil
  show ?case using assms [of new_build_node] by (simp add: new_build_node_def)
next
  case (Cons e es)
  then show ?case using assms [of "Node e"] by (cases e) auto
qed

lemma size_insert_below: "size_node (insert_below url l n) \<le> size_node n + length url"
proof (induction url arbitrary: n)
  case Nil
  show ?case by (cases l; cases n) simp
next
  case (Cons c url)
  have "size_edges (follow_edge c (insert_below url l) (Edges n)) \<le> size_edges (Edges n) + Suc (length url)"
    by (rule size_follow_edge) (rule Cons.IH)
  then show ?case by (simp add: size_node_eq)
qed

lemma size_insert_route:
  assumes "distinct cs"
  shows "size_roots cs (insert_route roots url l) \<le> size_roots cs roots + length url"
proof (cases url)
  case Nil
  then show ?thesis by (simp add: insert_route_def)
next
  case (Cons c rest)
  define e where "e = (case roots c of Some e \<Rightarrow> e | None \<Rightarrow> BuildEdge [c] new_build_node)"
  let ?e = "BuildEdge (Fragment e) (insert_below rest l (Node e))"
  have r: "insert_route roots url l = roots(c \<mapsto> ?e)"
    by (simp add: insert_route_def Cons e_def Let_def)
  have new: "size_edge ?e \<le> (case roots c of None \<Rightarrow> 0 | Some e \<Rightarrow> size_edge e) + length url"
    using size_insert_below [of rest l "Node e"]
    by (auto simp: e_def Cons new_build_node_def size_edge_eq split: option.splits)
  show ?thesis using assms unfolding r
  proof (induction cs)
    case (Cons b cs)
    show ?case
    proof (cases "b = c")
      case True
      then have "size_roots cs (roots(c \<mapsto> ?e)) = size_roots cs roots"
        using Cons.prems by (auto simp: size_roots_def intro!: arg_cong [where f = sum_list] map_cong)
      then show ?thesis using True new by (simp add: size_roots_def)
    next
      case False
      then show ?thesis using Cons by (simp add: size_roots_def)
    qed
  qed (simp add: size_roots_def)
qed

lemma size_insert_routes:
  assumes "distinct cs"
  shows "size_roots cs (insert_routes rs) \<le> sum_list (map (\<lambda>(url, l). length url) rs)"
proof -
  have "size_roots cs (foldl (\<lambda>roots (url, l). insert_route roots url l) roots rs) \<le>
      size_roots cs roots + sum_list (map (\<lambda>(url, l). length url) rs)" for roots
  proof (induction rs arbitrary: roots)
    case (Cons r rs)
    obtain url l where "r = (url, l)" by (cases r)
    then show ?case
      using Cons.IH [of "insert_route roots url l"] size_insert_route [OF assms, of roots url l] by simp
  qed simp
  moreover have "size_roots cs no_roots = 0" by (simp add: size_roots_def no_roots_def)
  ultimately show ?thesis unfolding insert_routes_def by (metis add_0)
qed

lemma size_compress:
  "size_edge (fst (compress_edge e)) \<le> size_edge e"
  "size_edges (fst (compress_each es)) \<le> size_edges es"
proof (induction e and es rule: compress_edge_compress_each.induct)
  case (2 f e a m t)
  then show ?case by (auto simp: split_beta size_edge_eq)
next
  case (3 f e e' es a m t)
  then show ?case by (simp add: split_beta del: compress_each.simps size_edges.simps)
qed (simp_all add: split_beta)

lemma size_compress_roots: "size_roots cs (compress_roots roots) \<le> size_roots cs roots"
proof (induction cs)
  case (Cons c cs)
  have "size_edge (BuildEdge (Fragment e) (fst (compress_node (Node e)))) \<le> size_edge e" for e
    using size_compress(2) [of "Edges (Node e)"]
    by (simp add: compress_node_def split_beta size_edge_eq size_node_eq)
  then have "(case compress_roots roots c of None \<Rightarrow> 0 | Some e \<Rightarrow> size_edge e) \<le>
      (case roots c of None \<Rightarrow> 0 | Some e \<Rightarrow> size_edge e)"
    by (simp add: compress_roots_def split: option.split)
  with Cons show ?case by (simp only: size_roots_def list.map sum_list.Cons add_mono)
qed (simp add: size_roots_def)

subsection \<open>Flattening\<close>

lemma graft_edges_length: "graft_edges fb = Some es \<Longrightarrow> length es \<le> 1"
  by (auto simp: graft_edges_def split: option.splits)

lemma accept_clone_length:
  "accept_clone c l own d t = Some (g, t') \<Longrightarrow> length (EdgePool t') \<le> length (EdgePool t) + 1"
  by (auto simp: accept_clone_def bind_eq_Some_conv append_node_def dest: graft_edges_length)

lemma flatten_length:
  "flatten_edge be inh d t = Some (e, t') \<Longrightarrow> length (EdgePool t') + 1 \<le> length (EdgePool t) + 3 * size_edge be"
  "flatten_children es fb d t = Some (edges, fb', t') \<Longrightarrow>
     length (EdgePool t') + length edges \<le> length (EdgePool t) + 3 * size_edges es"
proof (induction be inh d t and es fb d t arbitrary: e t' and edges fb' t'
    rule: flatten_edge_flatten_children.induct)
  case (1 f es a m tg inh d t)
  from "1.prems" obtain own u edges fb u2 own' where
    s1: "(if is_wild (hd f) \<and> m \<noteq> 0 \<and> es \<noteq> []
      then accept_clone (hd f) (a, m, tg) (map_option (through f d) inh) d t
      else Some (map_option (through f d) inh, t)) = Some (own, u)"
    and s2: "flatten_children es own d u = Some (edges, fb, u2)"
    and s3: "graft_edges own = Some own'"
    and s4: "finish_node f (a, m, tg) (edges @ own') u2 = (e, t')" by (elim flatten_edgeE)
  have "length (EdgePool u) \<le> length (EdgePool t) + 1"
    using s1 by (auto split: if_splits dest: accept_clone_length)
  moreover have "length (EdgePool u2) + length edges \<le> length (EdgePool u) + 3 * size_edges es"
    by (rule "1.IH" [OF refl s1 refl s2])
  moreover have "length (EdgePool t') = length (EdgePool u2) + length edges + length own'"
    using s4 by (auto simp: finish_node_def append_node_def Let_def split: if_splits)
  moreover have "length own' \<le> 1" by (rule graft_edges_length [OF s3])
  ultimately show ?case by simp
next
  case (3 child es fb d t)
  from "3.prems" obtain edges' fb1 u e where
    s1: "flatten_children es fb d t = Some (edges', fb1, u)"
    and s2: "flatten_edge child fb1 (if wild_edge child then d + 1 else d) u = Some (e, t')"
    and r: "edges = e # edges'" by (elim flatten_childrenE)
  from "3.IH"(1) [OF s1] "3.IH"(2) [OF s1 refl refl s2] r show ?case by simp
qed simp

lemma finalize_roots_length:
  "finalize_roots cs roots fb t = Some t' \<Longrightarrow>
     length (EdgePool t') \<le> length (EdgePool t) + 3 * size_roots cs roots"
proof (induction cs arbitrary: fb t)
  case (Cons c cs)
  show ?case
  proof (cases "roots c")
    case None
    with Cons show ?thesis by (simp add: size_roots_def)
  next
    case (Some be)
    then obtain e u where s1: "flatten_edge be fb (if wild_edge be then 1 else 0) t = Some (e, u)"
      and s2: "finalize_roots cs roots (if wild_edge be then Some (graft_to e) else fb)
          (u\<lparr>EdgePool := (EdgePool u)[byte c := e]\<rparr>) = Some t'"
      using Cons.prems by (auto simp: bind_eq_Some_conv)
    from Cons.IH [OF s2] flatten_length(1) [OF s1] Some show ?thesis by (simp add: size_roots_def)
  qed
qed (simp add: size_roots_def)

lemma finalize_fits:
  assumes "finalize roots t0 = Some t" and "size_roots all_bytes roots \<le> 21760"
  shows "fits t"
  using assms finalize_roots_length [of all_bytes roots None _ t]
  by (fastforce simp: finalize_def fits_def)

lemma insert_routes_size:
  "size_roots all_bytes (insert_routes rs) \<le> sum_list (map (\<lambda>(url, l). length url) rs)"
proof -
  obtain rest where "distinct all_bytes" by (rule all_bytes_split)
  then show ?thesis by (rule size_insert_routes)
qed

subsection \<open>The whole build\<close>

lemma length_star_bytes: "length (star_bytes url) \<le> length url"
proof -
  have "length (greedy_runs url) \<le> length url"
    by (induction url rule: greedy_runs.induct) (auto simp: Let_def)
  then show ?thesis by (simp add: star_bytes_def replace_star)
qed

lemma length_lookup_path: "length (lookup_path raw) \<le> length (URL raw)"
proof -
  have join: "length (join_with c ls) + 1 = sum_list (map length ls) + length ls" if "ls \<noteq> []" for ls :: "string list" and c
    using that by (induction c ls rule: join_with.induct) auto
  have "length (reversed_host h) = length h" for h
    using join [of "rev (split_on CHR ''.'' h)" "CHR ''.''"] join [of "split_on CHR ''.'' h" "CHR ''.''"]
    by (simp add: reversed_host_def rev_map [symmetric])
  moreover have "length (host_of u) + length (path_of u) = length u" for u
    by (metis host_path length_append)
  ultimately have "length (ReverseHost u) = length u" for u
    by (simp add: ReverseHost_parts)
  then show ?thesis by (simp add: lookup_path_def length_star_bytes)
qed

lemma built_fits:
  assumes "Build raws = Some (Some t)" and "sum_list (map (\<lambda>raw. length (URL raw)) raws) \<le> 21760"
  shows "fits t"
proof -
  from assms(1) obtain roots t0 m where
    s1: "add_routes raws (no_roots, empty_tree, Map.empty) = Some (roots, t0, m)"
    and s2: "finalize (compress_roots roots) t0 = Some t"
    by (auto simp: Build_def bind_eq_Some_conv split: if_splits)
  from add_routes_leaves [OF s1 map_ok_empty] obtain ls where "length ls = length raws"
    and roots: "roots = insert_routes (zip (map lookup_path raws) ls)"
    by (auto simp: inserted_def insert_routes_def dest: list_all2_lengthD)
  then have "sum_list (map (\<lambda>(url, l). length url) (zip (map lookup_path raws) ls)) =
      sum_list (map (\<lambda>raw. length (lookup_path raw)) raws)"
    by (intro arg_cong [where f = sum_list] nth_equalityI) auto
  also have "\<dots> \<le> sum_list (map (\<lambda>raw. length (URL raw)) raws)"
    by (rule sum_list_mono) (rule length_lookup_path)
  finally have "sum_list (map (\<lambda>(url, l). length url) (zip (map lookup_path raws) ls)) \<le> 21760"
    using assms(2) by simp
  then have "size_roots all_bytes roots \<le> 21760"
    using insert_routes_size unfolding roots by (meson order_trans)
  then have "size_roots all_bytes (compress_roots roots) \<le> 21760"
    using size_compress_roots [of all_bytes roots] by simp
  with s2 show ?thesis by (rule finalize_fits)
qed

lemma Build_exists:
  assumes "raws \<noteq> []" and "text_routes raws"
    and "\<forall>raw \<in> set raws. parseMethods (RawMethods raw) \<noteq> 0"
    and "\<forall>raw \<in> set raws. count_wilds (star_bytes (URL raw)) \<le> MaxWildcardsPerRoute"
  shows "\<exists>t. Build raws = Some (Some t)"
proof -
  have ok: "\<forall>raw \<in> set raws. parseMethods (RawMethods raw) \<noteq> 0 \<and>
      count_wilds (star_bytes (URL raw)) \<le> MaxWildcardsPerRoute" using assms(3,4) by simp
  obtain roots t0 m where
    s: "add_routes raws (no_roots, empty_tree, Map.empty) = Some (roots, t0, m)"
    using add_routes_total [OF ok, of "(no_roots, empty_tree, Map.empty)"] by auto
  from add_routes_leaves [OF s map_ok_empty] obtain ls where
    roots: "roots = insert_routes (zip (map lookup_path raws) ls)"
    by (auto simp: inserted_def insert_routes_def)
  have "wf_roots roots" unfolding roots using ok assms(2)
    by (intro wf_insert_routes)
      (auto simp: text_routes_def route_key_ok_def lookup_path_def ReverseHost_wilds
        intro!: ReverseHost_clean star_bytes_clean dest!: set_zip_leftD)
  then obtain t where "finalize (compress_roots roots) t0 = Some t"
    using finalize_total [OF compress_roots_wf] by blast
  with s assms(1) show ?thesis by (simp add: Build_def)
qed

text \<open>Routes with at most 21760 bytes of URL in all fit the 16-bit edge offsets.\<close>

theorem Build_fits:
  assumes "Build raws = Some (Some t)" and "sum_list (map (\<lambda>raw. length (URL raw)) raws) \<le> 21760"
  shows "length (EdgePool t) \<le> 65536"
  using built_fits [OF assms] by (simp add: fits_def)

theorem Build_fits_witness:
  "\<exists>t. Build [\<lparr>URL = ''a.com/x/*'', Service = ''s'', Middlewares = [], RawMethods = ''GET'', RawTags = []\<rparr>] =
     Some (Some t) \<and> length (EdgePool t) \<le> 65536"
proof -
  let ?r = "\<lparr>URL = ''a.com/x/*'', Service = ''s'', Middlewares = [], RawMethods = ''GET'', RawTags = []\<rparr>"
  have "\<exists>t. Build [?r] = Some (Some t)"
    by (rule Build_exists) (simp_all add: text_routes_def, code_simp+)
  then show ?thesis using Build_fits [of "[?r]"] by auto
qed

end
