(* ===== verification/Build_Correct.thy ===== *)
theory Build_Correct
  imports Pool_Size
begin

text \<open>
  From a request back to the raw routes: what \<open>Search\<close> answers on a tree \<open>Build\<close> made, which routes
  are always found, and two ways in which the matching is weaker than a backtracking matcher.
\<close>

text \<open>A matched node carries the methods, tags, service and middlewares of a raw route.\<close>

definition serves :: "route_tree \<Rightarrow> route_node \<Rightarrow> raw_node \<Rightarrow> bool" where
  "serves t n raw \<longleftrightarrow> Methods n = parseMethods (RawMethods raw) \<and> Tags n = analyze_tags (RawTags raw) \<and>
     read_route t (ActionIndex n) =
       Some ((Service raw, Analyze (Service raw)), map (\<lambda>a. (a, Analyze a)) (Middlewares raw))"

lemma leaf_serves: "leaf_of t raw (node_leaf n) \<Longrightarrow> serves t n raw"
  by (auto simp: leaf_of_def serves_def node_leaf_def route_stored_read)

subsection \<open>Building\<close>

text \<open>A list of routes with a known method and at most 32 wildcards each always builds; the rest
  of the pipeline has no panic of its own.\<close>

theorem Build_total:
  assumes "raws \<noteq> []" and "text_routes raws"
    and "\<forall>raw \<in> set raws. parseMethods (RawMethods raw) \<noteq> 0"
    and "\<forall>raw \<in> set raws. count_wilds (star_bytes (URL raw)) \<le> MaxWildcardsPerRoute"
  shows "\<exists>t. Build raws = Some (Some t)"
  using assms by (rule Build_exists)

theorem Build_total_witness:
  "\<exists>t. Build [\<lparr>URL = ''a.com/x/*'', Service = ''s'', Middlewares = [''m''], RawMethods = ''GET'', RawTags = []\<rparr>] =
     Some (Some t)"
  by (rule Build_total)
    (simp_all add: text_routes_def, code_simp+)

subsection \<open>Searching\<close>

lemma Build_search:
  assumes "Build raws = Some (Some t)" and "text_routes raws" and "fits t"
    and "req \<noteq> [] \<Longrightarrow> \<not> is_wild (hd req)"
  obtains ls where "list_all2 (leaf_of t) raws ls"
    and "wf_roots (insert_routes (zip (map lookup_path raws) ls))"
    and "\<forall>raw \<in> set raws. parseMethods (RawMethods raw) \<noteq> 0"
    and "gives (Search t req) (spec_search (compress_roots (insert_routes (zip (map lookup_path raws) ls))) req)"
proof -
  from Build_parts [OF assms(1,2)] obtain ls t0 where ls: "list_all2 (leaf_of t) raws ls"
    and wf: "wf_roots (insert_routes (zip (map lookup_path raws) ls))"
    and fin: "finalize (compress_roots (insert_routes (zip (map lookup_path raws) ls))) t0 = Some t"
    and ok: "\<forall>raw \<in> set raws. parseMethods (RawMethods raw) \<noteq> 0" by blast
  from that [OF ls wf ok Search_refines [OF compress_roots_wf [OF wf] fin assms(3,4)]] show thesis .
qed

lemma gives_cases:
  assumes "gives r L"
  obtains n where "r = Some (Found n)" "L = Some (node_leaf n)" | "r = Some NotFound" "L = None"
  using assms by (auto simp: gives_def split: option.splits search_result.splits)

lemma Search_finds:
  assumes "Build raws = Some (Some t)" and "text_routes raws" and "fits t"
    and "\<forall>raw \<in> set raws. URL raw \<noteq> []" and "req \<noteq> []" and "\<not> is_wild (hd req)"
  shows "Search t req = Some NotFound \<or> (\<exists>n raw. Search t req = Some (Found n) \<and>
    winner raws (lookup_path raw) = Some raw \<and> matches (lookup_path raw) req \<and> serves t n raw)"
proof -
  from Build_search [OF assms(1-3,6)] obtain ls where ls: "list_all2 (leaf_of t) raws ls"
    and wf: "wf_roots (insert_routes (zip (map lookup_path raws) ls))"
    and ok: "\<forall>raw \<in> set raws. parseMethods (RawMethods raw) \<noteq> 0"
    and g: "gives (Search t req) (spec_search (compress_roots (insert_routes (zip (map lookup_path raws) ls))) req)"
    by blast
  from g show ?thesis
  proof (cases rule: gives_cases)
    case (1 n)
    from spec_search_sound [OF 1(2) compress_roots_wf [OF wf] assms(6)] obtain p where
      p: "holds_route (insert_routes (zip (map lookup_path raws) ls)) p (node_leaf n)" "matches p req"
      by (auto simp: compress_holds [OF wf])
    then have "map_of (rev (zip (map lookup_path raws) ls)) p = Some (node_leaf n)"
      by (simp add: built_routes [OF ls ok assms(4)])
    with winner_leaf [OF ls, of p] obtain raw where "winner raws p = Some raw" "leaf_of t raw (node_leaf n)"
      by (cases "winner raws p") auto
    then show ?thesis using 1(1) p(2) leaf_serves winner_Some by blast
  qed simp
qed

text \<open>C2. \<open>Search\<close> on a built tree ends without a panic, and a node it finds belongs to a raw route
  whose lookup path matches the request and which no later route replaced.\<close>

theorem Search_sound:
  assumes "Build raws = Some (Some t)" and "text_routes raws" and "fits t"
    and "\<forall>raw \<in> set raws. URL raw \<noteq> []" and "req \<noteq> []" and "\<not> is_wild (hd req)"
  shows "Search t req = Some NotFound \<or> (\<exists>n raw. Search t req = Some (Found n) \<and>
    winner raws (lookup_path raw) = Some raw \<and> matches (lookup_path raw) req \<and> serves t n raw)"
  using assms by (rule Search_finds)

text \<open>C3. A route without wildcards is found by its own request, whatever other routes there are:
  the last one built with that lookup path serves it.\<close>

theorem Search_static:
  assumes "Build raws = Some (Some t)" and "text_routes raws" and "fits t"
    and "\<forall>raw \<in> set raws. URL raw \<noteq> []" and "raw \<in> set raws" and "CHR ''*'' \<notin> set (URL raw)"
  shows "\<exists>n w. Search t (lookup_path raw) = Some (Found n) \<and>
    winner raws (lookup_path raw) = Some w \<and> serves t n w"
proof -
  let ?req = "lookup_path raw"
  have stars: "greedy_runs u = u" if "CHR ''*'' \<notin> set u" for u
    using that by (induction u) (auto simp: Let_def)
  then have sb: "star_bytes (URL raw) = URL raw"
    using assms(6) by (auto simp: star_bytes_def replace_star intro: map_idI)
  have "\<forall>c \<in> set ?req. is_text c"
    using ReverseHost_bytes [of "URL raw"] assms(2,5)
    by (auto simp: lookup_path_def sb text_routes_def list_all_iff)
  then have nw: "\<not> list_ex is_wild ?req" by (auto simp: list_ex_iff text_not_wild)
  moreover have "?req \<noteq> []" using assms(4,5) by (simp add: lookup_path_def sb)
  ultimately have h: "\<not> is_wild (hd ?req)" by (cases ?req) auto
  from Build_search [OF assms(1-3) h] obtain ls where ls: "list_all2 (leaf_of t) raws ls"
    and wf: "wf_roots (insert_routes (zip (map lookup_path raws) ls))"
    and ok: "\<forall>raw \<in> set raws. parseMethods (RawMethods raw) \<noteq> 0"
    and g: "gives (Search t ?req) (spec_search (compress_roots (insert_routes (zip (map lookup_path raws) ls))) ?req)"
    by blast
  obtain w where w: "winner raws ?req = Some w"
    using assms(5) by (cases "winner raws ?req") (auto simp: winner_def map_of_eq_None_iff image_image)
  with winner_leaf [OF ls, of ?req] obtain l where
    l: "map_of (rev (zip (map lookup_path raws) ls)) ?req = Some l" "leaf_of t w l"
    by (cases "map_of (rev (zip (map lookup_path raws) ls)) ?req") auto
  then have "spec_search (compress_roots (insert_routes (zip (map lookup_path raws) ls))) ?req = Some l"
    using compress_holds [OF wf] built_routes [OF ls ok assms(4)] nw
    by (intro spec_search_static compress_roots_wf compress_roots_ordered wf) simp_all
  with g l(2) w show ?thesis
    by (auto elim!: gives_cases dest!: leaf_serves)
qed

subsection \<open>Examples\<close>

definition get_route :: "string \<Rightarrow> string \<Rightarrow> raw_node" where
  "get_route url svc = \<lparr>URL = url, Service = svc, Middlewares = [], RawMethods = ''GET'', RawTags = []\<rparr>"

text \<open>The answer of a build, computed on the trie.\<close>

definition trie_answer :: "raw_node list \<Rightarrow> string \<Rightarrow> leaf option option" where
  "trie_answer raws req = map_option (\<lambda>(roots, _, _). spec_search (compress_roots roots) req)
     (add_routes raws (no_roots, empty_tree, Map.empty))"

lemma Build_answer:
  assumes "trie_answer raws req = Some L" and "raws \<noteq> []" and "text_routes raws"
    and "sum_list (map (\<lambda>raw. length (URL raw)) raws) \<le> 21760" and "\<not> is_wild (hd req)"
  shows "\<exists>t. Build raws = Some (Some t) \<and> fits t \<and> gives (Search t req) L"
proof -
  from assms(1) obtain roots t0 m where
    s: "add_routes raws (no_roots, empty_tree, Map.empty) = Some (roots, t0, m)"
    and L: "spec_search (compress_roots roots) req = L"
    by (auto simp: trie_answer_def)
  from add_routes_leaves [OF s map_ok_empty] obtain ls where
    roots: "roots = insert_routes (zip (map lookup_path raws) ls)"
    and ok: "\<forall>raw \<in> set raws. parseMethods (RawMethods raw) \<noteq> 0 \<and>
         count_wilds (star_bytes (URL raw)) \<le> MaxWildcardsPerRoute"
    by (auto simp: inserted_def insert_routes_def)
  have wf: "wf_roots roots" unfolding roots using ok assms(3)
    by (intro wf_insert_routes)
      (auto simp: text_routes_def route_key_ok_def lookup_path_def ReverseHost_wilds
        intro!: ReverseHost_clean star_bytes_clean dest!: set_zip_leftD)
  from finalize_total [OF compress_roots_wf [OF wf]] obtain t where
    fin: "finalize (compress_roots roots) t0 = Some t" by blast
  have b: "Build raws = Some (Some t)" using s fin assms(2) by (simp add: Build_def)
  have "fits t" by (rule built_fits [OF b assms(4)])
  with Search_refines [OF compress_roots_wf [OF wf] fin] L assms(5) b show ?thesis by blast
qed

lemma gives_None: "gives r None \<longleftrightarrow> r = Some NotFound"
  by (auto simp: gives_def split: option.splits search_result.splits)

lemma gives_Some: "gives r (Some l) \<Longrightarrow> \<exists>n. r = Some (Found n) \<and> node_leaf n = l"
  by (auto simp: gives_def split: option.splits search_result.splits)

definition meta_route :: raw_node where "meta_route = get_route ''h/f/*/m'' ''meta''"
definition txt_route :: raw_node where "txt_route = get_route ''h/f/*.t'' ''txt''"

lemma alone_found:
  "trie_answer [meta_route] ''h/f/x/m'' = Some (Some (2, 1, 0))"
  "trie_answer [txt_route] ''h/f/x.t'' = Some (Some (2, 1, 0))"
  by code_simp+

lemma together_lost:
  "trie_answer [meta_route, txt_route] ''h/f/x/m'' = Some None"
  "trie_answer [meta_route, txt_route] ''h/f/x.t'' = Some None"
  by code_simp+

lemma example_routes_ok:
  "text_routes [meta_route]" "text_routes [txt_route]" "text_routes [meta_route, txt_route]"
  "URL meta_route = ''h/f/*/m''" "URL txt_route = ''h/f/*.t''" "\<not> is_wild (CHR ''h'')"
  by (simp_all add: text_routes_def meta_route_def txt_route_def get_route_def is_text_def byte_def
      is_wild_def Wildcard_def WildcardGreedy_def)


definition ab_route :: raw_node where "ab_route = get_route ''h/*ab'' ''s''"

text \<open>A wildcard stops at the first occurrence of the text after it and is not tried further: the
  lookup path \<open>h/*ab\<close> matches \<open>h/abab\<close>, which \<open>Search\<close> does not find.\<close>

theorem first_occurrence_only:
  "matches (lookup_path ab_route) ''h/abab'' \<and>
   (\<exists>t. Build [ab_route] = Some (Some t) \<and> Search t ''h/abab'' = Some NotFound)"
proof
  show "matches (lookup_path ab_route) ''h/abab''" by code_simp
  have "trie_answer [ab_route] ''h/abab'' = Some None" by code_simp
  from Build_answer [OF this] show "\<exists>t. Build [ab_route] = Some (Some t) \<and> Search t ''h/abab'' = Some NotFound"
    by (auto simp: gives_None text_routes_def ab_route_def get_route_def is_text_def byte_def
        is_wild_def Wildcard_def WildcardGreedy_def)
qed

theorem Search_sound_witness:
  "\<exists>t. Build [meta_route] = Some (Some t) \<and> (Search t ''h/f/x/m'' = Some NotFound \<or>
     (\<exists>n raw. Search t ''h/f/x/m'' = Some (Found n) \<and>
        winner [meta_route] (lookup_path raw) = Some raw \<and> matches (lookup_path raw) ''h/f/x/m'' \<and> serves t n raw))"
proof -
  obtain t where t: "Build [meta_route] = Some (Some t)" "fits t"
    using Build_answer [OF alone_found(1)] example_routes_ok by auto
  then show ?thesis
    using Search_sound [OF t(1) example_routes_ok(1) t(2), of "''h/f/x/m''"] example_routes_ok by auto
qed

definition plain_route :: raw_node where "plain_route = get_route ''www.h/x'' ''s''"

theorem Search_static_witness:
  "\<exists>t n w. Build [plain_route, plain_route] = Some (Some t) \<and> Search t (lookup_path plain_route) = Some (Found n) \<and>
    winner [plain_route, plain_route] (lookup_path plain_route) = Some w \<and> serves t n w"
proof -
  have ok: "text_routes [plain_route, plain_route]"
    by (simp add: text_routes_def plain_route_def get_route_def is_text_def byte_def)
  have "trie_answer [plain_route, plain_route] ''h.www/x'' = Some (Some (4, 1, 0))" by code_simp
  then obtain t where t: "Build [plain_route, plain_route] = Some (Some t)" "fits t"
    using Build_answer [OF _ _ ok, of "''h.www/x''"]
    by (auto simp: plain_route_def get_route_def is_wild_def Wildcard_def WildcardGreedy_def)
  then show ?thesis
    using Search_static [OF t(1) ok t(2), of plain_route] by (auto simp: plain_route_def get_route_def)
qed

subsection \<open>The search on a finished trie\<close>

text \<open>C1. On the pools \<open>finalize\<close> writes, \<open>Search\<close> ends, does not panic, and gives the leaf of the
  recursive search with backtracking on the trie: grafts, checkpoints and accept clones amount to
  exactly the fallbacks of that search.\<close>

theorem Search_is_backtracking:
  assumes "wf_roots roots" and "finalize roots t0 = Some t" and "length (EdgePool t) \<le> 65536"
    and "url \<noteq> []" and "\<not> is_wild (hd url)"
  shows "case Search t url of
      Some (Found n) \<Rightarrow> spec_search roots url = Some (node_leaf n)
    | Some NotFound \<Rightarrow> spec_search roots url = None
    | _ \<Rightarrow> False"
  using Search_refines [OF assms(1,2), of url] assms(3-5)
  by (auto simp: fits_def gives_def split: option.splits search_result.splits)

definition example_trie :: roots where
  "example_trie = insert_routes [(''a/'' @ [Wildcard], 1, 1, 0), (''a/b'', 2, 1, 0), (''a/'' @ [WildcardGreedy], 3, 1, 0)]"

lemma example_trie_ok: "wf_roots example_trie" "size_roots all_bytes example_trie \<le> 21760"
proof -
  show "wf_roots example_trie" unfolding example_trie_def
    by (rule wf_insert_routes)
      (simp add: route_key_ok_def count_wilds_def is_text_def byte_def is_wild_def MaxWildcardsPerRoute_def
        Wildcard_def WildcardGreedy_def)
  show "size_roots all_bytes example_trie \<le> 21760"
    unfolding example_trie_def by (rule order_trans [OF insert_routes_size]) simp
qed

theorem Search_is_backtracking_witness:
  "\<exists>t. finalize example_trie empty_tree = Some t \<and>
    (case Search t ''a/bc'' of
       Some (Found n) \<Rightarrow> spec_search example_trie ''a/bc'' = Some (node_leaf n)
     | Some NotFound \<Rightarrow> spec_search example_trie ''a/bc'' = None
     | _ \<Rightarrow> False)"
proof -
  obtain t where t: "finalize example_trie empty_tree = Some t"
    using finalize_total [OF example_trie_ok(1)] by blast
  have "fits t" by (rule finalize_fits [OF t example_trie_ok(2)])
  then have "length (EdgePool t) \<le> 65536" by (simp add: fits_def)
  from Search_is_backtracking [OF example_trie_ok(1) t this, of "''a/bc''"] t show ?thesis
    by (simp add: is_wild_def Wildcard_def WildcardGreedy_def)
qed

text \<open>Below a literal prefix with a route that ends in a wildcard, every longer request finds some
  route, when no wildcard byte has been merged into a literal fragment.\<close>

theorem trailing_wildcard_catches:
  assumes "wf_roots roots" and "ordered_roots roots" and "pure_roots roots"
    and "finalize roots t0 = Some t" and "length (EdgePool t) \<le> 65536"
    and "holds_route roots (before @ [w]) l" and "is_wild w" and "\<not> list_ex is_wild before"
    and "before \<noteq> []" and "rest \<noteq> []"
  shows "\<exists>n. Search t (before @ rest) = Some (Found n)"
proof -
  obtain c q where b: "before = c # q" using assms(9) by (cases before) auto
  from assms(6) obtain e where e: "roots c = Some e" "(before @ [w], l) \<in> set (edge_paths e)"
    by (auto simp: holds_route_def b split: option.splits)
  have w: "Fragment e = [c]" "wf_edge e" "ordered_edge e" "pure_edge e"
    using assms(1-3) e(1) by (auto simp: wf_roots_def ordered_roots_def pure_roots_def)
  then have "(q @ [w], l) \<in> set (node_paths (Node e))" "\<not> wild_edge e"
    using e(2) b assms(8) by (auto simp: edge_paths_eq wild_edge_def)
  then have "spec_edge (before @ rest) e 1 K \<noteq> None" for K
    using w assms(7,8,10) b by (intro spec_catch_all [of q w l e 1 "before @ rest" rest]) auto
  then have "spec_search roots (before @ rest) \<noteq> None"
    by (simp add: spec_search_def b spec_root_def [of _ _ c] e(1))
  moreover have "gives (Search t (before @ rest)) (spec_search roots (before @ rest))"
    using assms(5,8) by (intro Search_refines [OF assms(1,4)]) (auto simp: fits_def b)
  ultimately show ?thesis by (auto dest!: gives_Some)
qed

theorem trailing_wildcard_catches_witness:
  "\<exists>t n. finalize (compress_roots example_trie) empty_tree = Some t \<and> Search t ''a/bc'' = Some (Found n)"
proof -
  note wf = compress_roots_wf [OF example_trie_ok(1)]
  obtain t where t: "finalize (compress_roots example_trie) empty_tree = Some t"
    using finalize_total [OF wf] by blast
  have "size_roots all_bytes (compress_roots example_trie) \<le> 21760"
    using size_compress_roots example_trie_ok(2) by (rule order_trans)
  with t have f: "length (EdgePool t) \<le> 65536" using finalize_fits by (auto simp: fits_def)
  have dom: "compress_roots example_trie c = None" if "c \<noteq> CHR ''a''" for c
    using that by (simp add: compress_roots_def example_trie_def insert_routes_def insert_route_def no_roots_def)
  have "pure_edge (the (compress_roots example_trie (CHR ''a'')))" by code_simp
  then have p: "pure_roots (compress_roots example_trie)"
    using dom unfolding pure_roots_def by (metis option.sel option.distinct(1))
  have "holds_route example_trie (''a/'' @ [Wildcard]) (1, 1, 0)"
    unfolding example_trie_def by (subst insert_routes_holds) (simp_all add: Wildcard_def WildcardGreedy_def)
  then have h: "holds_route (compress_roots example_trie) (''a/'' @ [Wildcard]) (1, 1, 0)"
    by (simp add: compress_holds [OF example_trie_ok(1)])
  from trailing_wildcard_catches [OF wf compress_roots_ordered [OF example_trie_ok(1)] p t f h, of "''bc''"] t
  show ?thesis by (simp add: is_wild_def Wildcard_def WildcardGreedy_def)
qed

end
