(* ===== verification/Directives.thy ===== *)
theory Directives
  imports Host "HOL-Library.Monad_Syntax"
begin

text \<open>
  \<open>internal/core/builtins/builtins.go\<close> and \<open>internal/core/mmfg/directive.go\<close>: the arguments of a
  directive such as \<open>$SetHeader(A, "b, c")\<close>. They are read by Go's \<open>encoding/csv\<close> with \<open>LazyQuotes\<close>
  and \<open>TrimLeadingSpace\<close>; the reader is modelled here line by line. With these two settings its only
  error is the end of the input before a record.
\<close>

subsection \<open>The CSV reader\<close>

text \<open>\<open>readLine\<close>: a line with its newline, \<open>\r\n\<close> made \<open>\n\<close>, and a \<open>\r\<close> before the end dropped.\<close>

definition read_line :: "string \<Rightarrow> (string \<times> string) option" where
  "read_line s =
     (if s = [] then None
      else let l = takeWhile (\<lambda>c. c \<noteq> CHR 0x0A) s; rest = drop (length l) s
           in Some (trim_suffix l [CHR 0x0D] @ take 1 rest, drop 1 rest))"

definition strip_newline :: "string \<Rightarrow> string" where
  "strip_newline l = trim_suffix l [CHR 0x0A]"

lemma length_trim_suffix: "length (trim_suffix s p) \<le> length s"
  by (simp add: trim_suffix_def)

lemma read_line_length: "read_line s = Some (l, rest) \<Longrightarrow> length l + length rest \<le> length s"
proof -
  assume a: "read_line s = Some (l, rest)"
  let ?l = "takeWhile (\<lambda>c. c \<noteq> CHR 0x0A) s"
  have "length ?l \<le> length s" by (rule length_takeWhile_le)
  with a length_trim_suffix [of ?l "[CHR 0x0D]"] show ?thesis
    by (auto simp: read_line_def Let_def split: if_splits)
qed

lemma length_trim_left: "length (trim_left P s) \<le> length s"
  by (simp add: trim_left_def length_dropWhile_le)

lemma index_byte_less: "index_sub s [c] = Some i \<Longrightarrow> i < length s"
  by (drule index_sub_Some) simp

text \<open>The loop \<open>parseField\<close>, with the inner loop over a quoted field; \<open>rest\<close> is the unread input.\<close>

function csv_fields :: "string \<Rightarrow> string \<Rightarrow> string list"
and csv_quoted :: "string \<Rightarrow> string \<Rightarrow> string \<Rightarrow> string list" where
  "csv_fields line rest =
     (let line = trim_left is_space line
      in if line = [] \<or> hd line \<noteq> CHR 0x22 then
           (case index_sub line '','' of
              Some i \<Rightarrow> take i line # csv_fields (drop (i + 1) line) rest
            | None \<Rightarrow> [strip_newline line])
         else csv_quoted (tl line) rest [])"
| "csv_quoted line rest field =
     (case index_sub line [CHR 0x22] of
        Some i \<Rightarrow>
          let field = field @ take i line; line = drop (i + 1) line
          in if has_prefix line [CHR 0x22] then csv_quoted (tl line) rest (field @ [CHR 0x22])
             else if has_prefix line '','' then field # csv_fields (tl line) rest
             else if line = [] \<or> line = [CHR 0x0A] then [field]
             else csv_quoted line rest (field @ [CHR 0x22])
      | None \<Rightarrow>
          if line \<noteq> [] then
            (case read_line rest of
               None \<Rightarrow> csv_quoted [] [] (field @ line)
             | Some (line', rest') \<Rightarrow> csv_quoted line' rest' (field @ line))
          else [field])"
  by pat_completeness auto
termination
  apply (relation "measure (\<lambda>x. case x of Inl (l, r) \<Rightarrow> length l + length r | Inr (l, r, _) \<Rightarrow> length l + length r)")
        apply simp_all
  subgoal for line x i using length_trim_left [of is_space line] index_byte_less [of x "CHR '',''" i] by simp
  subgoal for line using length_trim_left [of is_space line] by (cases "trim_left is_space line") auto
  subgoal for line rest p l r using read_line_length [of rest l r] by (cases line) auto
  subgoal for line field i using index_byte_less [of line "CHR 0x22" i] by simp
  subgoal for line field i using index_byte_less [of line "CHR 0x22" i] by simp
  subgoal for line rest field i using index_byte_less [of line "CHR 0x22" i] by linarith
  done

declare csv_fields.simps [simp del] csv_quoted.simps [simp del]

text \<open>Empty lines are skipped before the record; \<^const>\<open>None\<close> is \<open>io.EOF\<close>.\<close>

function csv_read :: "string \<Rightarrow> string list option" where
  "csv_read input =
     (case read_line input of
        None \<Rightarrow> None
      | Some (line, rest) \<Rightarrow> if line = [] \<or> line = [CHR 0x0A] then csv_read rest else Some (csv_fields line rest))"
  by pat_completeness auto
termination
proof (relation "measure length", goal_cases)
  case (2 input x line rest)
  then have "input \<noteq> []" "rest = drop 1 (drop (length (takeWhile (\<lambda>c. c \<noteq> CHR 0x0A) input)) input)"
    by (auto simp: read_line_def Let_def split: if_splits)
  moreover have "length line + length rest \<le> length input" using 2 read_line_length [of input line rest] by simp
  ultimately show ?case by (cases "takeWhile (\<lambda>c. c \<noteq> CHR 0x0A) input") auto
qed simp

declare csv_read.simps [simp del]

subsection \<open>Directives\<close>

definition ParseArguments :: "string \<Rightarrow> string list option" where
  "ParseArguments input = csv_read input"

text \<open>The name, the arguments and \<^const>\<open>None\<close> for the error of \<open>ParseArguments\<close>. A directive without
  parentheses has no arguments, which Go keeps as the nil slice.\<close>

definition ParseDirective :: "string \<Rightarrow> (string \<times> string list) option" where
  "ParseDirective s =
     (case (index_sub s ''('', last_index s (CHR '')'')) of
        (Some start, Some end) \<Rightarrow>
          if start < end
          then map_option (\<lambda>fields. (take start s, fields)) (ParseArguments (take (end - (start + 1)) (drop (start + 1) s)))
          else Some (s, [])
      | _ \<Rightarrow> Some (s, []))"

text \<open>\<open>CheckArgCount\<close>: whether the count is in the range.\<close>

definition CheckArgCount :: "string list \<Rightarrow> nat \<Rightarrow> nat \<Rightarrow> bool" where
  "CheckArgCount args lo hi \<longleftrightarrow> lo \<le> length args \<and> length args \<le> hi"

definition DirectivePrefix :: string where "DirectivePrefix = ''$mmfg(''"

definition ValidateDirective :: "string \<Rightarrow> bool" where
  "ValidateDirective expr \<longleftrightarrow> has_prefix expr DirectivePrefix \<and> has_suffix expr '')'' \<and>
     (case ParseDirective expr of None \<Rightarrow> False | Some (_, args) \<Rightarrow> length args = 1 \<and> args ! 0 \<noteq> [])"

definition ParseNode :: "string \<Rightarrow> string option" where
  "ParseNode expr =
     (case ParseDirective expr of None \<Rightarrow> None
      | Some (_, args) \<Rightarrow> if length args = 1 then Some (args ! 0) else None)"

subsection \<open>Quoting is undone\<close>

text \<open>The quoted form of an argument: quotes doubled, and the whole between quotes.\<close>

fun double_quotes :: "string \<Rightarrow> string" where
  "double_quotes [] = []"
| "double_quotes (c # s) = (if c = CHR 0x22 then [c, c] else [c]) @ double_quotes s"

definition quoted_arg :: "string \<Rightarrow> string" where
  "quoted_arg f = CHR 0x22 # double_quotes f @ [CHR 0x22]"

lemma index_sub_first: "c \<notin> set g \<Longrightarrow> index_sub (g @ c # r) [c] = Some (length g)"
  by (induction g) auto

lemma double_quotes_id: "CHR 0x22 \<notin> set f \<Longrightarrow> double_quotes f = f"
  by (induction f) auto

lemma double_quotes_append: "double_quotes (a @ b) = double_quotes a @ double_quotes b"
  by (induction a) auto

lemma csv_quoted_arg:
  assumes "tail = [] \<or> hd tail = CHR '',''"
  shows "csv_quoted (double_quotes f @ CHR 0x22 # tail) rest acc =
    (if tail = [] then [acc @ f] else (acc @ f) # csv_fields (tl tail) rest)"
proof (induction "length f" arbitrary: f acc rule: less_induct)
  case less
  show ?case
  proof (cases "CHR 0x22 \<in> set f")
    case False
    then show ?thesis using assms
      by (cases tail) (auto simp: csv_quoted.simps [of "f @ _"] double_quotes_id index_sub_first Let_def)
  next
    case True
    then obtain g h where f: "f = g @ CHR 0x22 # h" and g: "CHR 0x22 \<notin> set g"
      by (meson split_list_first)
    have "csv_quoted (double_quotes f @ CHR 0x22 # tail) rest acc =
        csv_quoted (double_quotes h @ CHR 0x22 # tail) rest (acc @ g @ [CHR 0x22])"
      using g by (subst csv_quoted.simps)
        (simp add: f double_quotes_append double_quotes_id index_sub_first Let_def)
    also have "\<dots> = (if tail = [] then [(acc @ g @ [CHR 0x22]) @ h] else ((acc @ g @ [CHR 0x22]) @ h) # csv_fields (tl tail) rest)"
      by (rule less.hyps) (simp add: f)
    finally show ?thesis by (simp add: f)
  qed
qed

lemma not_space_quote [simp]: "\<not> is_space CHR 0x22"
  by (simp add: is_space_def byte_def)

lemma csv_fields_arg:
  assumes "tail = [] \<or> hd tail = CHR '',''"
  shows "csv_fields (quoted_arg f @ tail) rest = (if tail = [] then [f] else f # csv_fields (tl tail) rest)"
  using csv_quoted_arg [OF assms, of f rest "[]"]
  by (subst csv_fields.simps) (simp add: quoted_arg_def trim_left_def Let_def)

lemma csv_fields_quoted: "fs \<noteq> [] \<Longrightarrow> csv_fields (join_with CHR '','' (map quoted_arg fs)) rest = fs"
proof (induction fs)
  case (Cons f fs)
  show ?case
  proof (cases "fs = []")
    case True
    then show ?thesis using csv_fields_arg [of "[]" f rest] by simp
  next
    case False
    then show ?thesis
      using csv_fields_arg [of "CHR '','' # join_with CHR '','' (map quoted_arg fs)" f rest] Cons.IH
      by (simp add: join_with_Cons)
  qed
qed simp

lemma set_double_quotes: "set (double_quotes f) = set f"
  by (induction f) auto

text \<open>Arguments that are quoted are read back exactly, commas, quotes and white space included, as
  long as they are on one line.\<close>

theorem quoted_arguments_roundtrip:
  assumes "fs \<noteq> []" and "\<forall>f \<in> set fs. CHR 0x0A \<notin> set f" and "CHR ''('' \<notin> set name"
  shows "ParseDirective (name @ ''('' @ join_with CHR '','' (map quoted_arg fs) @ '')'') = Some (name, fs)"
proof -
  let ?a = "join_with CHR '','' (map quoted_arg fs)"
  have nl: "CHR 0x0A \<notin> set ?a"
    using assms(2) set_join_with [of "CHR '',''" "map quoted_arg fs"]
    by (fastforce simp: quoted_arg_def set_double_quotes)
  have "\<exists>b. ?a = b @ [CHR 0x22]"
  proof -
    have "\<exists>b. join_with c (map quoted_arg fs) = b @ [CHR 0x22]" for c
      using assms(1)
      by (induction fs rule: induct_list012) (auto simp: quoted_arg_def)
    then show ?thesis .
  qed
  then obtain b where b: "?a = b @ [CHR 0x22]" ..
  have tw: "takeWhile (\<lambda>c. c \<noteq> CHR 0x0A) ?a = ?a" using nl by (auto simp: takeWhile_eq_all_conv)
  have line: "read_line ?a = Some (?a, [])"
  proof -
    have "\<not> has_suffix ?a [CHR 0x0D]" unfolding b by (simp add: has_suffix_def)
    then show ?thesis unfolding read_line_def Let_def tw by (simp add: trim_suffix_def b)
  qed
  have "?a \<noteq> [CHR 0x0A]" using nl by auto
  then have "csv_read ?a = Some fs"
    using line b csv_fields_quoted [OF assms(1), of "[]"] by (subst csv_read.simps) simp
  moreover have "index_sub (name @ ''('' @ ?a @ '')'') ''('' = Some (length name)"
    using index_sub_first [OF assms(3)] by simp
  moreover have "last_index (name @ ''('' @ ?a @ '')'') (CHR '')'') = Some (length name + 1 + length ?a)"
  proof -
    have "last_index (s @ [c]) c = Some (length s)" for s :: string and c by (induction s) auto
    from this [of "name @ ''('' @ ?a" "CHR '')''"] show ?thesis by simp
  qed
  ultimately show ?thesis by (simp add: ParseDirective_def ParseArguments_def)
qed

theorem quoted_arguments_roundtrip_witness:
  "ParseDirective (''$X'' @ ''('' @ join_with CHR '','' (map quoted_arg [''a, b'', ''c'']) @ '')'') = Some (''$X'', [''a, b'', ''c''])"
  by (rule quoted_arguments_roundtrip) simp_all

text \<open>Empty parentheses are a parse error, although no parentheses at all are not.\<close>

theorem empty_arguments_fail: "ParseDirective ''$ok()'' = None \<and> ParseDirective ''$ok'' = Some (''$ok'', [])"
  by (simp add: ParseDirective_def ParseArguments_def csv_read.simps read_line_def)

end
