(* ===== verification/Expand.thy ===== *)
theory Expand
  imports Host "HOL-Library.Monad_Syntax"
begin

text \<open>
  \<open>internal/compiler/ruleline/expand.go\<close> and \<open>normalize.go\<close>: the bracket groups \<open>[a|b]\<close> of a URL field
  are expanded, in order, to all their combinations, and each URL gets its normal form. The scanning
  loops run over the rest of the string and return offsets; \<^const>\<open>None\<close> is the error of an unclosed
  bracket. The specification is the expansion of an abstract pattern, printed with escapes.
\<close>

subsection \<open>The code\<close>

definition isEscapable :: "char \<Rightarrow> bool" where
  "isEscapable c \<longleftrightarrow> c = CHR ''['' \<or> c = CHR '']'' \<or> c = CHR ''|'' \<or> c = CHR 0x5C"

definition isEscapePairAt :: "string \<Rightarrow> nat \<Rightarrow> bool" where
  "isEscapePairAt s i \<longleftrightarrow> i + 1 < length s \<and> s ! i = CHR 0x5C \<and> isEscapable (s ! (i + 1))"

abbreviation pair_first :: "string \<Rightarrow> bool" where
  "pair_first s \<equiv> isEscapePairAt s 0"

function unescapeLiteral :: "string \<Rightarrow> string" where
  "unescapeLiteral [] = []"
| "unescapeLiteral (c # s) =
     (if pair_first (c # s) then hd s # unescapeLiteral (tl s) else c # unescapeLiteral s)"
  by pat_completeness auto
termination by (relation "measure length") (auto simp: isEscapePairAt_def)

text \<open>The first loop of \<open>expandField\<close>: where the first bracket opens.\<close>

function find_open :: "string \<Rightarrow> nat option" where
  "find_open [] = None"
| "find_open (c # s) =
     (if pair_first (c # s) then map_option ((+) 2) (find_open (tl s))
      else if c = CHR ''['' then Some 0 else map_option Suc (find_open s))"
  by pat_completeness auto
termination by (relation "measure length") (auto simp: isEscapePairAt_def)

text \<open>The second loop: where it closes, with the number of open brackets.\<close>

function find_close :: "nat \<Rightarrow> string \<Rightarrow> nat option" where
  "find_close n [] = None"
| "find_close n (c # s) =
     (if pair_first (c # s) then map_option ((+) 2) (find_close n (tl s))
      else if c = CHR ''['' then map_option Suc (find_close (n + 1) s)
      else if c = CHR '']'' then
        if n - 1 = 0 then Some 0 else map_option Suc (find_close (n - 1) s)
      else map_option Suc (find_close n s))"
  by pat_completeness auto
termination by (relation "measure (length \<circ> snd)") (auto simp: isEscapePairAt_def)

function split_pipe :: "string \<Rightarrow> int \<Rightarrow> string \<Rightarrow> string list" where
  "split_pipe current depth [] = [current]"
| "split_pipe current depth (c # s) =
     (if pair_first (c # s) then split_pipe (current @ [c, hd s]) depth (tl s)
      else let depth = (if c = CHR ''['' then depth + 1 else if c = CHR '']'' then depth - 1 else depth)
           in if c = CHR ''|'' \<and> depth = 0 then current # split_pipe [] depth s
              else split_pipe (current @ [c]) depth s)"
  by pat_completeness auto
termination by (relation "measure (length \<circ> snd \<circ> snd)") (auto simp: isEscapePairAt_def)

definition splitByPipe :: "string \<Rightarrow> string list" where
  "splitByPipe s = split_pipe [] 0 s"

lemma find_open_less: "find_open s = Some i \<Longrightarrow> i < length s"
  by (induction s arbitrary: i rule: find_open.induct) (auto split: if_splits simp: isEscapePairAt_def)

lemma find_close_less: "find_close n s = Some i \<Longrightarrow> i < length s"
  by (induction n s arbitrary: i rule: find_close.induct) (auto split: if_splits simp: isEscapePairAt_def)

lemma split_pipe_length:
  "p \<in> set (split_pipe current depth s) \<Longrightarrow> length p \<le> length current + length s"
proof (induction current depth s rule: split_pipe.induct)
  case (2 current depth c s)
  let ?d = "if c = CHR ''['' then depth + 1 else if c = CHR '']'' then depth - 1 else depth"
  show ?case
  proof (cases "pair_first (c # s)")
    case True
    then have "s \<noteq> []" by (auto simp: isEscapePairAt_def)
    then show ?thesis using True "2.IH"(1) [OF True] "2.prems" by (cases s) auto
  next
    case False
    show ?thesis
    proof (cases "c = CHR ''|'' \<and> ?d = 0")
      case True
      then show ?thesis using False "2.IH"(2) [OF False refl True] "2.prems" by (auto simp: Let_def)
    next
      case nosplit: False
      have "split_pipe current depth (c # s) = split_pipe (current @ [c]) ?d s"
        unfolding split_pipe.simps(2) Let_def using False nosplit by (simp only: if_False)
      then show ?thesis using "2.IH"(3) [OF False refl nosplit] "2.prems" by simp
    qed
  qed
qed simp

lemma splitByPipe_length: "p \<in> set (splitByPipe s) \<Longrightarrow> length p \<le> length s"
  unfolding splitByPipe_def by (drule split_pipe_length) simp

function expandField :: "string \<Rightarrow> string list option" where
  "expandField field =
     (case find_open field of
        None \<Rightarrow> Some [unescapeLiteral field]
      | Some start \<Rightarrow>
          (case find_close 0 (drop start field) of
             None \<Rightarrow> None
           | Some k \<Rightarrow> do {
               remaining \<leftarrow> expandField (drop (start + k + 1) field);
               inners \<leftarrow> those (map expandField (splitByPipe (take (k - 1) (drop (start + 1) field))));
               Some (concat (map (\<lambda>inner. map (\<lambda>rem. unescapeLiteral (take start field) @ inner @ rem) remaining)
                 (concat inners)))
             }))"
  by pat_completeness auto
termination
  by (relation "measure length")
    (auto dest!: find_open_less find_close_less splitByPipe_length)

declare expandField.simps [simp del]

definition normalizeURL :: "string \<Rightarrow> string" where
  "normalizeURL url =
     (let url = (if has_prefix url ''/'' then CHR ''*'' # url else url);
          url = (if \<not> contains_sub url ''/'' \<and> trim (\<lambda>c. c = CHR ''*'') url \<noteq> [] then url @ ''/**'' else url)
      in if has_suffix url ''*'' \<and> \<not> has_suffix url ''**'' then url @ ''*'' else url)"

subsection \<open>Patterns and their expansion\<close>

datatype item = Lit string | Alt "item list list"

definition escape_char :: "char \<Rightarrow> string" where
  "escape_char c = (if isEscapable c then [CHR 0x5C, c] else [c])"

definition escape :: "string \<Rightarrow> string" where
  "escape s = concat (map escape_char s)"

fun print_items :: "item list \<Rightarrow> string"
and print_alts :: "item list list \<Rightarrow> string" where
  "print_items [] = []"
| "print_items (Lit s # p) = escape s @ print_items p"
| "print_items (Alt qs # p) = CHR ''['' # print_alts qs @ CHR '']'' # print_items p"
| "print_alts [] = []"
| "print_alts (q # qs) = print_items q @ (if qs = [] then [] else CHR ''|'' # print_alts qs)"

fun expansions :: "item list \<Rightarrow> string list"
and alt_expansions :: "item list list \<Rightarrow> string list" where
  "expansions [] = [[]]"
| "expansions (Lit s # p) = map ((@) s) (expansions p)"
| "expansions (Alt qs # p) = concat (map (\<lambda>i. map ((@) i) (expansions p)) (alt_expansions qs))"
| "alt_expansions [] = []"
| "alt_expansions (q # qs) = expansions q @ alt_expansions qs"

text \<open>No group is empty.\<close>

fun proper_items :: "item list \<Rightarrow> bool"
and proper_alts :: "item list list \<Rightarrow> bool" where
  "proper_items [] \<longleftrightarrow> True"
| "proper_items (Lit s # p) \<longleftrightarrow> proper_items p"
| "proper_items (Alt qs # p) \<longleftrightarrow> qs \<noteq> [] \<and> proper_alts qs \<and> proper_items p"
| "proper_alts [] \<longleftrightarrow> True"
| "proper_alts (q # qs) \<longleftrightarrow> proper_items q \<and> proper_alts qs"

subsection \<open>Escaped text\<close>

lemma pair_first_Cons: "pair_first (c # s) \<longleftrightarrow> c = CHR 0x5C \<and> s \<noteq> [] \<and> isEscapable (hd s)"
  by (cases s) (auto simp: isEscapePairAt_def)

lemma escape_simps [simp]: "escape [] = []" "escape (c # s) = escape_char c @ escape s"
  by (simp_all add: escape_def)

lemma bracket_chars [simp]:
  "isEscapable CHR ''[''" "isEscapable CHR '']''" "isEscapable CHR ''|''" "isEscapable CHR 0x5C"
  by (simp_all add: isEscapable_def)

lemma unescape_escape: "unescapeLiteral (escape s @ t) = s @ unescapeLiteral t"
  by (induction s) (auto simp: escape_char_def pair_first_Cons)

lemma find_open_escape: "find_open (escape s @ t) = map_option ((+) (length (escape s))) (find_open t)"
  by (induction s) (auto simp: escape_char_def pair_first_Cons option.map_comp comp_def option.map_ident intro!: option.map_cong)

lemma find_close_escape: "find_close n (escape s @ t) = map_option ((+) (length (escape s))) (find_close n t)"
  by (induction s) (auto simp: escape_char_def pair_first_Cons option.map_comp comp_def option.map_ident intro!: option.map_cong)

lemma split_pipe_escape: "split_pipe cur d (escape s @ t) = split_pipe (cur @ escape s) d t"
  by (induction s arbitrary: cur) (auto simp: escape_char_def pair_first_Cons Let_def)

subsection \<open>Printed patterns are balanced\<close>

lemma map_option_shift_0: "map_option ((+) (0::nat)) x = x"
  by (cases x) simp_all

lemma map_option_shift: "map_option ((+) (a::nat)) (map_option ((+) b) x) = map_option ((+) (a + b)) x"
  by (cases x) simp_all

lemma map_option_Suc_shift: "map_option Suc (map_option ((+) b) x) = map_option ((+) (Suc b)) x"
  by (cases x) simp_all

lemma find_close_print:
  "1 \<le> n \<Longrightarrow> find_close n (print_items p @ t) = map_option ((+) (length (print_items p))) (find_close n t)"
  "1 \<le> n \<Longrightarrow> find_close n (print_alts qs @ t) = map_option ((+) (length (print_alts qs))) (find_close n t)"
proof (induction p and qs arbitrary: n t and n t rule: print_items_print_alts.induct)
  case (2 s p)
  then show ?case by (simp add: find_close_escape map_option_shift)
next
  case (3 qs p)
  have "find_close n (print_items (Alt qs # p) @ t) =
      map_option Suc (find_close (n + 1) (print_alts qs @ CHR '']'' # print_items p @ t))"
    by (simp add: pair_first_Cons)
  also have "\<dots> = map_option Suc (map_option ((+) (length (print_alts qs)))
      (map_option Suc (find_close n (print_items p @ t))))"
    using "3.prems" by (subst "3.IH"(1)) (simp_all add: pair_first_Cons)
  also have "\<dots> = map_option ((+) (length (print_items (Alt qs # p)))) (find_close n t)"
    using "3.IH"(2) [OF "3.prems"] by (cases "find_close n t") simp_all
  finally show ?case .
next
  case (5 q qs)
  then show ?case
    by (cases "qs = []"; cases "find_close n t") (simp_all add: pair_first_Cons)
qed (simp_all add: map_option_shift_0)

lemma split_pipe_inside:
  "0 \<le> d \<Longrightarrow> split_pipe cur d (print_items p @ t) = split_pipe (cur @ print_items p) d t"
  "1 \<le> d \<Longrightarrow> split_pipe cur d (print_alts qs @ t) = split_pipe (cur @ print_alts qs) d t"
proof (induction p and qs arbitrary: cur d t and cur d t rule: print_items_print_alts.induct)
  case (2 s p)
  then show ?case by (simp add: split_pipe_escape)
next
  case (3 qs p)
  have "split_pipe cur d (print_items (Alt qs # p) @ t) =
      split_pipe (cur @ [CHR ''['']) (d + 1) (print_alts qs @ CHR '']'' # print_items p @ t)"
    by (simp add: pair_first_Cons Let_def)
  also have "\<dots> = split_pipe (cur @ CHR ''['' # print_alts qs @ [CHR '']'']) d (print_items p @ t)"
    using "3.prems" by (subst "3.IH"(1)) (simp_all add: pair_first_Cons Let_def)
  also have "\<dots> = split_pipe (cur @ print_items (Alt qs # p)) d t"
    by (subst "3.IH"(2) [OF "3.prems"]) simp
  finally show ?case .
next
  case (5 q qs)
  then show ?case by (cases "qs = []") (simp_all add: pair_first_Cons Let_def)
qed simp_all

lemma split_print: "qs \<noteq> [] \<Longrightarrow> split_pipe [] 0 (print_alts qs) = map print_items qs"
proof (induction qs)
  case (Cons q qs)
  show ?case
  proof (cases "qs = []")
    case True
    then show ?thesis using split_pipe_inside(1) [of 0 "[]" q "[]"] by simp
  next
    case False
    then show ?thesis
      using split_pipe_inside(1) [of 0 "[]" q "CHR ''|'' # print_alts qs"] Cons.IH
      by (simp add: pair_first_Cons Let_def)
  qed
qed simp

subsection \<open>The expansion\<close>

lemma expandField_escape: "expandField (escape s @ t) = map_option (map ((@) s)) (expandField t)"
proof (cases "find_open t")
  case None
  then show ?thesis
    by (simp add: expandField.simps [of "escape s @ t"] expandField.simps [of t] find_open_escape unescape_escape)
next
  case (Some i)
  have pre: "take (length (escape s) + i) (escape s @ t) = escape s @ take i t" by simp
  show ?thesis
    using Some
    by (auto simp: expandField.simps [of "escape s @ t"] expandField.simps [of t] find_open_escape pre
        unescape_escape map_concat comp_def bind_eq_Some_conv
        split: option.splits Option.bind_splits)
qed

lemma expandField_Alt:
  assumes "qs \<noteq> []"
  shows "expandField (CHR ''['' # print_alts qs @ CHR '']'' # t) = do {
    remaining \<leftarrow> expandField t;
    inners \<leftarrow> those (map (\<lambda>q. expandField (print_items q)) qs);
    Some (concat (map (\<lambda>inner. map ((@) inner) remaining) (concat inners)))
  }"
proof -
  let ?f = "CHR ''['' # print_alts qs @ CHR '']'' # t" and ?n = "length (print_alts qs)"
  have close: "find_close 0 ?f = Some (Suc ?n)"
    using find_close_print(2) [of 1 qs "CHR '']'' # t"] by (simp add: pair_first_Cons)
  have "find_open ?f = Some 0" by (simp add: pair_first_Cons)
  moreover have "splitByPipe (take ?n (drop 1 ?f)) = map print_items qs"
    by (simp add: splitByPipe_def split_print [OF assms])
  ultimately show ?thesis
    using close by (subst expandField.simps) (simp add: comp_def)
qed

lemma expand_printed:
  "proper_items p \<Longrightarrow> expandField (print_items p) = Some (expansions p)"
  "proper_alts qs \<Longrightarrow> \<exists>is. those (map (\<lambda>q. expandField (print_items q)) qs) = Some is \<and> concat is = alt_expansions qs"
proof (induction p and qs rule: print_items_print_alts.induct)
  case 1
  then show ?case by (simp add: expandField.simps)
next
  case (2 s p)
  then show ?case by (simp add: expandField_escape)
next
  case (3 qs p)
  then show ?case by (auto simp: expandField_Alt)
next
  case (5 q qs)
  then show ?case by (cases "qs = []") auto
qed simp_all

text \<open>C40. \<open>expandField\<close> on the printed form of a pattern gives the pattern's expansions, in order:
  brackets nest, and escaped brackets, bars and backslashes are literal.\<close>

theorem expandField_expands:
  assumes "proper_items p"
  shows "expandField (print_items p) = Some (expansions p)"
  by (rule expand_printed(1) [OF assms])

theorem expandField_expands_witness:
  "expandField (print_items [Lit ''a/'', Alt [[Lit ''x''], [Lit ''y|'']], Lit ''/b'']) =
     Some (expansions [Lit ''a/'', Alt [[Lit ''x''], [Lit ''y|'']], Lit ''/b''])"
  by (rule expandField_expands) simp

subsection \<open>Normal form\<close>

definition all_stars :: "string \<Rightarrow> bool" where
  "all_stars url \<longleftrightarrow> trim (\<lambda>c. c = CHR ''*'') url = []"

lemma all_stars_iff: "all_stars url \<longleftrightarrow> set url \<subseteq> {CHR ''*''}"
  by (auto simp: all_stars_def trim_eq_Nil list_all_iff)

lemma slash_iff: "contains_sub url ''/'' \<longleftrightarrow> CHR ''/'' \<in> set url"
  unfolding contains_sub_iff by (metis append_Cons append_Nil in_set_conv_decomp)

text \<open>The normal form: it does not start with a slash, has a slash unless it is all stars, and does not
  end in a single star.\<close>

definition normal_url :: "string \<Rightarrow> bool" where
  "normal_url url \<longleftrightarrow> \<not> has_prefix url ''/'' \<and> (CHR ''/'' \<in> set url \<or> all_stars url) \<and>
     (has_suffix url ''*'' \<longrightarrow> has_suffix url ''**'')"

lemma normal_url_fixed: "normal_url url \<Longrightarrow> normalizeURL url = url"
  by (auto simp: normal_url_def normalizeURL_def slash_iff all_stars_def Let_def)

lemma double_star: "has_suffix (u @ ''*'') ''**'' \<longleftrightarrow> has_suffix u ''*''"
  by (auto simp: has_suffix_iff)

lemma normalize_normal: "normal_url (normalizeURL url)"
proof -
  define u1 where "u1 = (if has_prefix url ''/'' then CHR ''*'' # url else url)"
  define u2 where "u2 = (if \<not> contains_sub u1 ''/'' \<and> trim (\<lambda>c. c = CHR ''*'') u1 \<noteq> [] then u1 @ ''/**'' else u1)"
  define u3 where "u3 = (if has_suffix u2 ''*'' \<and> \<not> has_suffix u2 ''**'' then u2 @ ''*'' else u2)"
  have n: "normalizeURL url = u3" by (simp add: normalizeURL_def u1_def u2_def u3_def Let_def)
  have p1: "\<not> has_prefix u1 ''/''" by (auto simp: u1_def)
  then have p2: "\<not> has_prefix u2 ''/''"
    by (cases u1) (auto simp: u2_def trim_def trim_left_def trim_right_def)
  have s2: "CHR ''/'' \<in> set u2 \<or> all_stars u2"
    by (auto simp: u2_def slash_iff all_stars_def)
  have "\<not> has_prefix u3 ''/''" using p2 by (cases u2) (auto simp: u3_def)
  moreover have "CHR ''/'' \<in> set u3 \<or> all_stars u3" using s2 by (auto simp: u3_def all_stars_iff)
  moreover have "has_suffix u3 ''*'' \<longrightarrow> has_suffix u3 ''**''"
    by (auto simp: u3_def double_star)
  ultimately show ?thesis by (simp add: n normal_url_def)
qed

text \<open>\<open>normalizeURL\<close> gives a URL that has a host part and a path or is all stars, and does not end in a
  single star; a URL in this form is left alone.\<close>

theorem normalizeURL_normal_form:
  "normal_url (normalizeURL url) \<and> normalizeURL (normalizeURL url) = normalizeURL url"
  using normalize_normal normal_url_fixed by blast

end
