(* ===== verification/Tokenizer.thy ===== *)
theory Tokenizer
  imports Prelude
begin

text \<open>
  \<open>internal/compiler/tokenizer/tokenizer.go\<close>: a route file is cut line by line into parts; calls in
  parentheses, raw strings and blocks stay open across lines. \<open>tokenizer\<close> is what the \<open>Tokenizer\<close> keeps,
  \<open>scan\<close> adds the local variables of one \<open>Tokenize\<close> call, and \<open>scan_char\<close> is the body of its loop.

  The loop runs over bytes: the code decodes runes only to write them back unchanged, and \<open>i\<close> is the
  byte offset of the rune.
\<close>

datatype flag = Text | Bracket | Quoted | Args | Call

record position =
  Line :: nat
  Index :: nat
  Indented :: bool

record part =
  Value :: string
  Flag :: flag
  PartArgs :: string
  Depth :: nat
  Pos :: position

definition part_String :: "part \<Rightarrow> string" where
  "part_String p =
     (case Flag p of
        Call \<Rightarrow> Value p @ ''('' @ PartArgs p @ '')''
      | Args \<Rightarrow> ''('' @ PartArgs p @ '')''
      | _ \<Rightarrow> Value p)"

record tokenizer =
  rawPart :: "part option"
  tk_raw :: string
  parenStack :: "position list"
  braceStack :: "position list"
  tk_args :: string
  paddingParts :: "part list"

definition new_tokenizer :: tokenizer where
  "new_tokenizer = \<lparr>rawPart = None, tk_raw = [], parenStack = [], braceStack = [], tk_args = [], paddingParts = []\<rparr>"

text \<open>The errors, with the panic of the slice \<open>value[1 : len(value)-1]\<close> among them.\<close>

datatype tok_error =
    UnterminatedParentheses position
  | UnterminatedRaw position
  | UnclosedBlock position
  | UnexpectedParen
  | UnexpectedBrace
  | BraceInParentheses
  | UnterminatedQuote
  | SlicePanic

record scan = tokenizer +
  sc_parts :: "part list"
  sc_buf :: string
  inQuote :: bool
  escaped :: bool
  bufStart :: nat

definition is_blank :: "char \<Rightarrow> bool" where
  "is_blank c \<longleftrightarrow> c = CHR '' '' \<or> c = CHR 0x09"

definition isValidContinuation :: "string \<Rightarrow> bool" where
  "isValidContinuation line \<longleftrightarrow>
     (let t = trim_space line
      in t = [] \<or> t = '')'' \<or> has_prefix t [CHR 0x22] \<or> has_prefix t [CHR 0x60])"

definition needsAutoComma :: "string \<Rightarrow> string \<Rightarrow> bool" where
  "needsAutoComma existing line \<longleftrightarrow>
     (let t = trim_space line; e = trim_right is_blank existing
      in (has_prefix t [CHR 0x22] \<or> has_prefix t [CHR 0x60]) \<and> e \<noteq> [] \<and> \<not> has_suffix e '','')"

definition hasSpacePrefix :: "string \<Rightarrow> bool" where
  "hasSpacePrefix line \<longleftrightarrow> has_prefix line ''  '' \<or> has_prefix line [CHR 0x09]"

subsection \<open>The closures of \<open>Tokenize\<close>\<close>

definition new_part :: "string \<Rightarrow> flag \<Rightarrow> string \<Rightarrow> nat \<Rightarrow> position \<Rightarrow> part" where
  "new_part v f a d p = \<lparr>Value = v, Flag = f, PartArgs = a, Depth = d, Pos = p\<rparr>"

definition pos_at :: "nat \<Rightarrow> nat \<Rightarrow> bool \<Rightarrow> position" where
  "pos_at lineNum i indented = \<lparr>Line = lineNum, Index = i, Indented = indented\<rparr>"

definition flush_text :: "nat \<Rightarrow> bool \<Rightarrow> scan \<Rightarrow> scan" where
  "flush_text lineNum indented s =
     (if sc_buf s = [] then s
      else let value = trim_space (sc_buf s); s = s\<lparr>sc_buf := []\<rparr>
           in if value = [] then s
              else s\<lparr>sc_parts := sc_parts s @
                [new_part value Text [] (length (braceStack s)) (pos_at lineNum (bufStart s) indented)]\<rparr>)"

definition flush_quoted :: "nat \<Rightarrow> bool \<Rightarrow> scan \<Rightarrow> tok_error + scan" where
  "flush_quoted lineNum indented s =
     (case slice (sc_buf s) 1 (length (sc_buf s) - 1) of
        None \<Rightarrow> Inl SlicePanic
      | Some v \<Rightarrow> Inr (s\<lparr>sc_buf := [], sc_parts := sc_parts s @
          [new_part v Quoted [] (length (braceStack s)) (pos_at lineNum (bufStart s) indented)]\<rparr>))"

text \<open>\<open>dst.WriteRune(r)\<close>: to the arguments inside parentheses, to the buffer elsewhere.\<close>

definition write_rune :: "char \<Rightarrow> scan \<Rightarrow> scan" where
  "write_rune r s = (if parenStack s \<noteq> [] then s\<lparr>tk_args := tk_args s @ [r]\<rparr> else s\<lparr>sc_buf := sc_buf s @ [r]\<rparr>)"

definition open_paren :: "nat \<Rightarrow> bool \<Rightarrow> nat \<Rightarrow> scan \<Rightarrow> scan" where
  "open_paren lineNum indented i s =
     (let s = (if parenStack s \<noteq> [] then s\<lparr>tk_args := tk_args s @ [CHR ''('']\<rparr>
               else let v = trim_space (sc_buf s)
                    in (if v = [] then s
                        else s\<lparr>paddingParts := paddingParts s @
                          [new_part v Call [] (length (braceStack s)) (pos_at lineNum (bufStart s) indented)]\<rparr>)
                       \<lparr>sc_buf := []\<rparr>)
      in s\<lparr>parenStack := parenStack s @ [pos_at lineNum i indented]\<rparr>)"

definition close_paren :: "scan \<Rightarrow> tok_error + scan" where
  "close_paren s =
     (if parenStack s = [] then Inl UnexpectedParen
      else let pos = last (parenStack s); s = s\<lparr>parenStack := butlast (parenStack s)\<rparr>
           in if parenStack s = [] then
                if paddingParts s \<noteq> [] then
                  Inr (s\<lparr>tk_args := [], paddingParts := [],
                         sc_parts := sc_parts s @ butlast (paddingParts s) @
                           [(last (paddingParts s))\<lparr>PartArgs := tk_args s\<rparr>]\<rparr>)
                else Inr (s\<lparr>tk_args := [],
                            sc_parts := sc_parts s @ [new_part [] Args (tk_args s) (length (braceStack s)) pos]\<rparr>)
              else Inr (s\<lparr>tk_args := tk_args s @ [CHR '')'']\<rparr>))"

definition brace :: "nat \<Rightarrow> bool \<Rightarrow> nat \<Rightarrow> char \<Rightarrow> scan \<Rightarrow> tok_error + scan" where
  "brace lineNum indented i r s =
     (if parenStack s \<noteq> [] then Inl BraceInParentheses
      else let s = flush_text lineNum indented s; pos = pos_at lineNum i indented
           in if r = CHR ''{'' then
                Inr (s\<lparr>braceStack := braceStack s @ [pos],
                       sc_parts := sc_parts s @ [new_part [r] Bracket [] (length (braceStack s) + 1) pos]\<rparr>)
              else if braceStack s = [] then Inl UnexpectedBrace
              else Inr (s\<lparr>braceStack := butlast (braceStack s),
                          sc_parts := sc_parts s @ [new_part [r] Bracket [] (length (braceStack s)) pos]\<rparr>))"

subsection \<open>The loop\<close>

text \<open>Inside a raw string: everything up to the closing back quote is its value.\<close>

definition raw_char :: "char \<Rightarrow> part \<Rightarrow> scan \<Rightarrow> tok_error + scan" where
  "raw_char r p s =
     (let s = s\<lparr>tk_raw := tk_raw s @ [r]\<rparr>
      in if r = CHR 0x60 then
           (case slice (tk_raw s) 1 (length (tk_raw s) - 1) of
              None \<Rightarrow> Inl SlicePanic
            | Some v \<Rightarrow> Inr (s\<lparr>sc_parts := sc_parts s @ [p\<lparr>Value := v\<rparr>], tk_raw := [], rawPart := None\<rparr>))
         else Inr s)"

text \<open>The switch on the rune, outside raw strings.\<close>

definition scan_switch :: "nat \<Rightarrow> bool \<Rightarrow> nat \<Rightarrow> char \<Rightarrow> scan \<Rightarrow> tok_error + scan" where
  "scan_switch lineNum indented i r s =
     (if inQuote s \<and> escaped s then Inr (write_rune r (s\<lparr>escaped := False\<rparr>))
      else if r = CHR 0x5C then
        if inQuote s then Inr (write_rune r (s\<lparr>escaped := True\<rparr>)) else Inr (write_rune r s)
      else if r = CHR 0x22 then
        if parenStack s \<noteq> [] then Inr (write_rune r (s\<lparr>inQuote := \<not> inQuote s\<rparr>))
        else if inQuote s then flush_quoted lineNum indented (s\<lparr>sc_buf := sc_buf s @ [r], inQuote := False\<rparr>)
        else Inr ((flush_text lineNum indented s)\<lparr>sc_buf := [r], inQuote := True\<rparr>)
      else if r = CHR 0x60 then
        if inQuote s \<or> parenStack s \<noteq> [] then Inr (write_rune r s)
        else Inr ((flush_text lineNum indented s)\<lparr>tk_raw := tk_raw s @ [r],
               rawPart := Some (new_part [] Quoted [] (length (braceStack s)) (pos_at lineNum i indented))\<rparr>)
      else if r = CHR ''('' then
        if inQuote s then Inr (write_rune r s) else Inr (open_paren lineNum indented i s)
      else if r = CHR '')'' then
        if inQuote s then Inr (write_rune r s) else close_paren s
      else if r = CHR ''{'' \<or> r = CHR ''}'' then
        if inQuote s then Inr (write_rune r s) else brace lineNum indented i r s
      else if r = CHR '';'' then
        if inQuote s \<or> parenStack s \<noteq> [] then Inr (write_rune r s) else Inr (flush_text lineNum indented s)
      else Inr (write_rune r s))"

definition scan_char :: "nat \<Rightarrow> bool \<Rightarrow> nat \<Rightarrow> char \<Rightarrow> scan \<Rightarrow> tok_error + scan" where
  "scan_char lineNum indented i r s =
     (case rawPart s of
        Some p \<Rightarrow> raw_char r p s
      | None \<Rightarrow> scan_switch lineNum indented i r
          (if parenStack s = [] \<and> trim_space (sc_buf s) = [] then s\<lparr>bufStart := i\<rparr> else s))"

fun scan_line :: "nat \<Rightarrow> bool \<Rightarrow> nat \<Rightarrow> string \<Rightarrow> scan \<Rightarrow> tok_error + scan" where
  "scan_line lineNum indented i [] s = Inr s"
| "scan_line lineNum indented i (r # rs) s =
     (case scan_char lineNum indented i r s of
        Inl e \<Rightarrow> Inl e
      | Inr s' \<Rightarrow> scan_line lineNum indented (i + 1) rs s')"

text \<open>The state at the start of the loop.\<close>

definition start_scan :: "string \<Rightarrow> tokenizer \<Rightarrow> scan" where
  "start_scan line t =
     (let t = (if parenStack t \<noteq> [] \<and> needsAutoComma (tk_args t) line then t\<lparr>tk_args := tk_args t @ '',''\<rparr> else t);
          t = (if rawPart t \<noteq> None \<and> tk_raw t \<noteq> [] then t\<lparr>tk_raw := tk_raw t @ [CHR 0x0A]\<rparr> else t)
      in tokenizer.extend t (scan.fields [] [] False False 0))"

definition Tokenize :: "nat \<Rightarrow> string \<Rightarrow> tokenizer \<Rightarrow> tok_error + (part list \<times> tokenizer)" where
  "Tokenize lineNum line t =
     (if parenStack t \<noteq> [] \<and> \<not> isValidContinuation line
      then Inl (UnterminatedParentheses (last (parenStack t)))
      else let indented = hasSpacePrefix line;
               line' = (if parenStack t \<noteq> [] then trim_left is_blank line else line)
           in case scan_line lineNum indented 0 line' (start_scan line t) of
                Inl e \<Rightarrow> Inl e
              | Inr s \<Rightarrow>
                  if inQuote s then Inl UnterminatedQuote
                  else let s = flush_text lineNum indented s in Inr (sc_parts s, tokenizer.truncate s))"

definition Close :: "tokenizer \<Rightarrow> tok_error option" where
  "Close t =
     (case rawPart t of
        Some p \<Rightarrow> Some (UnterminatedRaw (Pos p))
      | None \<Rightarrow>
          if parenStack t \<noteq> [] then Some (UnterminatedParentheses (last (parenStack t)))
          else if braceStack t \<noteq> [] then Some (UnclosedBlock (last (braceStack t)))
          else None)"

subsection \<open>Invariant\<close>

text \<open>
  Between lines: a raw string is open exactly when its text starts with the back quote, parentheses and
  raw strings are never open together, and arguments and padding belong to open parentheses.
\<close>

definition tok_inv :: "'a tokenizer_scheme \<Rightarrow> bool" where
  "tok_inv t \<longleftrightarrow> (rawPart t = None \<longrightarrow> tk_raw t = []) \<and> (rawPart t \<noteq> None \<longrightarrow> tk_raw t \<noteq> [] \<and> parenStack t = []) \<and>
     (parenStack t = [] \<longrightarrow> tk_args t = [] \<and> paddingParts t = [])"

text \<open>Within a line: an open quote outside parentheses starts the buffer, which is empty inside them.\<close>

definition scan_inv :: "scan \<Rightarrow> bool" where
  "scan_inv s \<longleftrightarrow> tok_inv s \<and> (inQuote s \<and> parenStack s = [] \<longrightarrow> sc_buf s \<noteq> []) \<and>
     (parenStack s \<noteq> [] \<longrightarrow> sc_buf s = []) \<and> (rawPart s \<noteq> None \<longrightarrow> \<not> inQuote s)"

lemma flush_text_simps [simp]:
  "rawPart (flush_text n d s) = rawPart s" "tk_raw (flush_text n d s) = tk_raw s"
  "parenStack (flush_text n d s) = parenStack s" "braceStack (flush_text n d s) = braceStack s"
  "tk_args (flush_text n d s) = tk_args s" "paddingParts (flush_text n d s) = paddingParts s"
  "inQuote (flush_text n d s) = inQuote s" "escaped (flush_text n d s) = escaped s" "sc_buf (flush_text n d s) = []"
  by (simp_all add: flush_text_def Let_def)

lemma flush_text_inv: "scan_inv s \<Longrightarrow> \<not> inQuote s \<Longrightarrow> scan_inv (flush_text n d s)"
  by (simp add: scan_inv_def tok_inv_def)

lemma write_rune_inv: "scan_inv s \<Longrightarrow> rawPart s = None \<Longrightarrow> scan_inv (write_rune r s)"
  by (auto simp: scan_inv_def tok_inv_def write_rune_def)

lemma open_paren_inv: "scan_inv s \<Longrightarrow> rawPart s = None \<Longrightarrow> \<not> inQuote s \<Longrightarrow> scan_inv (open_paren n d i s)"
  by (auto simp: scan_inv_def tok_inv_def open_paren_def Let_def)

text \<open>A step that fails does not fail with the panic, and one that succeeds keeps the invariant.\<close>

definition good :: "tok_error + scan \<Rightarrow> bool" where
  "good r \<longleftrightarrow> (case r of Inl e \<Rightarrow> e \<noteq> SlicePanic | Inr s \<Rightarrow> scan_inv s)"

lemma good_simps [simp]: "good (Inr s) \<longleftrightarrow> scan_inv s" "good (Inl e) \<longleftrightarrow> e \<noteq> SlicePanic"
  by (simp_all add: good_def)

lemma slice_inner: "2 \<le> length v \<Longrightarrow> slice v 1 (length v - 1) = Some (butlast (tl v))"
  by (simp add: slice_def butlast_conv_take drop_take drop_Suc)

lemma flush_quoted_good:
  assumes "scan_inv s" and "2 \<le> length (sc_buf s)" and "\<not> inQuote s"
  shows "good (flush_quoted n d s)"
  using assms slice_inner [OF assms(2)]
  by (auto simp: flush_quoted_def scan_inv_def tok_inv_def)

lemma close_paren_good: "scan_inv s \<Longrightarrow> rawPart s = None \<Longrightarrow> \<not> inQuote s \<Longrightarrow> good (close_paren s)"
  by (auto simp: close_paren_def Let_def scan_inv_def tok_inv_def)

lemma brace_good: "scan_inv s \<Longrightarrow> rawPart s = None \<Longrightarrow> \<not> inQuote s \<Longrightarrow> good (brace n d i r s)"
  by (auto simp: brace_def Let_def scan_inv_def tok_inv_def)

lemma raw_char_good:
  assumes "scan_inv s" and "rawPart s = Some p"
  shows "good (raw_char r p s)"
proof -
  have "2 \<le> length (tk_raw s @ [r])" using assms by (cases "tk_raw s") (auto simp: scan_inv_def tok_inv_def)
  note sl = slice_inner [OF this]
  show ?thesis using assms sl by (auto simp: raw_char_def Let_def scan_inv_def tok_inv_def)
qed

lemma good_if: "(b \<Longrightarrow> good x) \<Longrightarrow> (\<not> b \<Longrightarrow> good y) \<Longrightarrow> good (if b then x else y)"
  by simp

lemma update_inv [simp]:
  "scan_inv (s\<lparr>escaped := b\<rparr>) = scan_inv s" "scan_inv (s\<lparr>bufStart := i\<rparr>) = scan_inv s"
  by (simp_all add: scan_inv_def tok_inv_def)

lemma quote_inv:
  assumes "scan_inv s" and "rawPart s = None"
  shows "parenStack s \<noteq> [] \<Longrightarrow> scan_inv (write_rune r (s\<lparr>inQuote := b\<rparr>))"
    and "parenStack s = [] \<Longrightarrow> scan_inv ((flush_text n d s)\<lparr>sc_buf := [r], inQuote := True\<rparr>)"
    and "parenStack s = [] \<Longrightarrow> \<not> inQuote s \<Longrightarrow> scan_inv ((flush_text n d s)\<lparr>tk_raw := tk_raw s @ [r], rawPart := Some p\<rparr>)"
  using assms by (auto simp: scan_inv_def tok_inv_def write_rune_def)

lemma end_quote_good:
  assumes "scan_inv s" and "rawPart s = None" and "parenStack s = []" and "inQuote s"
  shows "good (flush_quoted n d (s\<lparr>sc_buf := sc_buf s @ [r], inQuote := False\<rparr>))"
proof (rule flush_quoted_good)
  show "2 \<le> length (sc_buf (s\<lparr>sc_buf := sc_buf s @ [r], inQuote := False\<rparr>))"
    using assms by (cases "sc_buf s") (auto simp: scan_inv_def)
qed (use assms in \<open>auto simp: scan_inv_def tok_inv_def\<close>)

lemma scan_switch_good:
  assumes "scan_inv s" and "rawPart s = None"
  shows "good (scan_switch n d i r s)"
  unfolding scan_switch_def
  by (intro good_if;
      simp add: assms write_rune_inv quote_inv end_quote_good open_paren_inv close_paren_good brace_good flush_text_inv)

lemma scan_char_good:
  assumes "scan_inv s"
  shows "good (scan_char n d i r s)"
  using assms by (auto simp: scan_char_def raw_char_good scan_switch_good split: option.split)

lemma scan_line_good: "scan_inv s \<Longrightarrow> good (scan_line n d i line s)"
proof (induction line arbitrary: i s)
  case (Cons r line)
  from scan_char_good [OF Cons.prems, of n d i r] Cons.IH show ?case
    by (auto split: sum.split)
qed simp

lemma tok_inv_new: "tok_inv new_tokenizer"
  by (simp add: tok_inv_def new_tokenizer_def)

lemma start_scan_inv: "tok_inv t \<Longrightarrow> scan_inv (start_scan line t)"
  by (auto simp: start_scan_def scan_inv_def tok_inv_def tokenizer.defs scan.defs Let_def)

lemma Tokenize_inv:
  assumes "tok_inv t"
  shows "case Tokenize n line t of Inl e \<Rightarrow> e \<noteq> SlicePanic | Inr (ps, t') \<Rightarrow> tok_inv t'"
proof -
  have g: "good (scan_line n d 0 line' (start_scan line t))" for d line'
    using assms by (intro scan_line_good start_scan_inv)
  have t: "scan_inv s \<Longrightarrow> \<not> inQuote s \<Longrightarrow> tok_inv (tokenizer.truncate (flush_text n d s))" for s d
    by (simp add: scan_inv_def tok_inv_def tokenizer.defs)
  show ?thesis
    using g [of "hasSpacePrefix line" "if parenStack t \<noteq> [] then trim_left is_blank line else line"] t
    by (auto simp: Tokenize_def Let_def split: sum.splits)
qed

text \<open>The tokenizers that occur while a file is read.\<close>

inductive reachable_tok :: "tokenizer \<Rightarrow> bool" where
  start: "reachable_tok new_tokenizer"
| line: "reachable_tok t \<Longrightarrow> Tokenize n line t = Inr (ps, t') \<Longrightarrow> reachable_tok t'"

lemma reachable_tok_inv: "reachable_tok t \<Longrightarrow> tok_inv t"
proof (induction rule: reachable_tok.induct)
  case start
  show ?case by (rule tok_inv_new)
next
  case (line t n line ps t')
  with Tokenize_inv [of t n line] show ?case by simp
qed

text \<open>However the lines before it look, \<open>Tokenize\<close> never slices a quoted or raw string out of
  range.\<close>

theorem Tokenize_no_panic:
  assumes "reachable_tok t"
  shows "Tokenize n line t \<noteq> Inl SlicePanic"
  using Tokenize_inv [OF reachable_tok_inv [OF assms], of n line] by auto

theorem Tokenize_no_panic_witness: "Tokenize 1 [CHR 0x22, CHR ''a'', CHR 0x22] new_tokenizer \<noteq> Inl SlicePanic"
  by (rule Tokenize_no_panic) (rule reachable_tok.start)

subsection \<open>Blocks\<close>

text \<open>The brackets among the parts, opened minus closed.\<close>

definition bracket_weight :: "part \<Rightarrow> int" where
  "bracket_weight p = (if Flag p = Bracket then if Value p = ''{'' then 1 else -1 else 0)"

definition weight :: "part list \<Rightarrow> int" where
  "weight ps = sum_list (map bracket_weight ps)"

lemma weight_simps [simp]: "weight [] = 0" "weight (p # ps) = bracket_weight p + weight ps"
  "weight (ps @ qs) = weight ps + weight qs"
  by (simp_all add: weight_def)

lemma bracket_weight_new [simp]:
  "bracket_weight (new_part v f a d p) = (if f = Bracket then if v = ''{'' then 1 else -1 else 0)"
  by (simp add: bracket_weight_def new_part_def)

text \<open>Parts that wait for their arguments, or for the end of a raw string, are not brackets.\<close>

definition pending_plain :: "'a tokenizer_scheme \<Rightarrow> bool" where
  "pending_plain t \<longleftrightarrow> (\<forall>p \<in> set (paddingParts t). Flag p \<noteq> Bracket) \<and> (\<forall>p. rawPart t = Some p \<longrightarrow> Flag p \<noteq> Bracket)"

definition balanced :: "int \<Rightarrow> scan \<Rightarrow> bool" where
  "balanced k s \<longleftrightarrow> pending_plain s \<and> int (length (braceStack s)) = k + weight (sc_parts s)"

definition keeps_balance :: "int \<Rightarrow> tok_error + scan \<Rightarrow> bool" where
  "keeps_balance k r \<longleftrightarrow> (case r of Inl e \<Rightarrow> True | Inr s \<Rightarrow> balanced k s)"

lemma keeps_balance_simps [simp]: "keeps_balance k (Inr s) = balanced k s" "keeps_balance k (Inl e)"
  by (simp_all add: keeps_balance_def)

lemma keeps_balance_if:
  "(b \<Longrightarrow> keeps_balance k x) \<Longrightarrow> (\<not> b \<Longrightarrow> keeps_balance k y) \<Longrightarrow> keeps_balance k (if b then x else y)"
  by simp

lemma balanced_update [simp]:
  "balanced k (s\<lparr>escaped := b\<rparr>) = balanced k s" "balanced k (s\<lparr>bufStart := i\<rparr>) = balanced k s"
  "balanced k (s\<lparr>inQuote := b\<rparr>) = balanced k s" "balanced k (s\<lparr>sc_buf := v\<rparr>) = balanced k s"
  "balanced k (s\<lparr>tk_raw := v\<rparr>) = balanced k s" "balanced k (s\<lparr>tk_args := v\<rparr>) = balanced k s"
  "balanced k (s\<lparr>parenStack := ps\<rparr>) = balanced k s"
  by (simp_all add: balanced_def pending_plain_def)

lemma balanced_write [simp]: "balanced k (write_rune r s) = balanced k s"
  by (simp add: write_rune_def)

lemma balanced_flush: "balanced k s \<Longrightarrow> balanced k (flush_text n d s)"
  by (simp add: flush_text_def Let_def) (simp add: balanced_def pending_plain_def)

lemma balanced_raw_start: "balanced k s \<Longrightarrow> Flag p \<noteq> Bracket \<Longrightarrow> balanced k (s\<lparr>rawPart := Some p\<rparr>)"
  by (simp add: balanced_def pending_plain_def)

lemma balanced_quoted: "balanced k s \<Longrightarrow> keeps_balance k (flush_quoted n d s)"
  by (simp add: flush_quoted_def split: option.split) (simp add: balanced_def pending_plain_def)

lemma balanced_open: "balanced k s \<Longrightarrow> balanced k (open_paren n d i s)"
  by (simp add: open_paren_def Let_def) (auto simp: balanced_def pending_plain_def new_part_def)

lemma weight_plain: "\<forall>p \<in> set ps. Flag p \<noteq> Bracket \<Longrightarrow> weight ps = 0"
  by (induction ps) (auto simp: bracket_weight_def)

lemma balanced_close: "balanced k s \<Longrightarrow> keeps_balance k (close_paren s)"
proof -
  assume b: "balanced k s"
  then have "weight (butlast (paddingParts s)) = 0"
    by (intro weight_plain) (auto simp: balanced_def pending_plain_def dest: in_set_butlastD)
  moreover have "paddingParts s \<noteq> [] \<Longrightarrow> Flag (last (paddingParts s)) \<noteq> Bracket"
    using b by (simp add: balanced_def pending_plain_def)
  ultimately show ?thesis using b
    by (simp add: close_paren_def Let_def) (auto simp: balanced_def pending_plain_def bracket_weight_def new_part_def)
qed

lemma balanced_brace: "balanced k s \<Longrightarrow> r = CHR ''{'' \<or> r = CHR ''}'' \<Longrightarrow> keeps_balance k (brace n d i r s)"
  using balanced_flush [of k s n d]
  by (auto simp: brace_def Let_def balanced_def pending_plain_def of_nat_diff Suc_le_eq)

lemma balanced_raw: "balanced k s \<Longrightarrow> rawPart s = Some p \<Longrightarrow> keeps_balance k (raw_char r p s)"
  by (simp add: raw_char_def Let_def split: option.split)
    (auto simp: balanced_def pending_plain_def bracket_weight_def)

lemma scan_switch_balance: "balanced k s \<Longrightarrow> keeps_balance k (scan_switch n d i r s)"
  unfolding scan_switch_def
  by (intro keeps_balance_if;
      simp add: balanced_flush balanced_quoted balanced_open balanced_close balanced_brace
        balanced_raw_start new_part_def)

lemma scan_line_balance: "balanced k s \<Longrightarrow> keeps_balance k (scan_line n d i line s)"
proof (induction line arbitrary: i s)
  case (Cons r line)
  have "keeps_balance k (scan_char n d i r s)"
    using Cons.prems by (auto simp: scan_char_def balanced_raw scan_switch_balance split: option.split)
  with Cons.IH show ?case by (auto split: sum.split)
qed simp

lemma start_scan_balance:
  assumes "pending_plain t"
  shows "balanced (int (length (braceStack t))) (start_scan line t)"
  using assms by (auto simp: start_scan_def balanced_def pending_plain_def tokenizer.defs scan.defs Let_def)

lemma Tokenize_pending:
  assumes "pending_plain t" and "Tokenize n line t = Inr (ps, t')"
  shows "pending_plain t' \<and> int (length (braceStack t')) = int (length (braceStack t)) + weight ps"
proof -
  let ?k = "int (length (braceStack t))"
  have b: "keeps_balance ?k (scan_line n d 0 line' (start_scan line t))" for d line'
    using assms(1) by (intro scan_line_balance start_scan_balance)
  have fl: "balanced ?k s \<Longrightarrow> balanced ?k (flush_text n d s)" for s d by (rule balanced_flush)
  show ?thesis
    using assms(2) b [of "hasSpacePrefix line" "if parenStack t \<noteq> [] then trim_left is_blank line else line"]
      fl [of _ "hasSpacePrefix line"]
    by (fastforce simp: Tokenize_def Let_def balanced_def pending_plain_def tokenizer.defs
        split: sum.splits if_splits)
qed

text \<open>The braces a line opens and closes are exactly its bracket parts: a file that closes without an
  error has as many of one kind as of the other.\<close>

theorem Tokenize_brackets:
  assumes "reachable_tok t" and "Tokenize n line t = Inr (ps, t')"
  shows "int (length (braceStack t')) = int (length (braceStack t)) + weight ps"
proof -
  from assms(1) have "pending_plain t"
  proof (induction rule: reachable_tok.induct)
    case start
    show ?case by (simp add: pending_plain_def new_tokenizer_def)
  next
    case (line t n line ps t')
    then show ?case using Tokenize_pending by blast
  qed
  from Tokenize_pending [OF this assms(2)] show ?thesis by simp
qed

theorem Tokenize_brackets_witness:
  "case Tokenize 1 ''a {'' new_tokenizer of Inl e \<Rightarrow> False
   | Inr (ps, t') \<Rightarrow> int (length (braceStack t')) = int (length (braceStack new_tokenizer)) + weight ps"
proof -
  have "case Tokenize 1 ''a {'' new_tokenizer of Inl e \<Rightarrow> False | Inr _ \<Rightarrow> True" by code_simp
  then obtain ps t' where "Tokenize 1 ''a {'' new_tokenizer = Inr (ps, t')"
    by (auto split: sum.splits)
  with Tokenize_brackets [OF reachable_tok.start this] show ?thesis by simp
qed

end
