(* ===== verification/Temp_Response.thy ===== *)
theory Temp_Response
  imports Prelude
begin

text \<open>
  \<open>internal/core/tempresp/tempresp.go\<close>, the response writer the middlewares write to, and
  \<open>internal/core/routeoptions/routeoptions.go\<close>. The writer buffers until it is committed, or passes
  everything on to the writer below it. \<open>http_writer\<close> is what the sources rely on of Go's
  \<open>http.ResponseWriter\<close>: the first status wins, informational ones aside, writing without one means 200,
  and a status that is not three digits panics.

  Headers are maps from canonical names to the list of values.
\<close>

subsection \<open>The writer of \<open>net/http\<close>\<close>

type_synonym headers = "string \<Rightarrow> string list"

definition no_headers :: headers where "no_headers = (\<lambda>_. [])"

record http_writer =
  hw_header :: headers
  hw_status :: "nat option"
  hw_sent :: headers
  hw_body :: string

definition StatusOK :: nat where "StatusOK = 200"

definition valid_status :: "int \<Rightarrow> bool" where
  "valid_status code \<longleftrightarrow> 100 \<le> code \<and> code \<le> 999"

text \<open>\<open>WriteHeader\<close>: \<^const>\<open>None\<close> is the panic; the headers of that moment are sent.\<close>

definition hw_write_header :: "int \<Rightarrow> http_writer \<Rightarrow> http_writer option" where
  "hw_write_header code w =
     (if hw_status w \<noteq> None then Some w
      else if \<not> valid_status code then None
      else if code < 200 \<and> code \<noteq> 101 then Some w
      else Some (w\<lparr>hw_status := Some (nat code), hw_sent := hw_header w\<rparr>))"

definition hw_write :: "string \<Rightarrow> http_writer \<Rightarrow> http_writer" where
  "hw_write p w =
     (let w = (if hw_status w = None then w\<lparr>hw_status := Some StatusOK, hw_sent := hw_header w\<rparr> else w)
      in w\<lparr>hw_body := hw_body w @ p\<rparr>)"

definition fresh_writer :: http_writer where
  "fresh_writer = \<lparr>hw_header = no_headers, hw_status = None, hw_sent = no_headers, hw_body = []\<rparr>"

subsection \<open>\<open>ResponseWriter\<close>\<close>

record response_writer =
  downstream :: "http_writer option"
  rw_header :: headers
  rw_status :: int
  rw_body :: string
  isPassthrough :: bool

definition newTempResponseWriter :: response_writer where
  "newTempResponseWriter =
     \<lparr>downstream = None, rw_header = no_headers, rw_status = 200, rw_body = [], isPassthrough = False\<rparr>"

definition EnablePassthrough :: "response_writer \<Rightarrow> response_writer" where
  "EnablePassthrough t = t\<lparr>isPassthrough := True\<rparr>"

definition passing :: "response_writer \<Rightarrow> http_writer option" where
  "passing t = (if isPassthrough t then downstream t else None)"

text \<open>\<open>Header()\<close> returns the map itself; an update of it goes to the writer it belongs to.\<close>

definition Header :: "response_writer \<Rightarrow> headers" where
  "Header t = (case passing t of Some w \<Rightarrow> hw_header w | None \<Rightarrow> rw_header t)"

definition update_header :: "(headers \<Rightarrow> headers) \<Rightarrow> response_writer \<Rightarrow> response_writer" where
  "update_header f t =
     (case passing t of
        Some w \<Rightarrow> t\<lparr>downstream := Some (w\<lparr>hw_header := f (hw_header w)\<rparr>)\<rparr>
      | None \<Rightarrow> t\<lparr>rw_header := f (rw_header t)\<rparr>)"

definition WriteHeader :: "int \<Rightarrow> response_writer \<Rightarrow> response_writer option" where
  "WriteHeader code t =
     (case passing t of
        Some w \<Rightarrow> map_option (\<lambda>w'. t\<lparr>downstream := Some w'\<rparr>) (hw_write_header code w)
      | None \<Rightarrow> Some (t\<lparr>rw_status := code\<rparr>))"

definition Write :: "string \<Rightarrow> response_writer \<Rightarrow> response_writer" where
  "Write p t =
     (case passing t of
        Some w \<Rightarrow> t\<lparr>downstream := Some (hw_write p w)\<rparr>
      | None \<Rightarrow> t\<lparr>rw_body := rw_body t @ p\<rparr>)"

definition GetCode :: "response_writer \<Rightarrow> int" where
  "GetCode t = rw_status t"

definition Reset :: "response_writer \<Rightarrow> response_writer" where
  "Reset t = t\<lparr>rw_header := no_headers, rw_body := [], rw_status := 200, downstream := None, isPassthrough := False\<rparr>"

definition Setup :: "http_writer \<Rightarrow> response_writer \<Rightarrow> response_writer" where
  "Setup w t = (Reset t)\<lparr>downstream := Some w\<rparr>"

definition Reply :: "string \<Rightarrow> int \<Rightarrow> response_writer \<Rightarrow> response_writer option" where
  "Reply msg code t =
     (case passing t of
        Some w \<Rightarrow> map_option (\<lambda>w'. t\<lparr>downstream := Some (hw_write msg w')\<rparr>) (hw_write_header code w)
      | None \<Rightarrow> Some (t\<lparr>rw_body := msg, rw_status := code\<rparr>))"

text \<open>\<open>ReplyReader\<close> with the bytes its reader yields; \<open>io.Copy\<close> writes nothing for an empty one.\<close>

definition ReplyReader :: "string \<Rightarrow> int \<Rightarrow> response_writer \<Rightarrow> response_writer option" where
  "ReplyReader r code t =
     (case passing t of
        Some w \<Rightarrow> map_option (\<lambda>w'. t\<lparr>downstream := Some (if r = [] then w' else hw_write r w')\<rparr>) (hw_write_header code w)
      | None \<Rightarrow> Some (t\<lparr>rw_body := r, rw_status := code\<rparr>))"

definition add_headers :: "headers \<Rightarrow> headers \<Rightarrow> headers" where
  "add_headers extra h = (\<lambda>k. h k @ extra k)"

definition send_buffer :: "response_writer \<Rightarrow> http_writer \<Rightarrow> http_writer option" where
  "send_buffer t w =
     (let w = w\<lparr>hw_header := add_headers (rw_header t) (hw_header w)\<rparr>
      in map_option (\<lambda>w'. if rw_body t = [] then w' else hw_write (rw_body t) w') (hw_write_header (rw_status t) w))"

text \<open>The buffer is empty after \<open>body.WriteTo\<close>.\<close>

definition WriteTo :: "http_writer \<Rightarrow> response_writer \<Rightarrow> (http_writer \<times> response_writer) option" where
  "WriteTo w t =
     (if isPassthrough t then Some (w, t)
      else map_option (\<lambda>w'. (w', t\<lparr>rw_body := []\<rparr>)) (send_buffer t w))"

text \<open>\<open>Commit\<close>: \<^const>\<open>None\<close> also where the code calls a method of a nil writer.\<close>

definition Commit :: "response_writer \<Rightarrow> response_writer option" where
  "Commit t =
     (if downstream t = None \<and> isPassthrough t then Some t
      else case downstream t of
        None \<Rightarrow> None
      | Some w \<Rightarrow> map_option (\<lambda>w'. t\<lparr>downstream := Some w', rw_body := []\<rparr>) (send_buffer t w))"

subsection \<open>Route options\<close>

record route_options =
  HasRetryLimit :: bool
  RetryLimit :: nat

definition newOptions :: route_options where
  "newOptions = \<lparr>HasRetryLimit = False, RetryLimit = 0\<rparr>"

definition Options_Reset :: "route_options \<Rightarrow> route_options" where
  "Options_Reset opts = opts\<lparr>HasRetryLimit := False, RetryLimit := 0\<rparr>"

definition SetRetryLimit :: "nat \<Rightarrow> route_options \<Rightarrow> route_options" where
  "SetRetryLimit limit opts = opts\<lparr>HasRetryLimit := True, RetryLimit := limit\<rparr>"

text \<open>\<open>GetOptions\<close> on whatever value the pool hands out.\<close>

definition GetOptions :: "route_options \<Rightarrow> route_options" where
  "GetOptions pooled = Options_Reset pooled"

subsection \<open>Pooled values start fresh\<close>

text \<open>A pooled response writer carries nothing of an earlier request: after \<open>Setup\<close> it equals a new
  one over the same writer, and pooled options equal new ones.\<close>

theorem pooled_values_are_fresh:
  "Setup w t = newTempResponseWriter\<lparr>downstream := Some w\<rparr> \<and> GetOptions opts = newOptions"
  by (cases t; cases opts) (simp add: Setup_def Reset_def newTempResponseWriter_def GetOptions_def
      Options_Reset_def newOptions_def)

subsection \<open>Buffering\<close>

text \<open>The calls a middleware makes.\<close>

datatype call = SetHeaders "headers \<Rightarrow> headers" | Status int | Body string | ReplyWith string int

definition perform :: "call \<Rightarrow> response_writer \<Rightarrow> response_writer option" where
  "perform c t = (case c of
     SetHeaders f \<Rightarrow> Some (update_header f t)
   | Status code \<Rightarrow> WriteHeader code t
   | Body p \<Rightarrow> Some (Write p t)
   | ReplyWith msg code \<Rightarrow> Reply msg code t)"

fun perform_all :: "call list \<Rightarrow> response_writer \<Rightarrow> response_writer option" where
  "perform_all [] t = Some t"
| "perform_all (c # cs) t = (case perform c t of None \<Rightarrow> None | Some t' \<Rightarrow> perform_all cs t')"

text \<open>The reference: what the buffered calls add up to.\<close>

fun outcome :: "call list \<Rightarrow> headers \<times> int \<times> string \<Rightarrow> headers \<times> int \<times> string" where
  "outcome [] r = r"
| "outcome (SetHeaders f # cs) (h, code, b) = outcome cs (f h, code, b)"
| "outcome (Status c # cs) (h, code, b) = outcome cs (h, c, b)"
| "outcome (Body p # cs) (h, code, b) = outcome cs (h, code, b @ p)"
| "outcome (ReplyWith msg c # cs) (h, code, b) = outcome cs (h, c, msg)"

lemma perform_all_buffered:
  assumes "\<not> isPassthrough t" and "outcome cs (rw_header t, rw_status t, rw_body t) = (h, code, b)"
  shows "perform_all cs t = Some (t\<lparr>rw_header := h, rw_status := code, rw_body := b\<rparr>)"
  using assms
proof (induction cs arbitrary: t)
  case (Cons c cs)
  have p: "passing t = None" using Cons.prems(1) by (simp add: passing_def)
  show ?case
    using Cons p by (cases c) (auto simp: perform_def update_header_def WriteHeader_def Write_def Reply_def)
qed simp

text \<open>Whatever a middleware does to a buffering writer reaches the client only with \<open>WriteTo\<close>, and then
  as one response: the last status, the headers added to those already there, and the body since the
  last \<open>Reply\<close>.\<close>

theorem buffered_response:
  assumes "outcome cs (no_headers, 200, []) = (h, code, b)" and "200 \<le> code" and "code \<le> 999"
    and "hw_status w = None" and "hw_body w = []"
  shows "\<exists>t. perform_all cs (Setup w t0) = Some t \<and> downstream t = Some w \<and>
    WriteTo w t = Some (w\<lparr>hw_header := add_headers h (hw_header w), hw_sent := add_headers h (hw_header w),
      hw_status := Some (nat code), hw_body := b\<rparr>, t\<lparr>rw_body := []\<rparr>)"
proof -
  let ?t = "(Setup w t0)\<lparr>rw_header := h, rw_status := code, rw_body := b\<rparr>"
  have "perform_all cs (Setup w t0) = Some ?t"
    using assms(1) by (intro perform_all_buffered) (simp_all add: Setup_def Reset_def)
  moreover have "WriteTo w ?t = Some (w\<lparr>hw_header := add_headers h (hw_header w),
      hw_sent := add_headers h (hw_header w), hw_status := Some (nat code), hw_body := b\<rparr>, ?t\<lparr>rw_body := []\<rparr>)"
    using assms(2-5)
    by (auto simp: WriteTo_def send_buffer_def hw_write_header_def hw_write_def valid_status_def
        Setup_def Reset_def Let_def)
  ultimately show ?thesis by (intro exI [of _ ?t]) (simp add: Setup_def)
qed

theorem buffered_response_witness:
  "\<exists>t. perform_all [Body ''x'', ReplyWith ''no'' 403] (Setup fresh_writer newTempResponseWriter) = Some t \<and>
    downstream t = Some fresh_writer \<and>
    WriteTo fresh_writer t = Some (fresh_writer\<lparr>hw_header := add_headers no_headers (hw_header fresh_writer),
      hw_sent := add_headers no_headers (hw_header fresh_writer),
      hw_status := Some (nat 403), hw_body := ''no''\<rparr>, t\<lparr>rw_body := []\<rparr>)"
  by (rule buffered_response) (simp_all add: fresh_writer_def)

end
