(* ===== verification/Go_Text.thy ===== *)
theory Go_Text
  imports Prelude
begin

text \<open>
  The functions of \<open>strconv\<close> and \<open>path/filepath\<close> the sources use: integers in base 10 with a bit size,
  and the last element of a Unix path with its extension.
\<close>

subsection \<open>\<open>strconv\<close>\<close>

definition is_digit :: "char \<Rightarrow> bool" where
  [go_defs]: "is_digit c \<longleftrightarrow> 48 \<le> byte c \<and> byte c \<le> 57"

definition digits_value :: "string \<Rightarrow> nat" where
  "digits_value s = foldl (\<lambda>n c. 10 * n + (byte c - 48)) 0 s"

text \<open>\<open>ParseUint(s, 10, bits)\<close>: a non-empty string of digits whose value fits; \<^const>\<open>None\<close> is the error.\<close>

definition ParseUint :: "nat \<Rightarrow> string \<Rightarrow> nat option" where
  "ParseUint bits s =
     (if s \<noteq> [] \<and> list_all is_digit s \<and> digits_value s < 2 ^ bits then Some (digits_value s) else None)"

text \<open>\<open>ParseInt(s, 10, bits)\<close>: one optional sign, then as above with the signed range.\<close>

definition ParseInt :: "nat \<Rightarrow> string \<Rightarrow> int option" where
  "ParseInt bits s =
     (let neg = has_prefix s ''-''; un = (if has_prefix s ''+'' \<or> neg then tl s else s)
      in case ParseUint bits un of
           None \<Rightarrow> None
         | Some n \<Rightarrow>
             if \<not> neg \<and> 2 ^ (bits - 1) \<le> n \<or> neg \<and> 2 ^ (bits - 1) < n then None
             else Some (if neg then - int n else int n))"

text \<open>\<open>Atoi\<close> on a 64-bit platform.\<close>

definition Atoi :: "string \<Rightarrow> int option" where
  "Atoi s = ParseInt 64 s"

text \<open>\<open>Itoa\<close>.\<close>

definition digit_char :: "nat \<Rightarrow> char" where
  "digit_char n = char_of (48 + n)"

fun Utoa :: "nat \<Rightarrow> string" where
  "Utoa n = (if n < 10 then [digit_char n] else Utoa (n div 10) @ [digit_char (n mod 10)])"

declare Utoa.simps [simp del]

definition Itoa :: "int \<Rightarrow> string" where
  "Itoa i = (if i < 0 then CHR ''-'' # Utoa (nat (- i)) else Utoa (nat i))"

lemma byte_digit_char: "n < 10 \<Longrightarrow> byte (digit_char n) = 48 + n"
  by (simp add: byte_def digit_char_def)

lemma digits_value_append: "digits_value (a @ [c]) = 10 * digits_value a + (byte c - 48)"
  by (simp add: digits_value_def)

lemma Utoa_digits: "Utoa n \<noteq> [] \<and> list_all is_digit (Utoa n) \<and> digits_value (Utoa n) = n"
proof (induction n rule: Utoa.induct)
  case (1 n)
  show ?case
  proof (cases "n < 10")
    case True
    then show ?thesis
      by (subst Utoa.simps, subst Utoa.simps, subst Utoa.simps) (simp add: is_digit_def byte_digit_char digits_value_def)
  next
    case False
    with 1 have "Utoa n = Utoa (n div 10) @ [digit_char (n mod 10)]" by (subst Utoa.simps) simp
    moreover have "byte (digit_char (n mod 10)) = 48 + n mod 10" by (rule byte_digit_char) simp
    ultimately show ?thesis using 1 False by (simp add: digits_value_append is_digit_def)
  qed
qed

lemma ParseUint_Utoa: "n < 2 ^ bits \<Longrightarrow> ParseUint bits (Utoa n) = Some n"
  using Utoa_digits [of n] by (simp add: ParseUint_def)

subsection \<open>\<open>path/filepath\<close>\<close>

text \<open>The part of a path after its last slash.\<close>

definition after_slash :: "string \<Rightarrow> string" where
  "after_slash p = (case last_index p (CHR ''/'') of None \<Rightarrow> p | Some i \<Rightarrow> drop (Suc i) p)"

definition path_Base :: "string \<Rightarrow> string" where
  "path_Base p =
     (if p = [] then ''.''
      else let p = trim_right (\<lambda>c. c = CHR ''/'') p; p = after_slash p
           in if p = [] then ''/'' else p)"

definition path_Ext :: "string \<Rightarrow> string" where
  "path_Ext p =
     (let e = after_slash p
      in case last_index e (CHR ''.'') of None \<Rightarrow> [] | Some i \<Rightarrow> drop i e)"

end
