(* ===== verification/Load_Balance.thy ===== *)
theory Load_Balance
  imports Go_Text "HOL-Library.Word"
begin

text \<open>
  \<open>internal/core/registry/loadbalance\<close>: node weights, the smooth weighted round robin, the least in
  flight order and the power of two choices. A forwarder is the record of the fields the balancers
  read; its in-flight weight changes all the time, so the load at the moment of a call is an argument.
\<close>

record forwarder =
  ServiceName :: string
  SocketPath :: string
  Weight :: int

subsection \<open>\<open>weight.go\<close>\<close>

definition maxNodeWeight :: int where "maxNodeWeight = 100"

definition ParseNodeWeight :: "string \<Rightarrow> int \<times> bool" where
  "ParseNodeWeight nodePath =
     (let base = path_Base nodePath; base = trim_suffix base (path_Ext base)
      in case last_index base (CHR ''@'') of
           None \<Rightarrow> (1, True)
         | Some at \<Rightarrow>
             (case ParseInt 32 (drop (at + 1) base) of
                None \<Rightarrow> (1, False)
              | Some parsed \<Rightarrow> if parsed \<le> 0 \<or> maxNodeWeight < parsed then (1, False) else (parsed, True)))"

subsection \<open>\<open>roundrobin.go\<close>\<close>

text \<open>The first index whose value is larger than all before it.\<close>

fun best_index :: "int list \<Rightarrow> nat \<Rightarrow> nat option \<times> int \<Rightarrow> nat option" where
  "best_index [] i (best, v) = best"
| "best_index (c # cs) i (best, v) =
     (if best = None \<or> v < c then best_index cs (i + 1) (Some i, c) else best_index cs (i + 1) (best, v))"

text \<open>One round: every current value grows by its weight, the largest is picked and pays the total.
  \<^const>\<open>None\<close> is \<open>forwarders[-1]\<close>.\<close>

definition rr_round :: "int list \<Rightarrow> int \<Rightarrow> int list \<Rightarrow> (nat \<times> int list) option" where
  "rr_round weights tot current =
     (let current = map2 (+) current weights
      in case best_index current 0 (None, 0) of
           None \<Rightarrow> None
         | Some best \<Rightarrow> Some (best, current[best := current ! best - tot]))"

fun rr_rounds :: "int list \<Rightarrow> int \<Rightarrow> nat \<Rightarrow> int list \<Rightarrow> nat list option" where
  "rr_rounds weights tot 0 current = Some []"
| "rr_rounds weights tot (Suc n) current =
     (case rr_round weights tot current of
        None \<Rightarrow> None
      | Some (best, current') \<Rightarrow> map_option ((#) best) (rr_rounds weights tot n current'))"

record round_robin =
  rr_forwarders :: "forwarder list"
  rr_cursor :: "32 word"

definition NewRoundRobin :: "forwarder list \<Rightarrow> round_robin option" where
  "NewRoundRobin fwds =
     (let n = length fwds; weights = map Weight fwds; tot = sum_list weights
      in if n = 0 then Some \<lparr>rr_forwarders = [], rr_cursor = 0\<rparr>
         else if tot = int n then Some \<lparr>rr_forwarders = fwds, rr_cursor = 0\<rparr>
         else map_option (\<lambda>picks. \<lparr>rr_forwarders = map ((!) fwds) picks, rr_cursor = 0\<rparr>)
                (rr_rounds weights tot (nat tot) (replicate n 0)))"

text \<open>The list from the cursor on, then the part before it.\<close>

definition rotated :: "'a list \<Rightarrow> 32 word \<Rightarrow> 'a list" where
  "rotated fwds cursor = (let start = unat cursor mod length fwds in drop start fwds @ take start fwds)"

definition rr_Get :: "round_robin \<Rightarrow> forwarder list \<times> round_robin" where
  "rr_Get rr =
     (if rr_forwarders rr = [] then ([], rr)
      else let cursor = rr_cursor rr + 1 in (rotated (rr_forwarders rr) cursor, rr\<lparr>rr_cursor := cursor\<rparr>))"

subsection \<open>\<open>leastinflight.go\<close>\<close>

record least_in_flight =
  li_forwarders :: "forwarder list"
  li_cursor :: "32 word"

definition NewLeastInFlight :: "forwarder list \<Rightarrow> least_in_flight" where
  "NewLeastInFlight fwds = \<lparr>li_forwarders = fwds, li_cursor = 0\<rparr>"

definition SortByLoad :: "('a \<Rightarrow> int) \<Rightarrow> 'a list \<Rightarrow> 'a list" where
  "SortByLoad load items = sort_key load items"

definition li_Get :: "(forwarder \<Rightarrow> int) \<Rightarrow> least_in_flight \<Rightarrow> forwarder list \<times> least_in_flight" where
  "li_Get load li =
     (if li_forwarders li = [] then ([], li)
      else let cursor = li_cursor li + 1
           in (SortByLoad load (rotated (li_forwarders li) cursor), li\<lparr>li_cursor := cursor\<rparr>))"

text \<open>\<open>GetP2C\<close>: \<open>i\<close> and \<open>j\<close> are the values of \<open>rand.IntN(n)\<close> and \<open>rand.IntN(n - 1)\<close>.\<close>

definition others :: "nat \<Rightarrow> nat \<Rightarrow> 'a list \<Rightarrow> 'a list" where
  "others i j xs = map snd (filter (\<lambda>(k, _). k \<noteq> i \<and> k \<noteq> j) (enumerate 0 xs))"

definition GetP2C :: "(forwarder \<Rightarrow> int) \<Rightarrow> nat \<Rightarrow> nat \<Rightarrow> least_in_flight \<Rightarrow> forwarder list" where
  "GetP2C load i j li =
     (let fwds = li_forwarders li; n = length fwds
      in if n = 0 then [] else if n = 1 then [fwds ! 0]
         else let j = (if i \<le> j then j + 1 else j);
                  (i, j) = (if load (fwds ! j) < load (fwds ! i) then (j, i) else (i, j))
              in [fwds ! i, fwds ! j] @ others i j fwds)"

subsection \<open>One period of the smooth weighted round robin\<close>

lemma best_index_Some:
  "\<exists>b. best_index cs i (Some b0, v) = Some b \<and>
     (b = b0 \<and> (\<forall>c \<in> set cs. c \<le> v) \<or> (\<exists>k < length cs. b = i + k \<and> v < cs ! k \<and> (\<forall>c \<in> set cs. c \<le> cs ! k)))"
proof (induction cs arbitrary: i b0 v)
  case (Cons c cs)
  show ?case
  proof (cases "v < c")
    case True
    then obtain b where b: "best_index (c # cs) i (Some b0, v) = Some b"
      and "b = i \<and> (\<forall>x \<in> set cs. x \<le> c) \<or> (\<exists>k < length cs. b = Suc i + k \<and> c < cs ! k \<and> (\<forall>x \<in> set cs. x \<le> cs ! k))"
      using Cons.IH [of "i + 1" i c] by auto
    then consider "b = i" "\<forall>x \<in> set cs. x \<le> c"
      | k where "k < length cs" "b = Suc i + k" "c < cs ! k" "\<forall>x \<in> set cs. x \<le> cs ! k" by blast
    then show ?thesis
    proof cases
      case 1
      with b True show ?thesis by (intro exI [of _ b]) (auto intro!: exI [of _ 0])
    next
      case 2
      with b True show ?thesis by (intro exI [of _ b]) (auto intro!: exI [of _ "Suc k"])
    qed
  next
    case False
    then obtain b where b: "best_index (c # cs) i (Some b0, v) = Some b"
      and "b = b0 \<and> (\<forall>x \<in> set cs. x \<le> v) \<or> (\<exists>k < length cs. b = Suc i + k \<and> v < cs ! k \<and> (\<forall>x \<in> set cs. x \<le> cs ! k))"
      using Cons.IH [of "i + 1" b0 v] by auto
    then consider "b = b0" "\<forall>x \<in> set cs. x \<le> v"
      | k where "k < length cs" "b = Suc i + k" "v < cs ! k" "\<forall>x \<in> set cs. x \<le> cs ! k" by blast
    then show ?thesis
    proof cases
      case 1
      with b False show ?thesis by (intro exI [of _ b]) auto
    next
      case 2
      with b False show ?thesis by (intro exI [of _ b]) (auto intro!: exI [of _ "Suc k"])
    qed
  qed
qed simp

lemma best_index_max:
  assumes "cs \<noteq> []"
  obtains b where "best_index cs 0 (None, 0) = Some b" "b < length cs" "\<forall>c \<in> set cs. c \<le> cs ! b"
proof -
  from assms obtain c cs' where cs: "cs = c # cs'" by (cases cs) auto
  have "best_index cs 0 (None, 0) = best_index cs' (Suc 0) (Some 0, c)" by (simp add: cs)
  then obtain b where b: "best_index cs 0 (None, 0) = Some b"
    and "b = 0 \<and> (\<forall>x \<in> set cs'. x \<le> c) \<or> (\<exists>k < length cs'. b = Suc 0 + k \<and> c < cs' ! k \<and> (\<forall>x \<in> set cs'. x \<le> cs' ! k))"
    using best_index_Some [of cs' "Suc 0" 0 c] by auto
  then have "b < length cs \<and> (\<forall>c \<in> set cs. c \<le> cs ! b)" by (auto simp: cs)
  with b show thesis by (intro that) auto
qed

text \<open>The values sum to zero and stay above \<open>- total\<close>.\<close>

definition rr_inv :: "int list \<Rightarrow> int \<Rightarrow> int list \<Rightarrow> bool" where
  "rr_inv weights tot current \<longleftrightarrow> length current = length weights \<and> sum_list current = 0 \<and>
     (\<forall>c \<in> set current. - tot < c)"

lemma sum_list_map2_plus:
  "length xs = length ys \<Longrightarrow> sum_list (map2 (+) xs ys) = sum_list xs + (sum_list ys :: int)"
  by (induction xs ys rule: list_induct2) auto

lemma sum_list_update_int: "k < length xs \<Longrightarrow> sum_list (xs[k := x]) = sum_list xs + x - (xs ! k :: int)"
  by (induction xs arbitrary: k) (auto split: nat.splits)

lemma sum_list_le_0: "(\<forall>c \<in> set cs. c \<le> (0 :: int)) \<Longrightarrow> sum_list cs \<le> 0"
  by (induction cs) (auto simp: add_nonpos_nonpos)

lemma rr_round_inv:
  assumes inv: "rr_inv weights tot current" and tot: "tot = sum_list weights" "0 < tot"
    and nonneg: "\<forall>w \<in> set weights. 0 \<le> w"
  obtains b current' where "rr_round weights tot current = Some (b, current')" "b < length weights"
    "rr_inv weights tot current'"
    "\<forall>k < length weights. current' ! k = current ! k + weights ! k - (if k = b then tot else 0)"
proof -
  let ?c = "map2 (+) current weights"
  have len: "length current = length weights" and s0: "sum_list current = 0"
    using inv by (auto simp: rr_inv_def)
  have lc: "length ?c = length weights" using len by simp
  have sum: "sum_list ?c = tot" using len s0 tot by (simp add: sum_list_map2_plus)
  have "weights \<noteq> []" using tot by auto
  then have "?c \<noteq> []" using lc by (metis length_0_conv)
  then obtain b where b: "best_index ?c 0 (None, 0) = Some b" "b < length ?c" "\<forall>c \<in> set ?c. c \<le> ?c ! b"
    by (rule best_index_max)
  have pos: "0 < ?c ! b"
  proof (rule ccontr)
    assume "\<not> 0 < ?c ! b"
    with b(3) have "\<forall>c \<in> set ?c. c \<le> 0" by force
    from sum_list_le_0 [OF this] sum tot(2) show False by simp
  qed
  let ?c' = "?c[b := ?c ! b - tot]"
  have "rr_round weights tot current = Some (b, ?c')" using b(1) by (simp add: rr_round_def Let_def)
  moreover have "b < length weights" using b(2) lc by simp
  moreover have "\<forall>k < length weights. ?c' ! k = current ! k + weights ! k - (if k = b then tot else 0)"
    using b(2) len by (auto simp: nth_list_update)
  moreover have "rr_inv weights tot ?c'"
    unfolding rr_inv_def
  proof (intro conjI)
    show "length ?c' = length weights" using lc by simp
    show "sum_list ?c' = 0" using sum_list_update_int [of b ?c "?c ! b - tot"] b(2) sum by linarith
    show "\<forall>c \<in> set ?c'. - tot < c"
    proof
      fix c assume "c \<in> set ?c'"
      then obtain k where k: "k < length weights" "c = ?c' ! k" using lc by (auto simp: in_set_conv_nth)
      show "- tot < c"
      proof (cases "k = b")
        case True
        with k pos b(2) show ?thesis by simp
      next
        case False
        have "- tot < current ! k" using inv k(1) len by (simp add: rr_inv_def)
        moreover have "0 \<le> weights ! k" using nonneg k(1) by simp
        ultimately show ?thesis using False k len by simp
      qed
    qed
  qed
  ultimately show thesis by - (rule that)
qed

lemma rr_rounds_inv:
  assumes "rr_inv weights tot current" and tot: "tot = sum_list weights" "0 < tot"
    and nonneg: "\<forall>w \<in> set weights. 0 \<le> w"
  shows "\<exists>picks current'. rr_rounds weights tot m current = Some picks \<and> length picks = m \<and>
    set picks \<subseteq> {..<length weights} \<and> rr_inv weights tot current' \<and>
    (\<forall>k < length weights. current' ! k = current ! k + int m * weights ! k - tot * int (count_list picks k))"
  using assms(1)
proof (induction m arbitrary: current)
  case 0
  then show ?case by (intro exI [of _ "[]"] exI [of _ current]) simp
next
  case (Suc m)
  from rr_round_inv [OF Suc.prems tot nonneg] obtain b c1 where
    b: "rr_round weights tot current = Some (b, c1)" "b < length weights" "rr_inv weights tot c1"
    "\<forall>k < length weights. c1 ! k = current ! k + weights ! k - (if k = b then tot else 0)" by blast
  from Suc.IH [OF b(3)] obtain ps c2 where
    ps: "rr_rounds weights tot m c1 = Some ps" "length ps = m" "set ps \<subseteq> {..<length weights}" "rr_inv weights tot c2"
    "\<forall>k < length weights. c2 ! k = c1 ! k + int m * weights ! k - tot * int (count_list ps k)" by blast
  show ?case
    by (intro exI [of _ "b # ps"] exI [of _ c2]) (use b ps in \<open>auto simp: algebra_simps\<close>)
qed

lemma rr_rounds_period:
  assumes tot: "tot = sum_list weights" "0 < tot" and nonneg: "\<forall>w \<in> set weights. 0 \<le> w"
  obtains picks where "rr_rounds weights tot (nat tot) (replicate (length weights) 0) = Some picks"
    "set picks \<subseteq> {..<length weights}" "\<forall>k < length weights. int (count_list picks k) = weights ! k"
proof -
  have "rr_inv weights tot (replicate (length weights) 0)"
    using tot(2) by (simp add: rr_inv_def sum_list_replicate)
  from rr_rounds_inv [OF this tot nonneg, of "nat tot"] obtain picks c where
    p: "rr_rounds weights tot (nat tot) (replicate (length weights) 0) = Some picks"
      "set picks \<subseteq> {..<length weights}" "rr_inv weights tot c"
    and c: "\<forall>k < length weights. c ! k = replicate (length weights) 0 ! k + int (nat tot) * weights ! k -
        tot * int (count_list picks k)" by blast
  have c': "c ! k = tot * (weights ! k - int (count_list picks k))" if "k < length weights" for k
    using c that tot(2) by (simp add: algebra_simps)
  have lc: "length c = length weights" and sc: "sum_list c = 0" and bound: "\<forall>x \<in> set c. - tot < x"
    using p(3) by (auto simp: rr_inv_def)
  have nn: "0 \<le> c ! k" if "k < length weights" for k
  proof -
    have "tot * - 1 < tot * (weights ! k - int (count_list picks k))"
      using bound that lc c' by (metis mult_minus1_right nth_mem)
    then have "- 1 < weights ! k - int (count_list picks k)" using tot(2) by (simp only: mult_less_cancel_left_pos)
    then show ?thesis using c' [OF that] tot(2) by simp
  qed
  then have "\<forall>x \<in> set c. 0 \<le> x" by (metis in_set_conv_nth lc)
  then have "\<forall>x \<in> set c. x = 0" using sc by (simp add: sum_list_nonneg_eq_0_iff)
  then have "int (count_list picks k) = weights ! k" if "k < length weights" for k
    using c' [OF that] that lc tot(2) by (metis eq_iff_diff_eq_0 less_irrefl mult_eq_0_iff nth_mem)
  then show thesis using that p by blast
qed

text \<open>The list every forwarder is in as often as its weight says.\<close>

definition weighted :: "forwarder list \<Rightarrow> forwarder list" where
  "weighted fwds = concat (map (\<lambda>f. replicate (nat (Weight f)) f) fwds)"

lemma map_picks:
  assumes "set picks \<subseteq> {..<length fwds}"
    and "\<forall>k < length fwds. int (count_list picks k) = Weight (fwds ! k)"
  shows "mset (map ((!) fwds) picks) = mset (weighted fwds)"
proof -
  let ?ks = "concat (map (\<lambda>k. replicate (nat (Weight (fwds ! k))) k) [0..<length fwds])"
  have "count (mset ?ks) k = (if k < n then nat (Weight (fwds ! k)) else 0)" if "n = length fwds" for n k
  proof -
    have "count (mset (concat (map (\<lambda>k. replicate (nat (Weight (fwds ! k))) k) [0..<n]))) k =
        (if k < n then nat (Weight (fwds ! k)) else 0)" for n
      by (induction n) (auto simp: less_Suc_eq)
    then show ?thesis using that by blast
  qed
  moreover have "count (mset picks) k = (if k < length fwds then nat (Weight (fwds ! k)) else 0)" for k
  proof (cases "k < length fwds")
    case True
    with assms(2) have "count_list picks k = nat (Weight (fwds ! k))" by (metis nat_int)
    with True show ?thesis by (simp add: count_mset)
  next
    case False
    with assms(1) have "k \<notin> set picks" by auto
    with False show ?thesis by (simp add: count_mset count_list_0_iff)
  qed
  ultimately have "mset picks = mset ?ks" by (intro multiset_eqI) simp
  then have "mset (map ((!) fwds) picks) = mset (map ((!) fwds) ?ks)" by simp
  also have "map ((!) fwds) ?ks = concat (map (\<lambda>k. replicate (nat (Weight (fwds ! k))) (fwds ! k)) [0..<length fwds])"
    by (simp add: map_concat comp_def)
  also have "\<dots> = weighted fwds"
  proof -
    have "map (\<lambda>k. replicate (nat (Weight (fwds ! k))) (fwds ! k)) [0..<length fwds] =
        map (\<lambda>f. replicate (nat (Weight f)) f) (map ((!) fwds) [0..<length fwds])"
      by simp
    then show ?thesis by (simp add: weighted_def map_nth)
  qed
  finally show ?thesis .
qed

lemma weights_lower: "\<forall>f \<in> set fwds. 1 \<le> Weight f \<Longrightarrow> int (length fwds) \<le> sum_list (map Weight fwds)"
  by (induction fwds) auto

lemma all_ones: "\<forall>f \<in> set fwds. 1 \<le> Weight f \<Longrightarrow> sum_list (map Weight fwds) = int (length fwds) \<Longrightarrow>
  weighted fwds = fwds"
proof -
  assume w: "\<forall>f \<in> set fwds. 1 \<le> Weight f" and s: "sum_list (map Weight fwds) = int (length fwds)"
  from weights_lower [OF w] w s have "\<forall>f \<in> set fwds. Weight f = 1"
  proof (induction fwds)
    case (Cons f fwds)
    then have "int (length fwds) \<le> sum_list (map Weight fwds)" "1 \<le> Weight f" by (simp_all add: weights_lower)
    with Cons show ?case by force
  qed simp
  then show ?thesis by (induction fwds) (simp_all add: weighted_def)
qed

lemma NewRoundRobin_weighted:
  assumes "\<forall>f \<in> set fwds. 1 \<le> Weight f"
  shows "\<exists>rr. NewRoundRobin fwds = Some rr \<and> mset (rr_forwarders rr) = mset (weighted fwds) \<and> rr_cursor rr = 0"
proof (cases "fwds = [] \<or> sum_list (map Weight fwds) = int (length fwds)")
  case True
  with assms all_ones show ?thesis by (auto simp: NewRoundRobin_def Let_def weighted_def)
next
  case False
  let ?w = "map Weight fwds"
  have "0 < sum_list ?w" using weights_lower [OF assms] False by (cases fwds) auto
  moreover have "\<forall>w \<in> set ?w. 0 \<le> w" using assms by force
  ultimately obtain picks where p: "rr_rounds ?w (sum_list ?w) (nat (sum_list ?w)) (replicate (length ?w) 0) = Some picks"
    "set picks \<subseteq> {..<length ?w}" "\<forall>k < length ?w. int (count_list picks k) = ?w ! k"
    using rr_rounds_period [OF refl] by blast
  have "mset (map ((!) fwds) picks) = mset (weighted fwds)" by (rule map_picks) (use p in auto)
  then show ?thesis using False p(1) by (simp add: NewRoundRobin_def Let_def)
qed

subsection \<open>What a balancer promises\<close>

text \<open>Every call offers all members, in some order, and leaves the members as they are. The input is
  what a call depends on besides the balancer: the loads and the random choices.\<close>

locale balancer =
  fixes choices :: "'i \<Rightarrow> 'b \<Rightarrow> forwarder list \<times> 'b"
    and members :: "'b \<Rightarrow> forwarder list"
    and valid :: "'i \<Rightarrow> 'b \<Rightarrow> bool"
  assumes choices_mset: "valid i b \<Longrightarrow> mset (fst (choices i b)) = mset (members b)"
    and choices_members: "members (snd (choices i b)) = members b"
begin

lemma choices_set: "valid i b \<Longrightarrow> set (fst (choices i b)) = set (members b)"
  using choices_mset [of i b] by (metis set_mset_mset)

lemma members_after: "members (fold (\<lambda>i b. snd (choices i b)) is b) = members b"
  by (induction "is" arbitrary: b) (simp_all add: choices_members)

lemma choices_after:
  "valid i (fold (\<lambda>i b. snd (choices i b)) is b) \<Longrightarrow>
   mset (fst (choices i (fold (\<lambda>i b. snd (choices i b)) is b))) = mset (members b)"
  by (simp add: choices_mset members_after)

end

lemma mset_rotated: "mset (rotated xs c) = mset xs"
  by (simp add: rotated_def Let_def flip: mset_append) (metis append_take_drop_id mset_append union_commute)

interpretation round: balancer "\<lambda>_. rr_Get" rr_forwarders "\<lambda>_ _. True"
  by unfold_locales (simp_all add: rr_Get_def Let_def mset_rotated)

interpretation least: balancer li_Get li_forwarders "\<lambda>_ _. True"
  by unfold_locales (simp_all add: li_Get_def Let_def SortByLoad_def mset_rotated)

definition valid_choice :: "nat \<Rightarrow> nat \<Rightarrow> 'a list \<Rightarrow> bool" where
  "valid_choice i j fwds \<longleftrightarrow> (2 \<le> length fwds \<longrightarrow> i < length fwds \<and> j < length fwds - 1)"

lemma others_nth: "others i j xs = map ((!) xs) (filter (\<lambda>k. k \<noteq> i \<and> k \<noteq> j) [0..<length xs])"
proof -
  have "enumerate 0 xs = map (\<lambda>k. (k, xs ! k)) [0..<length xs]"
    by (rule nth_equalityI) (simp_all add: nth_enumerate_eq)
  then show ?thesis by (simp add: others_def filter_map comp_def)
qed

lemma mset_others:
  assumes "i < length xs" and "j < length xs" and "i \<noteq> j"
  shows "mset ([xs ! i, xs ! j] @ others i j xs) = mset xs"
proof -
  let ?ks = "filter (\<lambda>k. k \<noteq> i \<and> k \<noteq> j) [0..<length xs]"
  have "mset (i # j # ?ks) = mset [0..<length xs]"
    by (rule set_eq_iff_mset_eq_distinct [THEN iffD1]) (use assms in auto)
  then have "mset (map ((!) xs) (i # j # ?ks)) = mset (map ((!) xs) [0..<length xs])" by (simp only: mset_map)
  then show ?thesis by (simp add: others_nth map_nth)
qed

lemma GetP2C_two:
  assumes "2 \<le> length (li_forwarders li)" and "valid_choice i j (li_forwarders li)"
  obtains a b where "a < length (li_forwarders li)" "b < length (li_forwarders li)" "a \<noteq> b"
    "load (li_forwarders li ! a) \<le> load (li_forwarders li ! b)"
    "GetP2C load i j li = [li_forwarders li ! a, li_forwarders li ! b] @ others a b (li_forwarders li)"
proof -
  let ?f = "li_forwarders li" and ?j = "if i \<le> j then j + 1 else j"
  have ij: "i < length ?f" "?j < length ?f" "i \<noteq> ?j" using assms by (auto simp: valid_choice_def)
  have "?f \<noteq> []" "length ?f \<noteq> 1" using assms(1) by auto
  then have eq: "GetP2C load i j li =
      (case (if load (?f ! ?j) < load (?f ! i) then (?j, i) else (i, ?j)) of (a, b) \<Rightarrow> [?f ! a, ?f ! b] @ others a b ?f)"
    by (simp only: GetP2C_def Let_def length_0_conv if_False)
  show thesis
  proof (cases "load (?f ! ?j) < load (?f ! i)")
    case True
    with eq ij show thesis by (intro that [of ?j i]) simp_all
  next
    case False
    with eq ij show thesis by (intro that [of i ?j]) simp_all
  qed
qed

lemma GetP2C_mset: "valid_choice i j (li_forwarders li) \<Longrightarrow> mset (GetP2C load i j li) = mset (li_forwarders li)"
proof (cases "2 \<le> length (li_forwarders li)")
  case True
  assume "valid_choice i j (li_forwarders li)"
  from GetP2C_two [OF True this] show ?thesis by (metis mset_others)
next
  case False
  then consider "li_forwarders li = []" | f where "li_forwarders li = [f]"
    by (metis One_nat_def Suc_1 Suc_leI length_0_conv length_Suc_conv less_2_cases not_less)
  then show ?thesis by cases (simp_all add: GetP2C_def Let_def)
qed

interpretation two: balancer "\<lambda>(load, i, j) li. (GetP2C load i j li, li)" li_forwarders
  "\<lambda>(load, i, j) li. valid_choice i j (li_forwarders li)"
  by unfold_locales (auto simp: GetP2C_mset)

subsection \<open>Properties\<close>

lemma ParseNodeWeight_range: "1 \<le> fst (ParseNodeWeight p) \<and> fst (ParseNodeWeight p) \<le> maxNodeWeight"
  by (simp add: ParseNodeWeight_def maxNodeWeight_def Let_def split: option.splits)

text \<open>C36. The smooth weighted round robin: whatever the positive weights, \<open>NewRoundRobin\<close> does not index
  out of range and its list holds every forwarder exactly as often as its weight.\<close>

theorem round_robin_weights:
  assumes "\<forall>f \<in> set fwds. 1 \<le> Weight f"
  shows "\<exists>rr. NewRoundRobin fwds = Some rr \<and> mset (rr_forwarders rr) = mset (weighted fwds) \<and> rr_cursor rr = 0"
  using assms by (rule NewRoundRobin_weighted)

text \<open>A set of nodes with the weights of its file names.\<close>

definition node_forwarder :: "string \<Rightarrow> forwarder" where
  "node_forwarder node = \<lparr>ServiceName = ''s'', SocketPath = node, Weight = fst (ParseNodeWeight node)\<rparr>"

theorem round_robin_weights_witness:
  "\<exists>rr. NewRoundRobin (map node_forwarder [''s/a@3.sock'', ''s/b.sock'']) = Some rr \<and>
     mset (rr_forwarders rr) = mset (weighted (map node_forwarder [''s/a@3.sock'', ''s/b.sock''])) \<and> rr_cursor rr = 0"
  by (rule round_robin_weights) (simp add: node_forwarder_def ParseNodeWeight_range)

text \<open>The first choices of the next \<open>n\<close> calls.\<close>

fun first_choices :: "nat \<Rightarrow> round_robin \<Rightarrow> forwarder list" where
  "first_choices 0 rr = []"
| "first_choices (Suc n) rr = hd (fst (rr_Get rr)) # first_choices n (snd (rr_Get rr))"

lemma hd_rotated: "xs \<noteq> [] \<Longrightarrow> hd (rotated xs c) = xs ! (unat c mod length xs)"
proof -
  assume "xs \<noteq> []"
  then have "unat c mod length xs < length xs" by simp
  then have "drop (unat c mod length xs) xs \<noteq> []" by simp
  then show ?thesis by (simp add: rotated_def Let_def hd_append hd_drop_conv_nth \<open>_ < length xs\<close>)
qed

lemma unat_next: "unat (c :: 32 word) + 1 < 2 ^ 32 \<Longrightarrow> unat (c + 1) = unat c + 1"
  by (simp add: unat_word_ariths)

lemma first_choices_eq:
  assumes "rr_forwarders rr \<noteq> []" and "unat (rr_cursor rr) + n < 2 ^ 32"
  shows "first_choices n rr =
    map (\<lambda>k. rr_forwarders rr ! ((unat (rr_cursor rr) + 1 + k) mod length (rr_forwarders rr))) [0..<n]"
  using assms
proof (induction n arbitrary: rr)
  case (Suc n)
  let ?rr = "snd (rr_Get rr)"
  have c: "unat (rr_cursor rr + 1) = unat (rr_cursor rr) + 1" by (rule unat_next) (use Suc.prems in simp)
  then have r: "rr_forwarders ?rr = rr_forwarders rr" "unat (rr_cursor ?rr) = unat (rr_cursor rr) + 1"
    using Suc.prems(1) by (simp_all add: rr_Get_def Let_def)
  have "hd (fst (rr_Get rr)) = rr_forwarders rr ! ((unat (rr_cursor rr) + 1) mod length (rr_forwarders rr))"
    using Suc.prems(1) c by (simp add: rr_Get_def Let_def hd_rotated)
  moreover have "first_choices n ?rr =
      map (\<lambda>k. rr_forwarders rr ! ((unat (rr_cursor rr) + 1 + Suc k) mod length (rr_forwarders rr))) [0..<n]"
    using Suc.IH [of ?rr] Suc.prems r by simp
  ultimately show ?case by (simp add: upt_conv_Cons map_Suc_upt [symmetric] comp_def del: upt_Suc)
qed simp

lemma first_choices_mset:
  assumes "rr_forwarders rr \<noteq> []" and "unat (rr_cursor rr) + length (rr_forwarders rr) < 2 ^ 32"
  shows "mset (first_choices (length (rr_forwarders rr)) rr) = mset (rr_forwarders rr)"
proof -
  let ?xs = "rr_forwarders rr" and ?c = "unat (rr_cursor rr) + 1"
  have "first_choices (length ?xs) rr = rotate ?c ?xs"
    by (subst first_choices_eq [OF assms], rule nth_equalityI) (simp_all add: nth_rotate del: rotate_Suc)
  then show ?thesis by (simp add: rotate_drop_take) (metis append_take_drop_id mset_append union_commute)
qed

text \<open>C37. Fairness: over one period of a balancer the first choices of the calls are each forwarder
  exactly as often as its weight, up to the wrap-around of the 32-bit cursor.\<close>

theorem round_robin_fair:
  assumes "NewRoundRobin fwds = Some rr" and "\<forall>f \<in> set fwds. 1 \<le> Weight f" and "fwds \<noteq> []"
    and "calls < 2 ^ 32 - length (rr_forwarders rr)"
  shows "mset (first_choices (length (rr_forwarders rr)) (((\<lambda>rr. snd (rr_Get rr)) ^^ calls) rr)) = mset (weighted fwds)"
proof -
  from NewRoundRobin_weighted [OF assms(2)] assms(1) have w: "mset (rr_forwarders rr) = mset (weighted fwds)"
    and c0: "rr_cursor rr = 0" by auto
  obtain f fs where "fwds = f # fs" using assms(3) by (cases fwds) auto
  with assms(2) have "f \<in> set (weighted fwds)" by (simp add: weighted_def)
  then have ne: "rr_forwarders rr \<noteq> []" using w by (metis empty_iff list.set(1) mset_eq_setD)
  have "rr_forwarders (((\<lambda>rr. snd (rr_Get rr)) ^^ k) rr) = rr_forwarders rr \<and>
      unat (rr_cursor (((\<lambda>rr. snd (rr_Get rr)) ^^ k) rr)) = k" if "k < 2 ^ 32" for k
    using that
  proof (induction k)
    case (Suc k)
    then have "rr_forwarders (((\<lambda>rr. snd (rr_Get rr)) ^^ k) rr) = rr_forwarders rr"
      "unat (rr_cursor (((\<lambda>rr. snd (rr_Get rr)) ^^ k) rr)) = k" by auto
    with Suc.prems show ?case by (simp add: rr_Get_def Let_def ne unat_next)
  qed (simp add: c0)
  with assms(4) have "rr_forwarders (((\<lambda>rr. snd (rr_Get rr)) ^^ calls) rr) = rr_forwarders rr"
    and "unat (rr_cursor (((\<lambda>rr. snd (rr_Get rr)) ^^ calls) rr)) = calls" by simp_all
  with first_choices_mset [of "((\<lambda>rr. snd (rr_Get rr)) ^^ calls) rr"] assms(4) ne w show ?thesis by simp
qed

definition two_nodes :: "forwarder list" where
  "two_nodes = [\<lparr>ServiceName = ''s'', SocketPath = ''a'', Weight = 2\<rparr>, \<lparr>ServiceName = ''s'', SocketPath = ''b'', Weight = 1\<rparr>]"

theorem round_robin_fair_witness:
  "\<exists>rr. NewRoundRobin two_nodes = Some rr \<and>
     mset (first_choices (length (rr_forwarders rr)) (((\<lambda>rr. snd (rr_Get rr)) ^^ 7) rr)) = mset (weighted two_nodes)"
proof -
  have w: "\<forall>f \<in> set two_nodes. 1 \<le> Weight f" by (simp add: two_nodes_def)
  from NewRoundRobin_weighted [OF this] obtain rr where rr: "NewRoundRobin two_nodes = Some rr"
    "mset (rr_forwarders rr) = mset (weighted two_nodes)" by blast
  have "length (rr_forwarders rr) = 3"
    using arg_cong [OF rr(2), of size] by (simp add: weighted_def two_nodes_def)
  then have "7 < 2 ^ 32 - length (rr_forwarders rr)" by simp
  with round_robin_fair [OF rr(1) w, of 7] rr(1) show ?thesis by (simp add: two_nodes_def)
qed

text \<open>Least in flight: a permutation of the forwarders in order of load, and forwarders of equal load
  keep the order of the rotation.\<close>

theorem least_in_flight_order:
  "mset (fst (li_Get load li)) = mset (li_forwarders li) \<and> sorted (map load (fst (li_Get load li))) \<and>
   filter (\<lambda>f. load f = l) (fst (li_Get load li)) =
     filter (\<lambda>f. load f = l) (if li_forwarders li = [] then [] else rotated (li_forwarders li) (li_cursor li + 1))"
proof (intro conjI)
  show "mset (fst (li_Get load li)) = mset (li_forwarders li)" by (rule least.choices_mset) simp
  show "sorted (map load (fst (li_Get load li)))" by (simp add: li_Get_def Let_def SortByLoad_def)
  show "filter (\<lambda>f. load f = l) (fst (li_Get load li)) =
     filter (\<lambda>f. load f = l) (if li_forwarders li = [] then [] else rotated (li_forwarders li) (li_cursor li + 1))"
    by (simp add: li_Get_def Let_def SortByLoad_def sort_key_stable)
qed

text \<open>Power of two choices: whatever the random numbers, the result is a permutation of the
  forwarders whose first has no more load than its second.\<close>

theorem two_choices_order:
  assumes "2 \<le> length (li_forwarders li)" and "valid_choice i j (li_forwarders li)"
  shows "mset (GetP2C load i j li) = mset (li_forwarders li) \<and>
    load (GetP2C load i j li ! 0) \<le> load (GetP2C load i j li ! 1)"
proof
  show "mset (GetP2C load i j li) = mset (li_forwarders li)" using assms(2) two.choices_mset [of "(load, i, j)"] by simp
  show "load (GetP2C load i j li ! 0) \<le> load (GetP2C load i j li ! 1)"
    by (rule GetP2C_two [OF assms, of load]) simp
qed

theorem two_choices_order_witness:
  "mset (GetP2C (\<lambda>f. - Weight f) 0 0 \<lparr>li_forwarders = two_nodes, li_cursor = 0\<rparr>) = mset two_nodes \<and>
   - Weight (GetP2C (\<lambda>f. - Weight f) 0 0 \<lparr>li_forwarders = two_nodes, li_cursor = 0\<rparr> ! 0) \<le>
   - Weight (GetP2C (\<lambda>f. - Weight f) 0 0 \<lparr>li_forwarders = two_nodes, li_cursor = 0\<rparr> ! 1)"
  using two_choices_order [of "\<lparr>li_forwarders = two_nodes, li_cursor = 0\<rparr>" 0 0 "\<lambda>f. - Weight f"]
  by (simp add: two_nodes_def valid_choice_def)

end
