(* ===== verification/Service_Set.thy ===== *)
theory Service_Set
  imports Load_Balance "HOL-Library.Monad_Syntax"
begin

text \<open>
  \<open>ServiceSet\<close> of \<open>internal/core/registry/registry.go\<close>: the nodes of a service in a list, the position of
  each node in a map beside it, and the load balancers built from them. A set removes a node by moving
  the last node into its place. What the registry relies on is the locale \<open>node_set\<close>.
\<close>

datatype strategy = StrategyRoundRobin | StrategyLeastInFlight | StrategyP2C

record node_context =
  serviceName :: string
  nc_forwarder :: forwarder

type_synonym node_map = "string \<Rightarrow> node_context option"

record service_set =
  ss_nodes :: "string list"
  nodePositions :: "(string \<Rightarrow> nat option) option"
  roundRobin :: "round_robin option"
  leastInFlight :: "least_in_flight option"
  ss_strategy :: strategy

subsection \<open>Operations\<close>

text \<open>The map of positions; of two equal nodes the later position stays.\<close>

definition positions_of :: "string list \<Rightarrow> string \<Rightarrow> nat option" where
  "positions_of ns = fold (\<lambda>(i, n) m. m(n \<mapsto> i)) (enumerate 0 ns) Map.empty"

definition ensureNodePositions :: "service_set \<Rightarrow> service_set" where
  "ensureNodePositions ss =
     (if nodePositions ss \<noteq> None then ss else ss\<lparr>nodePositions := Some (positions_of (ss_nodes ss))\<rparr>)"

text \<open>The map after \<open>ensureNodePositions\<close>.\<close>

definition positions :: "service_set \<Rightarrow> string \<Rightarrow> nat option" where
  "positions ss = (case nodePositions (ensureNodePositions ss) of Some m \<Rightarrow> m | None \<Rightarrow> Map.empty)"

definition ss_replace :: "string list \<Rightarrow> service_set \<Rightarrow> service_set" where
  "ss_replace ns ss = ss\<lparr>ss_nodes := ns, nodePositions := Some (positions_of ns)\<rparr>"

definition newServiceSet :: "string list \<Rightarrow> strategy \<Rightarrow> service_set" where
  "newServiceSet ns strat =
     ss_replace ns \<lparr>ss_nodes = [], nodePositions = None, roundRobin = None, leastInFlight = None, ss_strategy = strat\<rparr>"

definition ss_contains :: "service_set \<Rightarrow> string \<Rightarrow> bool" where
  "ss_contains ss node \<longleftrightarrow> positions ss node \<noteq> None"

definition sameNodes :: "service_set \<Rightarrow> string list \<Rightarrow> bool" where
  "sameNodes ss ns \<longleftrightarrow> length ns = length (ss_nodes ss) \<and> list_all (\<lambda>n. positions ss n \<noteq> None) ns"

definition ss_add :: "string \<Rightarrow> service_set \<Rightarrow> bool \<times> service_set" where
  "ss_add node ss =
     (let ss = ensureNodePositions ss
      in if positions ss node \<noteq> None then (False, ss)
         else (True, ss\<lparr>nodePositions := Some ((positions ss)(node \<mapsto> length (ss_nodes ss))),
                        ss_nodes := ss_nodes ss @ [node]\<rparr>))"

text \<open>\<open>remove\<close>; \<^const>\<open>None\<close> is an index out of range.\<close>

definition ss_remove :: "string \<Rightarrow> service_set \<Rightarrow> (bool \<times> service_set) option" where
  "ss_remove node ss =
     (let ss = ensureNodePositions ss
      in case positions ss node of
           None \<Rightarrow> Some (False, ss)
         | Some removedIdx \<Rightarrow>
             let lastIdx = length (ss_nodes ss) - 1
             in if ss_nodes ss = [] \<or> length (ss_nodes ss) \<le> removedIdx then None
                else let lastNode = ss_nodes ss ! lastIdx;
                         m = (if lastNode \<noteq> node then (positions ss)(lastNode \<mapsto> removedIdx) else positions ss)
                     in Some (True, ss\<lparr>ss_nodes := take lastIdx ((ss_nodes ss)[removedIdx := lastNode]),
                                       nodePositions := Some (m(node := None))\<rparr>))"

definition resolveForwarders :: "string list \<Rightarrow> node_map \<Rightarrow> forwarder list" where
  "resolveForwarders ns nm = List.map_filter (\<lambda>n. map_option nc_forwarder (nm n)) ns"

definition rebuildLoadBalancer :: "node_map \<Rightarrow> service_set \<Rightarrow> service_set option" where
  "rebuildLoadBalancer nm ss =
     (if ss_strategy ss \<in> {StrategyLeastInFlight, StrategyP2C}
      then Some (ss\<lparr>leastInFlight := Some (NewLeastInFlight (resolveForwarders (ss_nodes ss) nm))\<rparr>)
      else do {
        rr \<leftarrow> NewRoundRobin (resolveForwarders (ss_nodes ss) nm);
        Some (ss\<lparr>roundRobin := Some rr\<rparr>)
      })"

subsection \<open>The interface\<close>

text \<open>What the registry relies on: \<open>nodes_of\<close> is a list without repetitions that the operations change
  as they say, and no operation panics.\<close>

locale node_set =
  fixes invar :: "'s \<Rightarrow> bool"
    and nodes_of :: "'s \<Rightarrow> string list"
    and fresh :: "string list \<Rightarrow> 's"
    and has_node :: "'s \<Rightarrow> string \<Rightarrow> bool"
    and insert_node :: "string \<Rightarrow> 's \<Rightarrow> bool \<times> 's"
    and delete_node :: "string \<Rightarrow> 's \<Rightarrow> (bool \<times> 's) option"
  assumes invar_fresh: "distinct ns \<Longrightarrow> invar (fresh ns)"
    and nodes_fresh: "nodes_of (fresh ns) = ns"
    and invar_distinct: "invar s \<Longrightarrow> distinct (nodes_of s)"
    and has_node_iff: "invar s \<Longrightarrow> has_node s n \<longleftrightarrow> n \<in> set (nodes_of s)"
    and insert_invar: "invar s \<Longrightarrow> invar (snd (insert_node n s))"
    and insert_added: "invar s \<Longrightarrow> fst (insert_node n s) \<longleftrightarrow> n \<notin> set (nodes_of s)"
    and insert_nodes: "invar s \<Longrightarrow> nodes_of (snd (insert_node n s)) = (if n \<in> set (nodes_of s) then nodes_of s else nodes_of s @ [n])"
    and delete_total: "invar s \<Longrightarrow> \<exists>b t. delete_node n s = Some (b, t) \<and> (b \<longleftrightarrow> n \<in> set (nodes_of s)) \<and>
      invar t \<and> set (nodes_of t) = set (nodes_of s) - {n} \<and> (\<not> b \<longrightarrow> nodes_of t = nodes_of s)"
begin

lemma delete_nodeE:
  assumes "invar s"
  obtains b t where "delete_node n s = Some (b, t)" "b \<longleftrightarrow> n \<in> set (nodes_of s)" "invar t"
    "set (nodes_of t) = set (nodes_of s) - {n}" "\<not> b \<longrightarrow> nodes_of t = nodes_of s"
  using delete_total [OF assms, of n] by blast

lemma nodes_Nil: "nodes_of s = [] \<longleftrightarrow> set (nodes_of s) = {}"
  by simp

end

subsection \<open>The invariant\<close>

definition ss_wf :: "service_set \<Rightarrow> bool" where
  "ss_wf ss \<longleftrightarrow> (\<exists>m. nodePositions ss = Some m \<and> (\<forall>n i. m n = Some i \<longleftrightarrow> i < length (ss_nodes ss) \<and> ss_nodes ss ! i = n))"

lemma positions_wf: "ss_wf ss \<Longrightarrow> positions ss n = Some i \<longleftrightarrow> i < length (ss_nodes ss) \<and> ss_nodes ss ! i = n"
  by (auto simp: ss_wf_def positions_def ensureNodePositions_def)

lemma ensure_wf [simp]: "ss_wf ss \<Longrightarrow> ensureNodePositions ss = ss"
  by (auto simp: ss_wf_def ensureNodePositions_def)

lemma wf_distinct: "ss_wf ss \<Longrightarrow> distinct (ss_nodes ss)"
  by (auto simp: ss_wf_def distinct_conv_nth) (metis option.inject)

lemma positions_None: "ss_wf ss \<Longrightarrow> positions ss n = None \<longleftrightarrow> n \<notin> set (ss_nodes ss)"
  using positions_wf [of ss n] by (metis in_set_conv_nth not_None_eq)

lemma positions_of_wf: "distinct ns \<Longrightarrow> positions_of ns n = Some i \<longleftrightarrow> i < length ns \<and> ns ! i = n"
proof (induction ns rule: rev_induct)
  case (snoc x ns)
  then show ?case
    by (auto simp: positions_of_def enumerate_append_eq nth_append in_set_conv_nth)
qed (simp add: positions_of_def)

lemma replace_wf: "distinct ns \<Longrightarrow> ss_wf (ss_replace ns ss)"
  by (simp add: ss_wf_def ss_replace_def positions_of_wf)

lemma ss_add_eq:
  "ss_wf ss \<Longrightarrow> ss_add n ss =
     (if n \<in> set (ss_nodes ss) then (False, ss)
      else (True, ss\<lparr>nodePositions := Some ((positions ss)(n \<mapsto> length (ss_nodes ss))), ss_nodes := ss_nodes ss @ [n]\<rparr>))"
  by (simp add: ss_add_def positions_None Let_def del: not_None_eq)

lemma add_wf: "ss_wf ss \<Longrightarrow> ss_wf (snd (ss_add n ss))"
proof (cases "n \<in> set (ss_nodes ss)")
  case False
  assume wf: "ss_wf ss"
  have "((positions ss)(n \<mapsto> length (ss_nodes ss))) x = Some i \<longleftrightarrow>
      i < length (ss_nodes ss @ [n]) \<and> (ss_nodes ss @ [n]) ! i = x" for x i
    using positions_wf [OF wf, of x i] False by (auto simp: nth_append less_Suc_eq)
  then show ?thesis using wf False by (simp add: ss_add_eq) (simp only: ss_wf_def service_set.simps option.inject, auto)
qed (simp add: ss_add_eq)

text \<open>Moving the last element into the place of a removed one.\<close>

definition swap_remove :: "nat \<Rightarrow> 'a list \<Rightarrow> 'a list" where
  "swap_remove r ns = take (length ns - 1) (ns[r := ns ! (length ns - 1)])"

lemma length_swap_remove [simp]: "length (swap_remove r ns) = length ns - 1"
  by (simp add: swap_remove_def)

lemma nth_swap_remove:
  "i < length ns - 1 \<Longrightarrow> r < length ns \<Longrightarrow>
   swap_remove r ns ! i = (if i = r then ns ! (length ns - 1) else ns ! i)"
  by (simp add: swap_remove_def nth_list_update)

lemma nth_unique: "distinct ns \<Longrightarrow> ns ! i = ns ! j \<Longrightarrow> i < length ns \<Longrightarrow> j < length ns \<Longrightarrow> i = j"
  by (simp add: nth_eq_iff_index_eq)

lemma swap_remove_other:
  assumes d: "distinct ns" and r: "r < length ns" and x: "x \<noteq> ns ! r" "x \<noteq> ns ! (length ns - 1)"
  shows "i < length ns - 1 \<and> swap_remove r ns ! i = x \<longleftrightarrow> i < length ns \<and> ns ! i = x"
proof
  assume a: "i < length ns \<and> ns ! i = x"
  with x have "i \<noteq> length ns - 1" "i \<noteq> r" by auto
  with a have "i < length ns - 1" by linarith
  with a r \<open>i \<noteq> r\<close> show "i < length ns - 1 \<and> swap_remove r ns ! i = x" by (simp add: nth_swap_remove)
next
  assume a: "i < length ns - 1 \<and> swap_remove r ns ! i = x"
  with nth_swap_remove [of i ns r] r x show "i < length ns \<and> ns ! i = x" by (auto split: if_splits)
qed

lemma swap_remove_last:
  assumes d: "distinct ns" and r: "r < length ns" and n: "ns ! (length ns - 1) \<noteq> ns ! r"
  shows "i < length ns - 1 \<and> swap_remove r ns ! i = ns ! (length ns - 1) \<longleftrightarrow> i = r"
proof -
  from n have "r \<noteq> length ns - 1" by auto
  with r have "r < length ns - 1" by linarith
  moreover have "i = r" if "i < length ns - 1" "ns ! i = ns ! (length ns - 1)"
  proof -
    have "i = length ns - 1" by (rule nth_unique [OF d that(2)]) (use that(1) r in linarith)+
    with that(1) show ?thesis by simp
  qed
  ultimately show ?thesis using r by (auto simp: nth_swap_remove split: if_splits)
qed

lemma swap_remove_gone:
  assumes d: "distinct ns" and r: "r < length ns"
  shows "\<not> (i < length ns - 1 \<and> swap_remove r ns ! i = ns ! r)"
proof
  assume a: "i < length ns - 1 \<and> swap_remove r ns ! i = ns ! r"
  with r have e: "(if i = r then ns ! (length ns - 1) else ns ! i) = ns ! r" using nth_swap_remove [of i ns r] by metis
  show False
  proof (cases "i = r")
    case True
    with e have "length ns - 1 = r" by (intro nth_unique [OF d]) (use r in auto)
    with a True show False by simp
  next
    case False
    with e have "i = r" by (intro nth_unique [OF d]) (use r a in auto)
    with False show False by simp
  qed
qed

lemma set_swap_remove:
  assumes d: "distinct ns" and r: "r < length ns"
  shows "set (swap_remove r ns) = set ns - {ns ! r}"
proof (intro set_eqI)
  fix x
  have "x \<in> set (swap_remove r ns) \<longleftrightarrow> (\<exists>i. i < length ns - 1 \<and> swap_remove r ns ! i = x)"
    by (simp add: in_set_conv_nth)
  also have "\<dots> \<longleftrightarrow> x \<in> set ns - {ns ! r}"
  proof (cases "x = ns ! r")
    case True
    then show ?thesis using swap_remove_gone [OF d r] by auto
  next
    case False
    show ?thesis
    proof (cases "x = ns ! (length ns - 1)")
      case True
      then show ?thesis using False swap_remove_last [OF d r] r by auto
    next
      case n: False
      then show ?thesis using False swap_remove_other [OF d r False n] by (auto simp: in_set_conv_nth)
    qed
  qed
  finally show "x \<in> set (swap_remove r ns) \<longleftrightarrow> x \<in> set ns - {ns ! r}" .
qed

lemma remove_Some:
  assumes "ss_wf ss" and "positions ss n = Some r"
  defines "m \<equiv> (if ss_nodes ss ! (length (ss_nodes ss) - 1) \<noteq> n
      then (positions ss)(ss_nodes ss ! (length (ss_nodes ss) - 1) \<mapsto> r) else positions ss)(n := None)"
  shows "ss_remove n ss = Some (True, ss\<lparr>ss_nodes := swap_remove r (ss_nodes ss), nodePositions := Some m\<rparr>)"
proof -
  have "r < length (ss_nodes ss)" using assms(2) positions_wf [OF assms(1), of n r] by simp
  then show ?thesis using assms(1,2) by (auto simp: ss_remove_def Let_def swap_remove_def m_def)
qed

lemma remove_wf:
  assumes wf: "ss_wf ss"
  shows "\<exists>b t. ss_remove n ss = Some (b, t) \<and> (b \<longleftrightarrow> n \<in> set (ss_nodes ss)) \<and>
    ss_wf t \<and> set (ss_nodes t) = set (ss_nodes ss) - {n} \<and> (\<not> b \<longrightarrow> ss_nodes t = ss_nodes ss)"
proof (cases "positions ss n")
  case None
  then show ?thesis using wf positions_None [OF wf, of n] by (auto simp: ss_remove_def Let_def)
next
  case (Some r)
  let ?ns = "ss_nodes ss"
  let ?last = "?ns ! (length ?ns - 1)"
  let ?m = "(if ?last \<noteq> n then (positions ss)(?last \<mapsto> r) else positions ss)(n := None)"
  let ?t = "ss\<lparr>ss_nodes := swap_remove r ?ns, nodePositions := Some ?m\<rparr>"
  have r: "r < length ?ns" and n: "n = ?ns ! r" using Some positions_wf [OF wf, of n r] by auto
  note d = wf_distinct [OF wf]
  have "?m x = Some i \<longleftrightarrow> i < length ?ns - 1 \<and> swap_remove r ?ns ! i = x" for x i
  proof (cases "x = n")
    case True
    then show ?thesis using swap_remove_gone [OF d r] n by auto
  next
    case False
    show ?thesis
    proof (cases "x = ?last")
      case True
      then show ?thesis using False swap_remove_last [OF d r] n by auto
    next
      case x: False
      then show ?thesis using False n swap_remove_other [OF d r _ x] positions_wf [OF wf, of x i] by auto
    qed
  qed
  then have "ss_wf ?t" by (simp only: ss_wf_def service_set.simps option.inject length_swap_remove) auto
  moreover have "ss_remove n ss = Some (True, ?t)" by (rule remove_Some [OF wf Some])
  moreover have "set (ss_nodes ?t) = set ?ns - {n}" using set_swap_remove [OF d r] n by simp
  moreover have "n \<in> set ?ns" using n r by simp
  ultimately show ?thesis by blast
qed

interpretation ss: node_set ss_wf ss_nodes "\<lambda>ns. newServiceSet ns StrategyRoundRobin" ss_contains ss_add ss_remove
proof unfold_locales
  fix ns :: "string list" assume "distinct ns"
  then show "ss_wf (newServiceSet ns StrategyRoundRobin)" by (simp add: newServiceSet_def replace_wf)
next
  fix s n assume "ss_wf s"
  then show "ss_wf (snd (ss_add n s))" by (rule add_wf)
qed (auto simp: newServiceSet_def ss_replace_def wf_distinct ss_contains_def positions_None remove_wf
    ss_add_eq )

end
