(* ===== verification/Registry.thy ===== *)
theory Registry
  imports Service_Set
begin

text \<open>
  \<open>internal/core/registry/registry.go\<close> and \<open>strategy.go\<close>: which nodes each service has, which of
  them are unhealthy, and the forwarder of each node. Every function below is one critical section of
  the registry's lock; \<^const>\<open>None\<close> is a panic. A range over a map is a fold over a list of its entries in
  any order. The gauges set along the way and the log lines are left out; \<open>os.Remove\<close> of a socket file
  is recorded in \<open>removedFiles\<close>. What a probe of a node finds is an argument.
\<close>

record registry =
  services :: "string \<Rightarrow> service_set option"
  unhealthy :: "string \<Rightarrow> service_set option"
  nodeMap :: node_map
  removedFiles :: "string list"

definition NewRegistry :: registry where
  "NewRegistry = \<lparr>services = Map.empty, unhealthy = Map.empty, nodeMap = Map.empty, removedFiles = []\<rparr>"

fun fold_opt :: "('a \<Rightarrow> 's \<Rightarrow> 's option) \<Rightarrow> 'a list \<Rightarrow> 's \<Rightarrow> 's option" where
  "fold_opt f [] s = Some s"
| "fold_opt f (x # xs) s = Option.bind (f x s) (fold_opt f xs)"

subsection \<open>Strategies\<close>

definition strategyPriority :: "(string \<times> strategy) list" where
  "strategyPriority = [(''p2c'', StrategyP2C), (''least_in_flight'', StrategyLeastInFlight), (''round_robin'', StrategyRoundRobin)]"

definition strategyFileSuffix :: string where "strategyFileSuffix = ''.strategy''"

text \<open>\<open>stat svc file\<close>: whether \<open>os.Stat\<close> finds the file in the directory of the service.\<close>

definition readStrategyAtCreation :: "(string \<Rightarrow> string \<Rightarrow> bool) \<Rightarrow> string \<Rightarrow> strategy" where
  "readStrategyAtCreation stat svc =
     (case find (\<lambda>(token, _). stat svc (token @ strategyFileSuffix)) strategyPriority of
        Some (_, strat) \<Rightarrow> strat
      | None \<Rightarrow> StrategyRoundRobin)"

definition resolveMarkerStrategy :: "string list \<Rightarrow> strategy" where
  "resolveMarkerStrategy paths =
     (let tokens = map (\<lambda>p. trim_suffix (path_Base p) strategyFileSuffix) paths
      in case find (\<lambda>(token, _). token \<in> set tokens) strategyPriority of
           Some (_, strat) \<Rightarrow> strat
         | None \<Rightarrow> StrategyRoundRobin)"

subsection \<open>Reading\<close>

definition NodeCount :: "string \<Rightarrow> registry \<Rightarrow> nat" where
  "NodeCount svc r = (case services r svc of None \<Rightarrow> 0 | Some ss \<Rightarrow> length (ss_nodes ss))"

definition GetNodes :: "string \<Rightarrow> registry \<Rightarrow> string list" where
  "GetNodes svc r = (case services r svc of None \<Rightarrow> [] | Some ss \<Rightarrow> ss_nodes ss)"

definition GetState :: "registry \<Rightarrow> string \<Rightarrow> string list option" where
  "GetState r = (\<lambda>name. map_option ss_nodes (services r name))"

text \<open>The loads and the two random numbers are those of the moment; a nil balancer panics.\<close>

definition GetForwarders :: "(forwarder \<Rightarrow> int) \<Rightarrow> nat \<Rightarrow> nat \<Rightarrow> string \<Rightarrow> registry \<Rightarrow> (forwarder list \<times> registry) option" where
  "GetForwarders load i j svc r =
     (case services r svc of
        None \<Rightarrow> Some ([], r)
      | Some ss \<Rightarrow>
          if ss_nodes ss = [] then Some ([], r)
          else case ss_strategy ss of
            StrategyLeastInFlight \<Rightarrow> do {
              li \<leftarrow> leastInFlight ss;
              let (fwds, li') = li_Get load li;
              Some (fwds, r\<lparr>services := (services r)(svc \<mapsto> ss\<lparr>leastInFlight := Some li'\<rparr>)\<rparr>)
            }
          | StrategyP2C \<Rightarrow> do {
              li \<leftarrow> leastInFlight ss;
              Some (GetP2C load i j li, r)
            }
          | StrategyRoundRobin \<Rightarrow> do {
              rr \<leftarrow> roundRobin ss;
              let (fwds, rr') = rr_Get rr;
              Some (fwds, r\<lparr>services := (services r)(svc \<mapsto> ss\<lparr>roundRobin := Some rr'\<rparr>)\<rparr>)
            })"

subsection \<open>Removing nodes\<close>

text \<open>The set without the node, rebuilt when the node was in it, and dropped when it is empty.\<close>

definition remove_from_service :: "string \<Rightarrow> string \<Rightarrow> registry \<Rightarrow> registry option" where
  "remove_from_service svc path r =
     (case services r svc of
        None \<Rightarrow> Some r
      | Some ss \<Rightarrow> do {
          (removed, ss) \<leftarrow> ss_remove path ss;
          ss \<leftarrow> (if removed then rebuildLoadBalancer (nodeMap r) ss else Some ss);
          Some (r\<lparr>services := (services r)(svc := if ss_nodes ss = [] then None else Some ss)\<rparr>)
        })"

definition removeNodeUnsafe :: "string \<Rightarrow> bool \<Rightarrow> registry \<Rightarrow> registry option" where
  "removeNodeUnsafe path shouldDeleteFile r =
     (case nodeMap r path of
        None \<Rightarrow> Some r
      | Some ctx \<Rightarrow> do {
          r \<leftarrow> remove_from_service (serviceName ctx) path (r\<lparr>nodeMap := (nodeMap r)(path := None)\<rparr>);
          Some (if shouldDeleteFile then r\<lparr>removedFiles := removedFiles r @ [path]\<rparr> else r)
        })"

definition RemoveNode :: "string \<Rightarrow> bool \<Rightarrow> registry \<Rightarrow> registry option" where
  "RemoveNode path shouldDeleteFile r = removeNodeUnsafe path shouldDeleteFile r"

definition removeFromUnhealthyUnsafe :: "string \<Rightarrow> string \<Rightarrow> registry \<Rightarrow> registry option" where
  "removeFromUnhealthyUnsafe svc path r =
     (case unhealthy r svc of
        None \<Rightarrow> Some r
      | Some us \<Rightarrow> do {
          (_, us) \<leftarrow> ss_remove path us;
          Some (r\<lparr>unhealthy := (unhealthy r)(svc := if ss_nodes us = [] then None else Some us)\<rparr>)
        })"

subsection \<open>Health\<close>

definition moveToUnhealthyUnsafe :: "string \<Rightarrow> string \<Rightarrow> registry \<Rightarrow> registry option" where
  "moveToUnhealthyUnsafe svc path r = do {
     r \<leftarrow> remove_from_service svc path r;
     let us = (case unhealthy r svc of Some us \<Rightarrow> us | None \<Rightarrow> newServiceSet [] StrategyRoundRobin);
     Some (r\<lparr>unhealthy := (unhealthy r)(svc \<mapsto> snd (ss_add path us))\<rparr>)
   }"

text \<open>One failure taken from the channel; \<open>refused\<close> says whether it is \<open>ECONNREFUSED\<close>. For a refused
  connection \<open>listenFailures\<close> calls \<^const>\<open>RemoveNode\<close> again after this critical section.\<close>

definition listenFailures :: "string \<Rightarrow> bool \<Rightarrow> registry \<Rightarrow> registry option" where
  "listenFailures path refused r =
     (case nodeMap r path of
        None \<Rightarrow> Some r
      | Some ctx \<Rightarrow> if refused then removeNodeUnsafe path True r else moveToUnhealthyUnsafe (serviceName ctx) path r)"

definition promoteToHealthyUnsafe :: "string \<Rightarrow> string \<Rightarrow> registry \<Rightarrow> registry option" where
  "promoteToHealthyUnsafe svc path r = do {
     r \<leftarrow> removeFromUnhealthyUnsafe svc path r;
     let ss = (case services r svc of Some ss \<Rightarrow> ss | None \<Rightarrow> newServiceSet [] StrategyRoundRobin);
     let (added, ss) = ss_add path ss;
     ss \<leftarrow> (if added then rebuildLoadBalancer (nodeMap r) ss else Some ss);
     Some (r\<lparr>services := (services r)(svc \<mapsto> ss)\<rparr>)
   }"

text \<open>What \<open>TryReconnect\<close> reports: success, \<open>ENOENT\<close>, or another error.\<close>

datatype probe = Recovered | SocketGone | StillDown

text \<open>The end of an iteration of \<open>RetryUnhealthy\<close>: the node was registered when the iteration began, and
  the lock was free while it was probed.\<close>

definition retry_commit :: "string \<Rightarrow> string \<Rightarrow> probe \<Rightarrow> registry \<Rightarrow> registry option" where
  "retry_commit svc path found r =
     (case found of
        Recovered \<Rightarrow> promoteToHealthyUnsafe svc path r
      | SocketGone \<Rightarrow> Option.bind (removeNodeUnsafe path False r) (removeFromUnhealthyUnsafe svc path)
      | StillDown \<Rightarrow> Some r)"

text \<open>An iteration that no other critical section interrupts.\<close>

definition retry_node :: "string \<Rightarrow> probe \<Rightarrow> string \<Rightarrow> registry \<Rightarrow> registry option" where
  "retry_node svc found path r =
     (case nodeMap r path of
        None \<Rightarrow> removeFromUnhealthyUnsafe svc path r
      | Some ctx \<Rightarrow> retry_commit svc path found r)"

text \<open>\<open>RetryUnhealthy\<close> without interruption, the services in the order of the snapshot.\<close>

definition RetryUnhealthy :: "(string \<Rightarrow> probe) \<Rightarrow> string list \<Rightarrow> registry \<Rightarrow> registry option" where
  "RetryUnhealthy found svcs r =
     (let toCheck = concat (map (\<lambda>svc. case unhealthy r svc of None \<Rightarrow> [] | Some us \<Rightarrow> map (Pair svc) (ss_nodes us)) svcs)
      in fold_opt (\<lambda>(svc, path). retry_node svc (found path) path) toCheck r)"

subsection \<open>Scans\<close>

definition newForwarder :: "string \<Rightarrow> string \<Rightarrow> forwarder" where
  "newForwarder svc node = \<lparr>ServiceName = svc, SocketPath = node, Weight = fst (ParseNodeWeight node)\<rparr>"

definition register_node :: "string \<Rightarrow> string \<Rightarrow> node_map \<Rightarrow> node_map" where
  "register_node svc node nm =
     (if nm node = None then nm(node \<mapsto> \<lparr>serviceName = svc, nc_forwarder = newForwarder svc node\<rparr>) else nm)"

text \<open>Steps 2 and 3 of a scan: register the nodes found, then give the service those that are not
  unhealthy.\<close>

definition update_service :: "(string \<Rightarrow> string \<Rightarrow> bool) \<Rightarrow> string \<Rightarrow> string list \<Rightarrow> registry \<Rightarrow> registry option" where
  "update_service stat svc healthyNodes r =
     (if healthyNodes \<noteq> [] then
        case services r svc of
          Some existing \<Rightarrow>
            if sameNodes existing healthyNodes then Some r
            else do {
              ss \<leftarrow> rebuildLoadBalancer (nodeMap r) (ss_replace healthyNodes existing);
              Some (r\<lparr>services := (services r)(svc \<mapsto> ss)\<rparr>)
            }
        | None \<Rightarrow> do {
            ss \<leftarrow> rebuildLoadBalancer (nodeMap r) (newServiceSet healthyNodes (readStrategyAtCreation stat svc));
            Some (r\<lparr>services := (services r)(svc \<mapsto> ss)\<rparr>)
          }
      else Some (r\<lparr>services := (services r)(svc := None)\<rparr>))"

definition scan_nodes :: "(string \<Rightarrow> string \<Rightarrow> bool) \<Rightarrow> string \<Rightarrow> string list \<Rightarrow> registry \<Rightarrow> registry option" where
  "scan_nodes stat svc found r =
     (let healthyNodes = filter (\<lambda>n. case unhealthy r svc of None \<Rightarrow> True | Some us \<Rightarrow> \<not> ss_contains us n) found
      in update_service stat svc healthyNodes (r\<lparr>nodeMap := fold (register_node svc) found (nodeMap r)\<rparr>))"

definition drop_missing :: "string \<Rightarrow> string list \<Rightarrow> string \<Rightarrow> registry \<Rightarrow> registry option" where
  "drop_missing svc found node r =
     (if node \<in> set found then Some r
      else Option.bind (removeNodeUnsafe node False r) (removeFromUnhealthyUnsafe svc node))"

definition ApplyServiceScan :: "(string \<Rightarrow> string \<Rightarrow> bool) \<Rightarrow> string \<Rightarrow> string list \<Rightarrow> registry \<Rightarrow> registry option" where
  "ApplyServiceScan stat svc discovered r = do {
     r \<leftarrow> (case services r svc of None \<Rightarrow> Some r | Some ss \<Rightarrow> fold_opt (drop_missing svc discovered) (ss_nodes ss) r);
     r \<leftarrow> (case unhealthy r svc of None \<Rightarrow> Some r | Some us \<Rightarrow> fold_opt (drop_missing svc discovered) (ss_nodes us) r);
     if discovered = [] then Some (r\<lparr>services := (services r)(svc := None)\<rparr>)
     else scan_nodes stat svc discovered r
   }"

text \<open>\<open>byService[svc]\<close>: a service without an entry has no paths.\<close>

definition found_in :: "(string \<times> string list) list \<Rightarrow> string \<Rightarrow> string list" where
  "found_in byService svc = (case map_of byService svc of None \<Rightarrow> [] | Some ns \<Rightarrow> ns)"

text \<open>\<open>visit\<close> lists the keys of the node map in the order of the range.\<close>

definition ApplyFullScan :: "(string \<Rightarrow> string \<Rightarrow> bool) \<Rightarrow> string list \<Rightarrow> (string \<times> string list) list \<Rightarrow> registry \<Rightarrow> registry option" where
  "ApplyFullScan stat visit byService r = do {
     r \<leftarrow> fold_opt (\<lambda>path r. case nodeMap r path of
            None \<Rightarrow> Some r
          | Some ctx \<Rightarrow> drop_missing (serviceName ctx) (found_in byService (serviceName ctx)) path r) visit r;
     fold_opt (\<lambda>(svc, ns). scan_nodes stat svc ns) byService r
   }"

subsection \<open>Strategy markers\<close>

definition setStrategy :: "string \<Rightarrow> strategy \<Rightarrow> registry \<Rightarrow> registry option" where
  "setStrategy svc strat r =
     (case services r svc of
        None \<Rightarrow> Some r
      | Some ss \<Rightarrow>
          if ss_strategy ss = strat then Some r
          else do {
            ss \<leftarrow> rebuildLoadBalancer (nodeMap r) (ss\<lparr>ss_strategy := strat\<rparr>);
            Some (r\<lparr>services := (services r)(svc \<mapsto> ss)\<rparr>)
          })"

definition Strategy_ApplyServiceScan :: "string \<Rightarrow> string list \<Rightarrow> registry \<Rightarrow> registry option" where
  "Strategy_ApplyServiceScan svc discovered r = setStrategy svc (resolveMarkerStrategy discovered) r"

text \<open>\<open>names\<close> is \<open>serviceNames()\<close>, the services in some order.\<close>

definition Strategy_ApplyFullScan :: "string list \<Rightarrow> (string \<times> string list) list \<Rightarrow> registry \<Rightarrow> registry option" where
  "Strategy_ApplyFullScan names byService r =
     fold_opt (\<lambda>svc. setStrategy svc (resolveMarkerStrategy (found_in byService svc))) names r"

end
