(* ===== verification/Registry_Inv.thy ===== *)
theory Registry_Inv
  imports Registry
begin

text \<open>
  The invariant of the registry and what each critical section does to the two sets that describe it:
  the registered nodes and the unhealthy ones. \<open>so\<close> is the service a socket path belongs to.
\<close>

subsection \<open>Folds that cannot fail\<close>

lemma fold_opt_inv:
  assumes "\<And>x s. x \<in> set xs \<Longrightarrow> I s \<Longrightarrow> \<exists>t. f x s = Some t \<and> I t" and "I s"
  shows "\<exists>t. fold_opt f xs s = Some t \<and> I t"
  using assms
proof (induction xs arbitrary: s)
  case (Cons x xs)
  from Cons.prems obtain t where t: "f x s = Some t" "I t" by force
  have "\<exists>u. fold_opt f xs t = Some u \<and> I u" by (rule Cons.IH) (use Cons.prems(1) t(2) in auto)
  with t show ?case by simp
qed simp

text \<open>A quantity \<open>g\<close> every step changes by a function of the element.\<close>

lemma fold_opt_effect:
  assumes "\<And>x s. x \<in> set xs \<Longrightarrow> I s \<Longrightarrow> \<exists>t. f x s = Some t \<and> I t \<and> g t = h x (g s)" and "I s"
  shows "\<exists>t. fold_opt f xs s = Some t \<and> I t \<and> g t = fold h xs (g s)"
  using assms
proof (induction xs arbitrary: s)
  case (Cons x xs)
  from Cons.prems obtain t where t: "f x s = Some t" "I t" "g t = h x (g s)" by force
  have "\<exists>u. fold_opt f xs t = Some u \<and> I u \<and> g u = fold h xs (g t)" by (rule Cons.IH) (use Cons.prems(1) t(2) in auto)
  with t show ?case by simp
qed simp

subsection \<open>The invariant\<close>

definition listed :: "(string \<Rightarrow> service_set option) \<Rightarrow> string \<Rightarrow> string \<Rightarrow> bool" where
  "listed m svc n \<longleftrightarrow> (\<exists>ss. m svc = Some ss \<and> n \<in> set (ss_nodes ss))"

definition node_map_ok :: "(string \<Rightarrow> string) \<Rightarrow> node_map \<Rightarrow> bool" where
  "node_map_ok so nm \<longleftrightarrow> (\<forall>n c. nm n = Some c \<longrightarrow> c = \<lparr>serviceName = so n, nc_forwarder = newForwarder (so n) n\<rparr>)"

definition set_ok :: "(string \<Rightarrow> string) \<Rightarrow> string \<Rightarrow> service_set \<Rightarrow> bool" where
  "set_ok so svc ss \<longleftrightarrow> ss_wf ss \<and> ss_nodes ss \<noteq> [] \<and> (\<forall>n \<in> set (ss_nodes ss). so n = svc)"

definition lb_ok :: "node_map \<Rightarrow> service_set \<Rightarrow> bool" where
  "lb_ok nm ss \<longleftrightarrow> (let fwds = resolveForwarders (ss_nodes ss) nm in
     if ss_strategy ss = StrategyRoundRobin
     then \<exists>rr. roundRobin ss = Some rr \<and> mset (rr_forwarders rr) = mset (weighted fwds)
     else \<exists>li. leastInFlight ss = Some li \<and> mset (li_forwarders li) = mset fwds)"

text \<open>The healthy services, \<open>but\<close> for one node that is being removed.\<close>

definition healthy_but :: "string set \<Rightarrow> (string \<Rightarrow> string) \<Rightarrow> node_map \<Rightarrow> (string \<Rightarrow> service_set option) \<Rightarrow> bool" where
  "healthy_but X so nm m \<longleftrightarrow> (\<forall>svc ss. m svc = Some ss \<longrightarrow> set_ok so svc ss \<and>
     (\<forall>n \<in> set (ss_nodes ss) - X. nm n \<noteq> None) \<and> (set (ss_nodes ss) \<inter> X = {} \<longrightarrow> lb_ok nm ss))"

definition unhealthy_ok :: "(string \<Rightarrow> string) \<Rightarrow> (string \<Rightarrow> service_set option) \<Rightarrow> bool" where
  "unhealthy_ok so m \<longleftrightarrow> (\<forall>svc us. m svc = Some us \<longrightarrow> set_ok so svc us)"

definition healthy :: "registry \<Rightarrow> string set" where
  "healthy r = {n. \<exists>svc. listed (services r) svc n}"

definition sick :: "registry \<Rightarrow> string set" where
  "sick r = {n. \<exists>svc. listed (unhealthy r) svc n}"

definition reg_parts :: "string set \<Rightarrow> (string \<Rightarrow> string) \<Rightarrow> registry \<Rightarrow> bool" where
  "reg_parts X so r \<longleftrightarrow> node_map_ok so (nodeMap r) \<and> healthy_but X so (nodeMap r) (services r) \<and>
     unhealthy_ok so (unhealthy r)"

text \<open>A registered node is healthy exactly when it is not listed as unhealthy, and only registered nodes
  are healthy.\<close>

definition reg_inv :: "(string \<Rightarrow> string) \<Rightarrow> registry \<Rightarrow> bool" where
  "reg_inv so r \<longleftrightarrow> reg_parts {} so r \<and> healthy r = dom (nodeMap r) - sick r"

subsection \<open>Listings\<close>

lemma listed_update: "listed (m(svc := x)) s n \<longleftrightarrow> (if s = svc then \<exists>ss. x = Some ss \<and> n \<in> set (ss_nodes ss) else listed m s n)"
  by (simp add: listed_def)

lemma listed_without:
  assumes "m svc = Some ss" and "\<And>s s'. m s = Some s' \<Longrightarrow> s \<noteq> svc \<Longrightarrow> path \<notin> set (ss_nodes s')"
    and "set (ss_nodes v) = set (ss_nodes ss) - {path}"
  shows "listed (m(svc := if ss_nodes v = [] then None else Some v)) s n \<longleftrightarrow> listed m s n \<and> n \<noteq> path"
proof (cases "s = svc")
  case True
  have "n \<in> set (ss_nodes v) \<longleftrightarrow> n \<in> set (ss_nodes ss) \<and> n \<noteq> path" using assms(3) by blast
  then show ?thesis using True assms(1) by (auto simp: listed_def)
next
  case False
  then show ?thesis using assms(2) by (auto simp: listed_def)
qed

lemma listed_so:
  "reg_parts X so r \<Longrightarrow> listed (services r) svc n \<Longrightarrow> so n = svc"
  "reg_parts X so r \<Longrightarrow> listed (unhealthy r) svc n \<Longrightarrow> so n = svc"
  by (auto simp: reg_parts_def healthy_but_def unhealthy_ok_def set_ok_def listed_def)

lemma healthy_iff: "reg_parts X so r \<Longrightarrow> n \<in> healthy r \<longleftrightarrow> listed (services r) (so n) n"
  unfolding healthy_def using listed_so(1) by blast

lemma sick_iff: "reg_parts X so r \<Longrightarrow> n \<in> sick r \<longleftrightarrow> listed (unhealthy r) (so n) n"
  unfolding sick_def using listed_so(2) by blast

subsection \<open>Balancers\<close>

lemma resolve_cong: "(\<And>n. n \<in> set ns \<Longrightarrow> nm n = nm' n) \<Longrightarrow> resolveForwarders ns nm = resolveForwarders ns nm'"
  by (induction ns) (simp_all add: resolveForwarders_def List.map_filter_def)

lemma lb_ok_cong: "(\<And>n. n \<in> set (ss_nodes ss) \<Longrightarrow> nm n = nm' n) \<Longrightarrow> lb_ok nm ss = lb_ok nm' ss"
  using resolve_cong [of "ss_nodes ss" nm nm'] by (simp add: lb_ok_def)

lemma node_map_okD:
  "node_map_ok so nm \<Longrightarrow> nm n = Some c \<Longrightarrow> nc_forwarder c = newForwarder (so n) n"
  "node_map_ok so nm \<Longrightarrow> nm n = Some c \<Longrightarrow> serviceName c = so n"
  by (metis node_map_ok_def node_context.select_convs(2), metis node_map_ok_def node_context.select_convs(1))

lemma resolve_registered:
  "node_map_ok so nm \<Longrightarrow> \<forall>n \<in> set ns. nm n \<noteq> None \<Longrightarrow>
   resolveForwarders ns nm = map (\<lambda>n. newForwarder (so n) n) ns"
  by (induction ns) (auto simp: resolveForwarders_def List.map_filter_def node_map_okD(1))

lemma resolve_weights: "node_map_ok so nm \<Longrightarrow> \<forall>f \<in> set (resolveForwarders ns nm). 1 \<le> Weight f"
  by (auto simp: resolveForwarders_def List.map_filter_def node_map_okD(1))
    (simp add: newForwarder_def ParseNodeWeight_range)

lemma rebuild_ok:
  assumes "node_map_ok so nm"
  shows "\<exists>t. rebuildLoadBalancer nm ss = Some t \<and> lb_ok nm t \<and> ss_nodes t = ss_nodes ss \<and>
    nodePositions t = nodePositions ss \<and> ss_strategy t = ss_strategy ss"
proof (cases "ss_strategy ss = StrategyRoundRobin")
  case True
  from NewRoundRobin_weighted [OF resolve_weights [OF assms, of "ss_nodes ss"]] True show ?thesis
    by (auto simp: rebuildLoadBalancer_def lb_ok_def)
next
  case False
  then have "ss_strategy ss \<in> {StrategyLeastInFlight, StrategyP2C}" by (cases "ss_strategy ss") auto
  with False show ?thesis by (auto simp: rebuildLoadBalancer_def lb_ok_def NewLeastInFlight_def)
qed

lemma wf_cong: "ss_nodes t = ss_nodes s \<Longrightarrow> nodePositions t = nodePositions s \<Longrightarrow> ss_wf t = ss_wf s"
  by (simp add: ss_wf_def)

subsection \<open>Removing\<close>

lemma remove_from_service_parts:
  assumes parts: "reg_parts {path} so r" and svc: "svc = so path"
  shows "\<exists>t. remove_from_service svc path r = Some t \<and> reg_parts {} so t \<and> nodeMap t = nodeMap r \<and>
    unhealthy t = unhealthy r \<and> removedFiles t = removedFiles r \<and> healthy t = healthy r - {path}"
proof (cases "services r svc")
  case None
  have "path \<notin> set (ss_nodes ss)" if "services r s = Some ss" for s ss
    using that parts None svc by (auto simp: reg_parts_def healthy_but_def set_ok_def)
  then have "reg_parts {} so r" "path \<notin> healthy r"
    using parts by (auto simp: reg_parts_def healthy_but_def healthy_def listed_def)
  then show ?thesis using None by (simp add: remove_from_service_def)
next
  case (Some ss)
  have wf: "ss_wf ss" and nodes: "set_ok so svc ss" "\<forall>n \<in> set (ss_nodes ss) - {path}. nodeMap r n \<noteq> None"
    and lb: "path \<notin> set (ss_nodes ss) \<Longrightarrow> lb_ok (nodeMap r) ss"
    using parts Some by (auto simp: reg_parts_def healthy_but_def set_ok_def)
  have others: "path \<notin> set (ss_nodes s')" if "services r s = Some s'" "s \<noteq> svc" for s s'
    using that parts svc by (auto simp: reg_parts_def healthy_but_def set_ok_def)
  from ss.delete_nodeE [OF wf, of path] obtain b t where
    t: "ss_remove path ss = Some (b, t)" "b \<longleftrightarrow> path \<in> set (ss_nodes ss)" "ss_wf t"
      "set (ss_nodes t) = set (ss_nodes ss) - {path}" "\<not> b \<longrightarrow> ss_nodes t = ss_nodes ss" by blast
  from rebuild_ok [of so "nodeMap r" t] parts obtain u where
    u: "rebuildLoadBalancer (nodeMap r) t = Some u" "lb_ok (nodeMap r) u" "ss_nodes u = ss_nodes t"
      "nodePositions u = nodePositions t" by (auto simp: reg_parts_def)
  define v where "v = (if b then u else t)"
  have same: "\<not> b \<Longrightarrow> t = ss" using t(1,2) wf positions_None [OF wf, of path] by (auto simp: ss_remove_def Let_def)
  have v: "ss_wf v" "set (ss_nodes v) = set (ss_nodes ss) - {path}" "lb_ok (nodeMap r) v"
    using t u wf_cong [OF u(3,4)] lb same by (auto simp: v_def)
  let ?m = "(services r)(svc := if ss_nodes v = [] then None else Some v)"
  have "remove_from_service svc path r = Some (r\<lparr>services := ?m\<rparr>)"
    using Some t(1) u(1) by (auto simp: remove_from_service_def v_def)
  moreover have "healthy_but {} so (nodeMap r) ?m"
    using parts nodes v others by (auto simp: reg_parts_def healthy_but_def set_ok_def)
  moreover have "healthy (r\<lparr>services := ?m\<rparr>) = healthy r - {path}"
    using listed_without [where m = "services r" and svc = svc, OF Some others v(2)] by (auto simp: healthy_def)
  ultimately show ?thesis using parts by (auto simp: reg_parts_def)
qed

lemma removeFromUnhealthy_parts:
  assumes parts: "reg_parts X so r" and svc: "svc = so path"
  shows "\<exists>t. removeFromUnhealthyUnsafe svc path r = Some t \<and> reg_parts X so t \<and> nodeMap t = nodeMap r \<and>
    services t = services r \<and> removedFiles t = removedFiles r \<and> sick t = sick r - {path}"
proof (cases "unhealthy r svc")
  case None
  then have "path \<notin> sick r" using parts svc by (simp add: sick_iff listed_def)
  then show ?thesis using None parts by (simp add: removeFromUnhealthyUnsafe_def)
next
  case (Some us)
  have wf: "ss_wf us" and ok: "set_ok so svc us" using parts Some by (auto simp: reg_parts_def unhealthy_ok_def set_ok_def)
  have others: "path \<notin> set (ss_nodes s')" if "unhealthy r s = Some s'" "s \<noteq> svc" for s s'
    using that parts svc by (auto simp: reg_parts_def unhealthy_ok_def set_ok_def)
  from ss.delete_nodeE [OF wf, of path] obtain b t where
    t: "ss_remove path us = Some (b, t)" "ss_wf t" "set (ss_nodes t) = set (ss_nodes us) - {path}" by blast
  let ?m = "(unhealthy r)(svc := if ss_nodes t = [] then None else Some t)"
  have "removeFromUnhealthyUnsafe svc path r = Some (r\<lparr>unhealthy := ?m\<rparr>)"
    using Some t(1) by (simp add: removeFromUnhealthyUnsafe_def)
  moreover have "unhealthy_ok so ?m" using parts ok t by (auto simp: reg_parts_def unhealthy_ok_def set_ok_def)
  moreover have "sick (r\<lparr>unhealthy := ?m\<rparr>) = sick r - {path}"
    using listed_without [where m = "unhealthy r" and svc = svc, OF Some others t(3)] by (auto simp: sick_def)
  ultimately show ?thesis using parts by (auto simp: reg_parts_def)
qed

lemma parts_unregister:
  assumes "reg_parts {} so r"
  shows "reg_parts {path} so (r\<lparr>nodeMap := (nodeMap r)(path := None)\<rparr>)"
proof -
  have "lb_ok ((nodeMap r)(path := None)) ss" if "services r svc = Some ss" "path \<notin> set (ss_nodes ss)" for svc ss
  proof -
    have "lb_ok (nodeMap r) ss" using assms that(1) by (auto simp: reg_parts_def healthy_but_def)
    then show ?thesis by (subst lb_ok_cong [of ss _ "nodeMap r"]) (use that(2) in auto)
  qed
  with assms show ?thesis
    by (auto simp: reg_parts_def healthy_but_def node_map_ok_def)
qed

lemma removeNode_parts:
  assumes parts: "reg_parts {} so r"
  shows "\<exists>t. removeNodeUnsafe path del r = Some t \<and> reg_parts {} so t \<and> nodeMap t = (nodeMap r)(path := None) \<and>
    unhealthy t = unhealthy r \<and> healthy t = (if nodeMap r path = None then healthy r else healthy r - {path})"
proof (cases "nodeMap r path")
  case None
  then have "(nodeMap r)(path := None) = nodeMap r" by (rule fun_upd_idem)
  with None parts show ?thesis by (simp add: removeNodeUnsafe_def)
next
  case (Some ctx)
  have svc: "serviceName ctx = so path" using parts Some node_map_okD(2) [of so "nodeMap r" path ctx] by (simp add: reg_parts_def)
  from remove_from_service_parts [OF parts_unregister [OF parts] svc] obtain t where
    t: "remove_from_service (serviceName ctx) path (r\<lparr>nodeMap := (nodeMap r)(path := None)\<rparr>) = Some t"
      "reg_parts {} so t" "nodeMap t = (nodeMap r)(path := None)" "unhealthy t = unhealthy r"
      "healthy t = healthy (r\<lparr>nodeMap := (nodeMap r)(path := None)\<rparr>) - {path}" by auto
  have "healthy (t\<lparr>removedFiles := fs\<rparr>) = healthy t" "reg_parts {} so (t\<lparr>removedFiles := fs\<rparr>)" for fs
    using t(2) by (simp_all add: healthy_def reg_parts_def)
  with Some t show ?thesis by (simp add: removeNodeUnsafe_def healthy_def)
qed

subsection \<open>Critical sections keep the invariant\<close>

text \<open>The abstract state: registered nodes and nodes listed as unhealthy. Under the invariant it determines
  the healthy nodes of every service.\<close>

definition reg_abs :: "registry \<Rightarrow> string set \<times> string set" where
  "reg_abs r = (dom (nodeMap r), sick r)"

lemma reg_inv_parts: "reg_inv so r \<Longrightarrow> reg_parts {} so r"
  by (simp add: reg_inv_def)

lemma reg_invI: "reg_parts {} so r \<Longrightarrow> healthy r = dom (nodeMap r) - sick r \<Longrightarrow> reg_inv so r"
  by (simp add: reg_inv_def)

lemma healthy_registered: "reg_parts {} so r \<Longrightarrow> healthy r \<subseteq> dom (nodeMap r)"
  by (auto simp: reg_parts_def healthy_but_def healthy_def listed_def)

lemma removeNode_inv [inv_intros]:
  assumes "reg_inv so r"
  shows "\<exists>t. removeNodeUnsafe path del r = Some t \<and> reg_inv so t \<and>
    reg_abs t = (dom (nodeMap r) - {path}, sick r) \<and> unhealthy t = unhealthy r"
proof -
  from removeNode_parts [OF reg_inv_parts [OF assms], of path del] obtain t where
    t: "removeNodeUnsafe path del r = Some t" "reg_parts {} so t" "nodeMap t = (nodeMap r)(path := None)"
      "unhealthy t = unhealthy r" "healthy t = (if nodeMap r path = None then healthy r else healthy r - {path})" by blast
  have s: "sick t = sick r" using t(4) by (simp add: sick_def)
  have "healthy t = dom (nodeMap t) - sick t"
    using t(3,5) s assms by (auto simp: reg_inv_def)
  from reg_invI [OF t(2) this] t(1,3,4) s show ?thesis by (auto simp: reg_abs_def)
qed

lemma removeFromUnhealthy_unregistered:
  assumes "reg_inv so r" and "nodeMap r path = None" and "svc = so path"
  shows "\<exists>t. removeFromUnhealthyUnsafe svc path r = Some t \<and> reg_inv so t \<and> reg_abs t = (dom (nodeMap r), sick r - {path})"
proof -
  from removeFromUnhealthy_parts [OF reg_inv_parts [OF assms(1)] assms(3)] obtain t where
    t: "removeFromUnhealthyUnsafe svc path r = Some t" "reg_parts {} so t" "nodeMap t = nodeMap r"
      "services t = services r" "sick t = sick r - {path}" by blast
  have "healthy t = healthy r" using t(4) by (simp add: healthy_def)
  then have "healthy t = dom (nodeMap t) - sick t" using assms(1,2) t(3,5) by (auto simp: reg_inv_def)
  from reg_invI [OF t(2) this] t(1,3,5) show ?thesis by (auto simp: reg_abs_def)
qed

text \<open>Removing a node that is gone: from the registry, then from the unhealthy nodes.\<close>

lemma forget_inv:
  assumes "reg_inv so r" and "svc = so path"
  shows "\<exists>t. Option.bind (removeNodeUnsafe path False r) (removeFromUnhealthyUnsafe svc path) = Some t \<and>
    reg_inv so t \<and> reg_abs t = (dom (nodeMap r) - {path}, sick r - {path})"
proof -
  from removeNode_inv [OF assms(1), of path False] obtain t where
    t: "removeNodeUnsafe path False r = Some t" "reg_inv so t" "reg_abs t = (dom (nodeMap r) - {path}, sick r)" by blast
  then have "nodeMap t path = None" by (auto simp: reg_abs_def)
  from removeFromUnhealthy_unregistered [OF t(2) this assms(2)] t show ?thesis by (auto simp: reg_abs_def)
qed

lemma moveToUnhealthy_inv [inv_intros]:
  assumes inv: "reg_inv so r" and "nodeMap r path \<noteq> None" and svc: "svc = so path"
  shows "\<exists>t. moveToUnhealthyUnsafe svc path r = Some t \<and> reg_inv so t \<and> reg_abs t = (dom (nodeMap r), insert path (sick r))"
proof -
  have "reg_parts {path} so r" using inv by (auto simp: reg_inv_def reg_parts_def healthy_but_def)
  from remove_from_service_parts [OF this svc] obtain s where
    s: "remove_from_service svc path r = Some s" "reg_parts {} so s" "nodeMap s = nodeMap r" "unhealthy s = unhealthy r"
      "healthy s = healthy r - {path}" by blast
  define us where "us = (case unhealthy s svc of Some us \<Rightarrow> us | None \<Rightarrow> newServiceSet [] StrategyRoundRobin)"
  have us: "ss_wf us" "\<forall>n \<in> set (ss_nodes us). so n = svc"
    using s(2) ss.invar_fresh [of "[]"] ss.nodes_fresh [of "[]"]
    by (auto simp: us_def reg_parts_def unhealthy_ok_def set_ok_def split: option.splits)
  let ?us = "snd (ss_add path us)"
  have add: "ss_wf ?us" "set (ss_nodes ?us) = insert path (set (ss_nodes us))" "ss_nodes ?us \<noteq> []"
    using ss.insert_invar [OF us(1), of path] ss.insert_nodes [OF us(1), of path] by auto
  let ?t = "s\<lparr>unhealthy := (unhealthy s)(svc \<mapsto> ?us)\<rparr>"
  have t: "moveToUnhealthyUnsafe svc path r = Some ?t" using s(1) by (simp add: moveToUnhealthyUnsafe_def us_def)
  have "unhealthy_ok so ((unhealthy s)(svc \<mapsto> ?us))"
    using s(2) us add svc by (auto simp: reg_parts_def unhealthy_ok_def set_ok_def)
  then have parts: "reg_parts {} so ?t" using s(2) by (simp add: reg_parts_def)
  have "listed (unhealthy s) svc n \<longleftrightarrow> n \<in> set (ss_nodes us)" for n
    by (auto simp: listed_def us_def newServiceSet_def ss_replace_def split: option.splits)
  then have sick: "sick ?t = insert path (sick r)"
    using add(2) s(4) by (auto simp: sick_def listed_update) (metis listed_update)+
  have "healthy ?t = healthy s" by (simp add: healthy_def)
  then have "healthy ?t = dom (nodeMap ?t) - sick ?t" using s sick inv by (auto simp: reg_inv_def)
  from reg_invI [OF parts this] t sick s(3) show ?thesis by (simp add: reg_abs_def)
qed

end
