(* ===== verification/Registry_Ops.thy ===== *)
theory Registry_Ops
  imports Registry_Inv
begin

text \<open>
  The critical sections that store a service set: recovery of a node, the two scans and the strategy
  markers. Each keeps the invariant and changes the registered and the unhealthy nodes as its
  specification says.
\<close>

subsection \<open>Storing a service set\<close>

lemma store_service:
  assumes parts: "reg_parts {} so r" and wf: "ss_wf ss" "ss_nodes ss \<noteq> []"
    and nodes: "\<forall>n \<in> set (ss_nodes ss). so n = svc \<and> nodeMap r n \<noteq> None" and lb: "lb_ok (nodeMap r) ss"
  shows "reg_parts {} so (r\<lparr>services := (services r)(svc \<mapsto> ss)\<rparr>) \<and>
    healthy (r\<lparr>services := (services r)(svc \<mapsto> ss)\<rparr>) = healthy r - {n. so n = svc} \<union> set (ss_nodes ss)"
proof
  show parts': "reg_parts {} so (r\<lparr>services := (services r)(svc \<mapsto> ss)\<rparr>)"
    using assms by (auto simp: reg_parts_def healthy_but_def set_ok_def)
  show "healthy (r\<lparr>services := (services r)(svc \<mapsto> ss)\<rparr>) = healthy r - {n. so n = svc} \<union> set (ss_nodes ss)"
  proof (intro set_eqI)
    fix n
    show "n \<in> healthy (r\<lparr>services := (services r)(svc \<mapsto> ss)\<rparr>) \<longleftrightarrow> n \<in> healthy r - {n. so n = svc} \<union> set (ss_nodes ss)"
      using nodes healthy_iff [OF parts', of n] healthy_iff [OF parts, of n] by (auto simp: listed_update)
  qed
qed

lemma clear_service:
  assumes parts: "reg_parts {} so r"
  shows "reg_parts {} so (r\<lparr>services := (services r)(svc := None)\<rparr>) \<and>
    healthy (r\<lparr>services := (services r)(svc := None)\<rparr>) = healthy r - {n. so n = svc}"
proof
  show parts': "reg_parts {} so (r\<lparr>services := (services r)(svc := None)\<rparr>)"
    using assms by (auto simp: reg_parts_def healthy_but_def set_ok_def)
  show "healthy (r\<lparr>services := (services r)(svc := None)\<rparr>) = healthy r - {n. so n = svc}"
  proof (intro set_eqI)
    fix n
    show "n \<in> healthy (r\<lparr>services := (services r)(svc := None)\<rparr>) \<longleftrightarrow> n \<in> healthy r - {n. so n = svc}"
      using healthy_iff [OF parts', of n] healthy_iff [OF parts, of n] by (auto simp: listed_update)
  qed
qed

lemma service_nodes:
  assumes "reg_parts {} so r" and "services r svc = Some ss"
  shows "set (ss_nodes ss) = healthy r \<inter> {n. so n = svc}"
proof (intro set_eqI)
  fix n
  have "n \<in> set (ss_nodes ss) \<longleftrightarrow> listed (services r) svc n" using assms(2) by (simp add: listed_def)
  also have "\<dots> \<longleftrightarrow> n \<in> healthy r \<inter> {n. so n = svc}"
    using healthy_iff [OF assms(1), of n] listed_so(1) [OF assms(1), of svc n] by auto
  finally show "n \<in> set (ss_nodes ss) \<longleftrightarrow> n \<in> healthy r \<inter> {n. so n = svc}" .
qed

lemma no_service_nodes:
  assumes "reg_parts {} so r" and "services r svc = None"
  shows "healthy r \<inter> {n. so n = svc} = {}"
  using assms healthy_iff [OF assms(1)] by (auto simp: listed_def)

lemma promote_inv [inv_intros]:
  assumes inv: "reg_inv so r" and reg: "nodeMap r path \<noteq> None" and svc: "svc = so path"
  shows "\<exists>t. promoteToHealthyUnsafe svc path r = Some t \<and> reg_inv so t \<and> reg_abs t = (dom (nodeMap r), sick r - {path})"
proof -
  from removeFromUnhealthy_parts [OF reg_inv_parts [OF inv] svc] obtain s where
    s: "removeFromUnhealthyUnsafe svc path r = Some s" "reg_parts {} so s" "nodeMap s = nodeMap r"
      "services s = services r" "sick s = sick r - {path}" by blast
  define ss where "ss = (case services s svc of Some ss \<Rightarrow> ss | None \<Rightarrow> newServiceSet [] StrategyRoundRobin)"
  have ss: "ss_wf ss \<and> set (ss_nodes ss) = healthy s \<inter> {n. so n = svc} \<and>
    (path \<in> set (ss_nodes ss) \<longrightarrow> lb_ok (nodeMap s) ss)"
  proof (cases "services s svc")
    case None
    with no_service_nodes [OF s(2) None] show ?thesis
      using ss.invar_fresh [of "[]"] ss.nodes_fresh [of "[]"] by (simp add: ss_def)
  next
    case (Some x)
    then have "ss_wf x" "lb_ok (nodeMap s) x" using s(2) by (auto simp: reg_parts_def healthy_but_def set_ok_def)
    moreover have "ss = x" using Some by (simp add: ss_def)
    ultimately show ?thesis using service_nodes [OF s(2) Some] by blast
  qed
  then have wf: "ss_wf ss" by simp
  obtain b t where add: "ss_add path ss = (b, t)" by (cases "ss_add path ss") auto
  have t: "ss_wf t" "set (ss_nodes t) = insert path (set (ss_nodes ss))" "b \<longleftrightarrow> path \<notin> set (ss_nodes ss)" "\<not> b \<Longrightarrow> t = ss"
  proof -
    note e = ss_add_eq [OF wf, of path] and i = ss.insert_invar [OF wf, of path]
    show "ss_wf t" using i add by simp
    show "set (ss_nodes t) = insert path (set (ss_nodes ss))" "b \<longleftrightarrow> path \<notin> set (ss_nodes ss)"
      using ss.insert_nodes [OF wf, of path] ss.insert_added [OF wf, of path] add by (auto split: if_splits)
    show "t = ss" if "\<not> b" using that e add by (simp split: if_splits)
  qed
  from rebuild_ok [of so "nodeMap s" t] s(2) obtain u where
    u: "rebuildLoadBalancer (nodeMap s) t = Some u" "lb_ok (nodeMap s) u" "ss_nodes u = ss_nodes t"
      "nodePositions u = nodePositions t" by (auto simp: reg_parts_def)
  define v where "v = (if b then u else t)"
  have v: "ss_wf v" "set (ss_nodes v) = insert path (healthy s \<inter> {n. so n = svc})" "lb_ok (nodeMap s) v"
    using t u wf_cong [OF u(3,4)] ss by (auto simp: v_def)
  let ?t = "s\<lparr>services := (services s)(svc \<mapsto> v)\<rparr>"
  have run: "promoteToHealthyUnsafe svc path r = Some ?t"
    using s(1) add u(1) by (simp add: promoteToHealthyUnsafe_def v_def flip: ss_def)
  have "\<forall>n \<in> set (ss_nodes v). so n = svc \<and> nodeMap s n \<noteq> None"
    unfolding v(2) using svc reg s(3) healthy_registered [OF s(2)] by auto
  moreover have "ss_nodes v \<noteq> []" using v(2) by auto
  ultimately have parts: "reg_parts {} so ?t" and h: "healthy ?t = healthy s - {n. so n = svc} \<union> set (ss_nodes v)"
    using store_service [OF s(2) v(1) _ _ v(3), of svc] by blast+
  have "healthy s = healthy r" using s(4) by (simp add: healthy_def)
  moreover have "sick ?t = sick s" by (simp add: sick_def)
  ultimately have "healthy ?t = dom (nodeMap ?t) - sick ?t"
    using h s(3,5) inv reg svc unfolding v(2) by (auto simp: reg_inv_def)
  from reg_invI [OF parts this] run \<open>sick ?t = sick s\<close> s(3,5) show ?thesis by (simp add: reg_abs_def)
qed

subsection \<open>Scanning a service\<close>

lemma register_fold:
  "node_map_ok so nm \<Longrightarrow> \<forall>n \<in> set ns. so n = svc \<Longrightarrow>
   node_map_ok so (fold (register_node svc) ns nm) \<and> dom (fold (register_node svc) ns nm) = dom nm \<union> set ns \<and>
   (\<forall>n. nm n \<noteq> None \<longrightarrow> fold (register_node svc) ns nm n = nm n)"
proof (induction ns arbitrary: nm)
  case (Cons n ns)
  have ok: "node_map_ok so (register_node svc n nm)"
    using Cons.prems by (auto simp: node_map_ok_def register_node_def)
  have "dom (register_node svc n nm) = insert n (dom nm)" "\<And>k. nm k \<noteq> None \<Longrightarrow> register_node svc n nm k = nm k"
    by (auto simp: register_node_def)
  with Cons.IH [OF ok] Cons.prems show ?case by auto
qed simp

lemma register_parts:
  assumes parts: "reg_parts {} so r" and ns: "\<forall>n \<in> set ns. so n = svc"
  defines "t \<equiv> r\<lparr>nodeMap := fold (register_node svc) ns (nodeMap r)\<rparr>"
  shows "reg_parts {} so t" and "dom (nodeMap t) = dom (nodeMap r) \<union> set ns" and "healthy t = healthy r"
    and "sick t = sick r" and "unhealthy t = unhealthy r"
proof -
  have f: "node_map_ok so (nodeMap t)" "dom (nodeMap t) = dom (nodeMap r) \<union> set ns"
    "\<forall>n. nodeMap r n \<noteq> None \<longrightarrow> nodeMap t n = nodeMap r n"
    using register_fold [OF _ ns, of "nodeMap r"] parts by (auto simp: reg_parts_def t_def)
  have "lb_ok (nodeMap t) ss" if "services r s = Some ss" for s ss
  proof -
    have "lb_ok (nodeMap r) ss" "\<forall>n \<in> set (ss_nodes ss). nodeMap r n \<noteq> None"
      using that parts by (auto simp: reg_parts_def healthy_but_def)
    then show ?thesis by (subst lb_ok_cong [of ss _ "nodeMap r"]) (use f(3) in auto)
  qed
  then show "reg_parts {} so t"
    using parts f(1,3) by (auto simp: reg_parts_def healthy_but_def t_def)
  show "dom (nodeMap t) = dom (nodeMap r) \<union> set ns" by (rule f(2))
qed (simp_all add: t_def healthy_def sick_def)

lemma sameNodes_set:
  assumes "ss_wf ss" and "distinct ns" and "sameNodes ss ns"
  shows "set ns = set (ss_nodes ss)"
proof (rule card_subset_eq)
  show "set ns \<subseteq> set (ss_nodes ss)"
    using assms positions_None [OF assms(1)] by (auto simp: sameNodes_def list_all_iff)
  show "card (set ns) = card (set (ss_nodes ss))"
    using assms wf_distinct [OF assms(1)] by (simp add: sameNodes_def distinct_card)
qed simp

lemma update_service_parts:
  assumes parts: "reg_parts {} so r" and d: "distinct ns" and ns: "\<forall>n \<in> set ns. so n = svc \<and> nodeMap r n \<noteq> None"
  shows "\<exists>t. update_service stat svc ns r = Some t \<and> reg_parts {} so t \<and> nodeMap t = nodeMap r \<and>
    unhealthy t = unhealthy r \<and> healthy t = healthy r - {n. so n = svc} \<union> set ns"
proof (cases "ns = []")
  case True
  with clear_service [OF parts, of svc] show ?thesis by (simp add: update_service_def)
next
  case False
  have store: "\<exists>ss. rebuildLoadBalancer (nodeMap r) s = Some ss \<and>
      reg_parts {} so (r\<lparr>services := (services r)(svc \<mapsto> ss)\<rparr>) \<and>
      healthy (r\<lparr>services := (services r)(svc \<mapsto> ss)\<rparr>) = healthy r - {n. so n = svc} \<union> set ns"
    if s: "ss_wf s" "ss_nodes s = ns" for s
  proof -
    from rebuild_ok [of so "nodeMap r" s] parts obtain ss where
      ss: "rebuildLoadBalancer (nodeMap r) s = Some ss" "lb_ok (nodeMap r) ss" "ss_nodes ss = ss_nodes s"
        "nodePositions ss = nodePositions s" by (auto simp: reg_parts_def)
    have "ss_wf ss" using s wf_cong [OF ss(3,4)] by simp
    from store_service [OF parts this _ _ ss(2), of svc] ss s False ns show ?thesis by auto
  qed
  show ?thesis
  proof (cases "services r svc")
    case None
    have "ss_wf (newServiceSet ns (readStrategyAtCreation stat svc))" "ss_nodes (newServiceSet ns (readStrategyAtCreation stat svc)) = ns"
      using replace_wf [OF d] by (auto simp: newServiceSet_def) (simp add: ss_replace_def)
    from store [OF this] None False show ?thesis by (auto simp: update_service_def)
  next
    case (Some ex)
    have wf: "ss_wf ex" using parts Some by (auto simp: reg_parts_def healthy_but_def set_ok_def)
    show ?thesis
    proof (cases "sameNodes ex ns")
      case True
      have "set ns = healthy r \<inter> {n. so n = svc}"
        using sameNodes_set [OF wf d True] service_nodes [OF parts Some] by simp
      then show ?thesis using True Some False parts by (auto simp: update_service_def)
    next
      case diff: False
      have "ss_wf (ss_replace ns ex)" "ss_nodes (ss_replace ns ex) = ns"
        using replace_wf [OF d] by simp (simp add: ss_replace_def)
      from store [OF this] Some False diff show ?thesis by (auto simp: update_service_def)
    qed
  qed
qed

lemma scan_nodes_inv [inv_intros]:
  assumes inv: "reg_inv so r" and d: "distinct found" and so: "\<forall>n \<in> set found. so n = svc"
    and kept: "healthy r \<inter> {n. so n = svc} \<subseteq> set found"
  shows "\<exists>t. scan_nodes stat svc found r = Some t \<and> reg_inv so t \<and> reg_abs t = (dom (nodeMap r) \<union> set found, sick r)"
proof -
  let ?P = "\<lambda>n. case unhealthy r svc of None \<Rightarrow> True | Some us \<Rightarrow> \<not> ss_contains us n"
  let ?s = "r\<lparr>nodeMap := fold (register_node svc) found (nodeMap r)\<rparr>"
  note parts = reg_inv_parts [OF inv]
  note s = register_parts [OF parts so]
  have P: "?P n \<longleftrightarrow> n \<notin> sick r" if "so n = svc" for n
  proof -
    have "ss_wf us" if "unhealthy r svc = Some us" for us
      using that parts by (auto simp: reg_parts_def unhealthy_ok_def set_ok_def)
    with ss.has_node_iff sick_iff [OF parts, of n] that show ?thesis by (auto simp: listed_def split: option.splits)
  qed
  have sub: "\<forall>n \<in> set (filter ?P found). so n = svc \<and> nodeMap ?s n \<noteq> None"
  proof
    fix n assume "n \<in> set (filter ?P found)"
    then have "n \<in> set found" by simp
    with so s(2) show "so n = svc \<and> nodeMap ?s n \<noteq> None" by blast
  qed
  from update_service_parts [OF s(1) distinct_filter [OF d] sub, of stat] obtain t where
    t: "update_service stat svc (filter ?P found) ?s = Some t" "reg_parts {} so t" "nodeMap t = nodeMap ?s"
      "unhealthy t = unhealthy ?s" "healthy t = healthy ?s - {n. so n = svc} \<union> set (filter ?P found)" by blast
  have "set (filter ?P found) = set found - sick r" using P so by auto
  moreover have sick: "sick t = sick r" using t(4) by (simp add: sick_def)
  ultimately have "healthy t = dom (nodeMap t) - sick t"
    using t(3,5) s(2,3) inv kept so by (auto simp: reg_inv_def)
  from reg_invI [OF t(2) this] t(1,3) sick s(2) show ?thesis by (simp add: scan_nodes_def reg_abs_def)
qed

end
