(* ===== verification/Registry_Correct.thy ===== *)
theory Registry_Correct
  imports Registry_Ops
begin

text \<open>
  The registry against its abstract specification. The abstract state is two sets, the registered nodes
  and those listed as unhealthy; every event of the program, from full scans to failures and recoveries,
  runs without a panic and moves the abstract state as \<open>spec\<close> says. \<open>GetForwarders\<close> offers exactly the
  registered nodes of the service that are not unhealthy. The last part shows what an interruption
  between the probe of a node and its promotion does.
\<close>

subsection \<open>Scans\<close>

definition drop_spec :: "string set \<Rightarrow> string \<Rightarrow> string set \<times> string set \<Rightarrow> string set \<times> string set" where
  "drop_spec F node s = (if node \<in> F then s else (fst s - {node}, snd s - {node}))"

lemma drop_missing_inv:
  assumes "reg_inv so r" and "svc = so node"
  shows "\<exists>t. drop_missing svc found node r = Some t \<and> reg_inv so t \<and> reg_abs t = drop_spec (set found) node (reg_abs r)"
  using forget_inv [OF assms] assms(1) by (auto simp: drop_missing_def drop_spec_def reg_abs_def)

lemma fold_drop: "fold (drop_spec F) ns s = (fst s - (set ns - F), snd s - (set ns - F))"
  by (induction ns arbitrary: s) (auto simp: drop_spec_def)

lemma drop_all_inv:
  assumes "reg_inv so r" and "\<forall>n \<in> set ns. so n = svc"
  shows "\<exists>t. fold_opt (drop_missing svc found) ns r = Some t \<and> reg_inv so t \<and>
    reg_abs t = (dom (nodeMap r) - (set ns - set found), sick r - (set ns - set found))"
proof -
  have "\<exists>t. fold_opt (drop_missing svc found) ns r = Some t \<and> reg_inv so t \<and> reg_abs t = fold (drop_spec (set found)) ns (reg_abs r)"
    by (rule fold_opt_effect [where I = "reg_inv so"]) (use drop_missing_inv assms in auto)
  then show ?thesis by (simp add: fold_drop reg_abs_def)
qed

lemma unhealthy_nodes:
  assumes "reg_parts X so r" and "unhealthy r svc = Some us"
  shows "set (ss_nodes us) = sick r \<inter> {n. so n = svc}"
proof (intro set_eqI)
  fix n
  have "n \<in> set (ss_nodes us) \<longleftrightarrow> listed (unhealthy r) svc n" using assms(2) by (simp add: listed_def)
  also have "\<dots> \<longleftrightarrow> n \<in> sick r \<inter> {n. so n = svc}"
    using sick_iff [OF assms(1), of n] listed_so(2) [OF assms(1), of svc n] by auto
  finally show "n \<in> set (ss_nodes us) \<longleftrightarrow> n \<in> sick r \<inter> {n. so n = svc}" .
qed

lemma no_unhealthy_nodes: "reg_parts X so r \<Longrightarrow> unhealthy r svc = None \<Longrightarrow> sick r \<inter> {n. so n = svc} = {}"
  using sick_iff [of X so r] by (auto simp: listed_def)

lemma drop_healthy:
  assumes inv: "reg_inv so r"
  shows "\<exists>t. (case services r svc of None \<Rightarrow> Some r | Some ss \<Rightarrow> fold_opt (drop_missing svc found) (ss_nodes ss) r) = Some t \<and>
    reg_inv so t \<and> reg_abs t = (let gone = healthy r \<inter> {n. so n = svc} - set found in (dom (nodeMap r) - gone, sick r - gone))"
proof (cases "services r svc")
  case None
  with no_service_nodes [OF reg_inv_parts [OF inv] None] inv show ?thesis by (simp add: reg_abs_def)
next
  case (Some ss)
  note e = service_nodes [OF reg_inv_parts [OF inv] Some]
  then have "\<forall>n \<in> set (ss_nodes ss). so n = svc" by simp
  from drop_all_inv [OF inv this, of found] Some show ?thesis unfolding e by (simp add: Let_def)
qed

lemma drop_unhealthy:
  assumes inv: "reg_inv so r"
  shows "\<exists>t. (case unhealthy r svc of None \<Rightarrow> Some r | Some us \<Rightarrow> fold_opt (drop_missing svc found) (ss_nodes us) r) = Some t \<and>
    reg_inv so t \<and> reg_abs t = (let gone = sick r \<inter> {n. so n = svc} - set found in (dom (nodeMap r) - gone, sick r - gone))"
proof (cases "unhealthy r svc")
  case None
  with no_unhealthy_nodes [OF reg_inv_parts [OF inv] None] inv show ?thesis by (simp add: reg_abs_def)
next
  case (Some us)
  note e = unhealthy_nodes [OF reg_inv_parts [OF inv] Some]
  then have "\<forall>n \<in> set (ss_nodes us). so n = svc" by simp
  from drop_all_inv [OF inv this, of found] Some show ?thesis unfolding e by (simp add: Let_def)
qed

definition service_spec :: "(string \<Rightarrow> string) \<Rightarrow> string \<Rightarrow> string set \<Rightarrow> string set \<times> string set \<Rightarrow> string set \<times> string set" where
  "service_spec so svc F s = (fst s - {n. so n = svc} \<union> F, snd s - ({n. so n = svc} - F))"

lemma ApplyServiceScan_inv [inv_intros]:
  assumes inv: "reg_inv so r" and d: "distinct found" and so: "\<forall>n \<in> set found. so n = svc"
  shows "\<exists>t. ApplyServiceScan stat svc found r = Some t \<and> reg_inv so t \<and> reg_abs t = service_spec so svc (set found) (reg_abs r)"
proof -
  let ?V = "{n. so n = svc}" and ?F = "set found"
  have hr: "healthy r = dom (nodeMap r) - sick r" using inv by (simp add: reg_inv_def)
  from drop_healthy [OF inv, of svc found] obtain s where
    s: "(case services r svc of None \<Rightarrow> Some r | Some ss \<Rightarrow> fold_opt (drop_missing svc found) (ss_nodes ss) r) = Some s"
      "reg_inv so s" "reg_abs s = (dom (nodeMap r) - (healthy r \<inter> ?V - ?F), sick r - (healthy r \<inter> ?V - ?F))"
    by (auto simp: Let_def)
  from drop_unhealthy [OF s(2), of svc found] obtain t where
    t: "(case unhealthy s svc of None \<Rightarrow> Some s | Some us \<Rightarrow> fold_opt (drop_missing svc found) (ss_nodes us) s) = Some t"
      "reg_inv so t" "reg_abs t = (dom (nodeMap s) - (sick s \<inter> ?V - ?F), sick s - (sick s \<inter> ?V - ?F))"
    by (auto simp: Let_def)
  have abs: "dom (nodeMap t) \<inter> ?V \<subseteq> ?F" "dom (nodeMap t) - ?V = dom (nodeMap r) - ?V" "sick t = sick r - (?V - ?F)"
    using s(3) t(3) unfolding reg_abs_def hr by auto
  then have dom: "dom (nodeMap t) \<union> ?F = dom (nodeMap r) - ?V \<union> ?F" by blast
  show ?thesis
  proof (cases "found = []")
    case True
    note c = clear_service [OF reg_inv_parts [OF t(2)], of svc]
    let ?t = "t\<lparr>services := (services t)(svc := None)\<rparr>"
    have "sick ?t = sick t" by (simp add: sick_def)
    then have "reg_inv so ?t" using c abs(1) True t(2) by (auto intro!: reg_invI simp: reg_inv_def)
    moreover have "ApplyServiceScan stat svc found r = Some ?t" unfolding ApplyServiceScan_def s(1) bind.bind_lunit t(1) using True by simp
    ultimately show ?thesis using abs dom True \<open>sick ?t = sick t\<close> by (simp add: reg_abs_def service_spec_def)
  next
    case False
    have "healthy t \<inter> ?V \<subseteq> ?F" using abs(1) t(2) by (auto simp: reg_inv_def)
    from scan_nodes_inv [OF t(2) d so this, of stat] obtain u where
      u: "scan_nodes stat svc found t = Some u" "reg_inv so u" "reg_abs u = (dom (nodeMap t) \<union> ?F, sick t)" by blast
    have "ApplyServiceScan stat svc found r = Some u" unfolding ApplyServiceScan_def s(1) bind.bind_lunit t(1) using u(1) False by simp
    moreover have "reg_abs u = service_spec so svc ?F (reg_abs r)"
      using u(3) abs dom by (simp add: reg_abs_def service_spec_def)
    ultimately show ?thesis using u(2) by blast
  qed
qed

subsection \<open>The full scan\<close>

text \<open>A scan finds every path once, below its own service.\<close>

definition scan_ok :: "(string \<Rightarrow> string) \<Rightarrow> (string \<times> string list) list \<Rightarrow> bool" where
  "scan_ok so byService \<longleftrightarrow> distinct (map fst byService) \<and>
     (\<forall>(svc, ns) \<in> set byService. distinct ns \<and> (\<forall>n \<in> set ns. so n = svc))"

definition found_paths :: "(string \<times> string list) list \<Rightarrow> string set" where
  "found_paths byService = (\<Union>(svc, ns) \<in> set byService. set ns)"

lemma found_in_iff:
  assumes "scan_ok so byService"
  shows "n \<in> set (found_in byService (so n)) \<longleftrightarrow> n \<in> found_paths byService"
proof
  assume "n \<in> set (found_in byService (so n))"
  then obtain ns where "map_of byService (so n) = Some ns" "n \<in> set ns"
    by (cases "map_of byService (so n)") (auto simp: found_in_def)
  then show "n \<in> found_paths byService" unfolding found_paths_def using map_of_SomeD by fastforce
next
  assume "n \<in> found_paths byService"
  then obtain svc ns where e: "(svc, ns) \<in> set byService" "n \<in> set ns" by (auto simp: found_paths_def)
  with assms have "so n = svc" "map_of byService svc = Some ns" by (auto simp: scan_ok_def)
  with e show "n \<in> set (found_in byService (so n))" by (simp add: found_in_def)
qed

definition sweep_spec :: "string set \<Rightarrow> string \<Rightarrow> string set \<times> string set \<Rightarrow> string set \<times> string set" where
  "sweep_spec F path s = (if path \<in> fst s \<and> path \<notin> F then (fst s - {path}, snd s - {path}) else s)"

lemma fold_sweep: "fst s \<subseteq> set ps \<Longrightarrow> fold (sweep_spec F) ps s = (fst s \<inter> F, snd s - (fst s - F))"
proof -
  have "fold (sweep_spec F) ps s = (fst s - (set ps - F), snd s - (fst s \<inter> set ps - F))" for s
    by (induction ps arbitrary: s) (auto simp: sweep_spec_def)
  then show "fst s \<subseteq> set ps \<Longrightarrow> fold (sweep_spec F) ps s = (fst s \<inter> F, snd s - (fst s - F))" by auto
qed

lemma sweep_inv:
  assumes inv: "reg_inv so r" and ok: "scan_ok so byService"
  shows "\<exists>t. (case nodeMap r path of None \<Rightarrow> Some r
      | Some ctx \<Rightarrow> drop_missing (serviceName ctx) (found_in byService (serviceName ctx)) path r) = Some t \<and>
    reg_inv so t \<and> reg_abs t = sweep_spec (found_paths byService) path (reg_abs r)"
proof (cases "nodeMap r path")
  case None
  with inv show ?thesis by (auto simp: sweep_spec_def reg_abs_def)
next
  case (Some ctx)
  with inv have svc: "serviceName ctx = so path"
    by (auto simp: reg_inv_def reg_parts_def dest: node_map_okD(2))
  have "drop_spec (set (found_in byService (so path))) path (reg_abs r) = sweep_spec (found_paths byService) path (reg_abs r)"
    using Some found_in_iff [OF ok, of path] by (auto simp: drop_spec_def sweep_spec_def reg_abs_def)
  with drop_missing_inv [OF inv svc, of "found_in byService (serviceName ctx)"] Some svc show ?thesis by simp
qed

definition full_spec :: "string set \<Rightarrow> string set \<times> string set \<Rightarrow> string set \<times> string set" where
  "full_spec F s = (F, snd s - (fst s - F))"

lemma ApplyFullScan_inv [inv_intros]:
  assumes inv: "reg_inv so r" and ok: "scan_ok so byService" and visit: "dom (nodeMap r) \<subseteq> set visit"
  shows "\<exists>t. ApplyFullScan stat visit byService r = Some t \<and> reg_inv so t \<and> reg_abs t = full_spec (found_paths byService) (reg_abs r)"
proof -
  let ?F = "found_paths byService"
  let ?sweep = "\<lambda>path r. case nodeMap r path of None \<Rightarrow> Some r
    | Some ctx \<Rightarrow> drop_missing (serviceName ctx) (found_in byService (serviceName ctx)) path r"
  have "\<exists>s. fold_opt ?sweep visit r = Some s \<and> reg_inv so s \<and> reg_abs s = fold (sweep_spec ?F) visit (reg_abs r)"
    by (rule fold_opt_effect [where I = "reg_inv so"]) (use sweep_inv [OF _ ok] inv in auto)
  then obtain s where s: "fold_opt ?sweep visit r = Some s" "reg_inv so s"
    and abs: "reg_abs s = (dom (nodeMap r) \<inter> ?F, sick r - (dom (nodeMap r) - ?F))"
    using fold_sweep [of "reg_abs r" visit ?F] visit by (auto simp: reg_abs_def)
  let ?add = "\<lambda>(svc, ns :: string list) (st :: string set \<times> string set). (fst st \<union> set ns, snd st)"
  let ?I = "\<lambda>r. reg_inv so r \<and> dom (nodeMap r) \<subseteq> ?F"
  have "\<exists>t. fold_opt (\<lambda>(svc, ns). scan_nodes stat svc ns) byService s = Some t \<and> ?I t \<and> reg_abs t = fold ?add byService (reg_abs s)"
  proof (rule fold_opt_effect [where I = ?I])
    fix x r assume x: "x \<in> set byService" and r: "?I r"
    obtain svc ns where xe: "x = (svc, ns)" by (cases x)
    with x ok have ns: "distinct ns" "\<forall>n \<in> set ns. so n = svc" "set ns \<subseteq> ?F" "found_in byService svc = ns"
      by (auto simp: scan_ok_def found_paths_def found_in_def)
    have "healthy r \<inter> {n. so n = svc} \<subseteq> set ns"
    proof
      fix n assume "n \<in> healthy r \<inter> {n. so n = svc}"
      then have "n \<in> ?F" "so n = svc" using r by (auto simp: reg_inv_def)
      then show "n \<in> set ns" using found_in_iff [OF ok, of n] ns(4) by simp
    qed
    from scan_nodes_inv [OF _ ns(1,2) this, of stat] r xe ns(3)
    show "\<exists>t. (case x of (svc, ns) \<Rightarrow> scan_nodes stat svc ns) r = Some t \<and> ?I t \<and> reg_abs t = ?add x (reg_abs r)"
      by (auto simp: reg_abs_def)
  qed (use s abs in \<open>auto simp: reg_abs_def\<close>)
  then obtain t where t: "fold_opt (\<lambda>(svc, ns). scan_nodes stat svc ns) byService s = Some t" "reg_inv so t"
    "reg_abs t = fold ?add byService (reg_abs s)" by blast
  have "fold ?add bs st = (fst st \<union> found_paths bs, snd st)" for bs st
    by (induction bs arbitrary: st) (auto simp: found_paths_def)
  then have "reg_abs t = full_spec ?F (reg_abs r)" using t(3) abs by (auto simp: full_spec_def reg_abs_def)
  moreover have "ApplyFullScan stat visit byService r = Some t"
    using s(1) t(1) by (simp add: ApplyFullScan_def)
  ultimately show ?thesis using t(2) by blast
qed

subsection \<open>Strategies\<close>

lemma store_same:
  assumes inv: "reg_inv so r" and ss: "services r svc = Some ss" and t: "ss_nodes t = ss_nodes ss"
    "nodePositions t = nodePositions ss" "lb_ok (nodeMap r) t"
  shows "reg_inv so (r\<lparr>services := (services r)(svc \<mapsto> t)\<rparr>) \<and> reg_abs (r\<lparr>services := (services r)(svc \<mapsto> t)\<rparr>) = reg_abs r"
proof -
  note parts = reg_inv_parts [OF inv]
  have "ss_wf ss" "ss_nodes ss \<noteq> []" "\<forall>n \<in> set (ss_nodes ss). so n = svc \<and> nodeMap r n \<noteq> None"
    using parts ss by (auto simp: reg_parts_def healthy_but_def set_ok_def)
  with store_service [OF parts _ _ _ t(3), of svc] t wf_cong [OF t(1,2)] have
    p: "reg_parts {} so (r\<lparr>services := (services r)(svc \<mapsto> t)\<rparr>)"
    and h: "healthy (r\<lparr>services := (services r)(svc \<mapsto> t)\<rparr>) = healthy r - {n. so n = svc} \<union> set (ss_nodes ss)" by auto
  have s: "sick (r\<lparr>services := (services r)(svc \<mapsto> t)\<rparr>) = sick r" by (simp add: sick_def)
  have "healthy (r\<lparr>services := (services r)(svc \<mapsto> t)\<rparr>) = healthy r"
    unfolding h service_nodes [OF parts ss] by blast
  with p s inv show ?thesis by (simp add: reg_inv_def reg_abs_def)
qed

lemma setStrategy_inv [inv_intros]:
  assumes inv: "reg_inv so r"
  shows "\<exists>t. setStrategy svc strat r = Some t \<and> reg_inv so t \<and> reg_abs t = reg_abs r"
proof (cases "services r svc")
  case None
  with inv show ?thesis by (simp add: setStrategy_def)
next
  case (Some ss)
  show ?thesis
  proof (cases "ss_strategy ss = strat")
    case True
    with inv Some show ?thesis by (simp add: setStrategy_def)
  next
    case False
    from rebuild_ok [of so "nodeMap r" "ss\<lparr>ss_strategy := strat\<rparr>"] inv obtain t where
      t: "rebuildLoadBalancer (nodeMap r) (ss\<lparr>ss_strategy := strat\<rparr>) = Some t" "lb_ok (nodeMap r) t"
        "ss_nodes t = ss_nodes ss" "nodePositions t = nodePositions ss" by (auto simp: reg_inv_def reg_parts_def)
    from store_same [OF inv Some t(3,4,2)] t(1) Some False show ?thesis by (simp add: setStrategy_def)
  qed
qed

lemma Strategy_full_inv [inv_intros]:
  assumes "reg_inv so r"
  shows "\<exists>t. Strategy_ApplyFullScan names byService r = Some t \<and> reg_inv so t \<and> reg_abs t = reg_abs r"
proof -
  have "\<exists>t. Strategy_ApplyFullScan names byService r = Some t \<and> reg_inv so t \<and> reg_abs t = fold (\<lambda>_. id) names (reg_abs r)"
    unfolding Strategy_ApplyFullScan_def
    by (rule fold_opt_effect [where I = "reg_inv so"]) (use setStrategy_inv assms in auto)
  moreover have "fold (\<lambda>_. id) names x = x" for x :: "string set \<times> string set" by (induction names) auto
  ultimately show ?thesis by simp
qed

subsection \<open>Choosing forwarders\<close>

text \<open>The nodes of a service in an abstract state, and their forwarders.\<close>

definition spec_nodes :: "(string \<Rightarrow> string) \<Rightarrow> string \<Rightarrow> string set \<times> string set \<Rightarrow> string set" where
  "spec_nodes so svc s = {n \<in> fst s - snd s. so n = svc}"

definition valid_random :: "nat \<Rightarrow> nat \<Rightarrow> string \<Rightarrow> registry \<Rightarrow> bool" where
  "valid_random i j svc r \<longleftrightarrow> (case services r svc of None \<Rightarrow> True
     | Some ss \<Rightarrow> (case leastInFlight ss of None \<Rightarrow> True | Some li \<Rightarrow> valid_choice i j (li_forwarders li)))"

lemma GetForwarders_inv [inv_intros]:
  assumes inv: "reg_inv so r" and rand: "valid_random i j svc r"
  shows "\<exists>fwds t. GetForwarders load i j svc r = Some (fwds, t) \<and> reg_inv so t \<and> reg_abs t = reg_abs r \<and>
    set fwds = newForwarder svc ` spec_nodes so svc (reg_abs r)"
proof (cases "services r svc")
  case None
  have "spec_nodes so svc (reg_abs r) = {}"
    using no_service_nodes [OF reg_inv_parts [OF inv] None] inv by (auto simp: spec_nodes_def reg_abs_def reg_inv_def)
  with None inv show ?thesis by (simp add: GetForwarders_def)
next
  case (Some ss)
  note parts = reg_inv_parts [OF inv]
  have lb: "lb_ok (nodeMap r) ss" and ne: "ss_nodes ss \<noteq> []" and reg: "\<forall>n \<in> set (ss_nodes ss). nodeMap r n \<noteq> None"
    and nm: "node_map_ok so (nodeMap r)" and svc: "\<forall>n \<in> set (ss_nodes ss). so n = svc"
    using parts Some by (auto simp: reg_parts_def healthy_but_def set_ok_def)
  let ?fs = "resolveForwarders (ss_nodes ss) (nodeMap r)"
  have "?fs = map (newForwarder svc) (ss_nodes ss)" using resolve_registered [OF nm reg] svc by simp
  moreover have "set (ss_nodes ss) = spec_nodes so svc (reg_abs r)"
    using service_nodes [OF parts Some] inv by (auto simp: spec_nodes_def reg_abs_def reg_inv_def)
  ultimately have fs: "set ?fs = newForwarder svc ` spec_nodes so svc (reg_abs r)" by simp
  show ?thesis
  proof (cases "ss_strategy ss")
    case StrategyRoundRobin
    with lb obtain rr where rr: "roundRobin ss = Some rr" "mset (rr_forwarders rr) = mset (weighted ?fs)"
      by (auto simp: lb_ok_def Let_def)
    have "set (weighted ?fs) = set ?fs" using resolve_weights [OF nm, of "ss_nodes ss"] by (auto simp: weighted_def)
    with rr(2) have "set (rr_forwarders rr) = set ?fs" by (metis mset_eq_setD)
    then have set: "set (fst (rr_Get rr)) = set ?fs" using round.choices_set [of rr] by simp
    let ?t = "ss\<lparr>roundRobin := Some (snd (rr_Get rr))\<rparr>"
    have "lb_ok (nodeMap r) ?t"
      using rr StrategyRoundRobin round.choices_members [of rr] by (auto simp: lb_ok_def Let_def)
    from store_same [OF inv Some _ _ this] rr(1) StrategyRoundRobin Some ne set fs show ?thesis
      by (simp add: GetForwarders_def split_beta)
  next
    case StrategyLeastInFlight
    with lb obtain li where li: "leastInFlight ss = Some li" "mset (li_forwarders li) = mset ?fs"
      by (auto simp: lb_ok_def Let_def)
    then have "set (li_forwarders li) = set ?fs" by (metis mset_eq_setD)
    then have set: "set (fst (li_Get load li)) = set ?fs" using least.choices_set [of load li] by simp
    let ?t = "ss\<lparr>leastInFlight := Some (snd (li_Get load li))\<rparr>"
    have "lb_ok (nodeMap r) ?t"
      using li StrategyLeastInFlight least.choices_members [of load li] by (auto simp: lb_ok_def Let_def)
    from store_same [OF inv Some _ _ this] li(1) StrategyLeastInFlight Some ne set fs show ?thesis
      by (simp add: GetForwarders_def split_beta)
  next
    case StrategyP2C
    with lb obtain li where li: "leastInFlight ss = Some li" "mset (li_forwarders li) = mset ?fs"
      by (auto simp: lb_ok_def Let_def)
    then have "set (li_forwarders li) = set ?fs" by (metis mset_eq_setD)
    moreover have "valid_choice i j (li_forwarders li)" using rand Some li(1) by (simp add: valid_random_def)
    ultimately have "set (GetP2C load i j li) = set ?fs" using GetP2C_mset [of i j li load] by (metis mset_eq_setD)
    with li(1) StrategyP2C Some ne fs inv show ?thesis by (simp add: GetForwarders_def)
  qed
qed

text \<open>A round robin does not look at the random numbers.\<close>

lemma GetForwarders_random_free:
  assumes inv: "reg_inv so r" and ss: "services r svc = Some ss" "ss_strategy ss = StrategyRoundRobin"
  shows "\<exists>fwds t. GetForwarders load i j svc r = Some (fwds, t) \<and> reg_inv so t \<and> reg_abs t = reg_abs r \<and>
    set fwds = newForwarder svc ` spec_nodes so svc (reg_abs r)"
proof -
  have "valid_random 0 0 svc r" using ss(1) by (auto simp: valid_random_def valid_choice_def split: option.splits)
  moreover have "GetForwarders load i j svc r = GetForwarders load 0 0 svc r" using ss by (simp add: GetForwarders_def)
  ultimately show ?thesis using GetForwarders_inv [OF inv, of 0 0 svc load] by simp
qed

subsection \<open>Recovery\<close>

definition retry_spec :: "(string \<Rightarrow> probe) \<Rightarrow> string \<Rightarrow> string set \<times> string set \<Rightarrow> string set \<times> string set" where
  "retry_spec found n s =
     (if n \<notin> fst s \<or> found n = Recovered then (fst s, snd s - {n})
      else if found n = SocketGone then (fst s - {n}, snd s - {n}) else s)"

lemma retry_node_inv [inv_intros]:
  assumes inv: "reg_inv so r" and svc: "svc = so path"
  shows "\<exists>t. retry_node svc (found path) path r = Some t \<and> reg_inv so t \<and> reg_abs t = retry_spec found path (reg_abs r)"
proof (cases "nodeMap r path")
  case None
  with removeFromUnhealthy_unregistered [OF inv None svc] show ?thesis
    by (auto simp: retry_node_def retry_spec_def reg_abs_def)
next
  case (Some ctx)
  then have "nodeMap r path \<noteq> None" by simp
  from promote_inv [OF inv this svc] forget_inv [OF inv svc] Some inv show ?thesis
    by (cases "found path") (auto simp: retry_node_def retry_commit_def retry_spec_def reg_abs_def)
qed

definition retry_all_spec :: "(string \<Rightarrow> probe) \<Rightarrow> string set \<times> string set \<Rightarrow> string set \<times> string set" where
  "retry_all_spec found s = (fst s - {n \<in> snd s. found n = SocketGone}, {n \<in> snd s. n \<in> fst s \<and> found n = StillDown})"

lemma fold_retry: "fold (retry_spec found) ns s =
   (fst s - {n \<in> set ns. found n = SocketGone}, snd s - {n \<in> set ns. n \<notin> fst s \<or> found n \<noteq> StillDown})"
proof (induction ns arbitrary: s)
  case (Cons n ns)
  have "fold (retry_spec found) (n # ns) s = fold (retry_spec found) ns (retry_spec found n s)" by simp
  also note Cons.IH
  also have "(fst (retry_spec found n s) - {m \<in> set ns. found m = SocketGone},
      snd (retry_spec found n s) - {m \<in> set ns. m \<notin> fst (retry_spec found n s) \<or> found m \<noteq> StillDown}) =
    (fst s - {m \<in> set (n # ns). found m = SocketGone}, snd s - {m \<in> set (n # ns). m \<notin> fst s \<or> found m \<noteq> StillDown})"
    by (cases "found n") (auto simp: retry_spec_def)
  finally show ?case .
qed simp

lemma RetryUnhealthy_inv [inv_intros]:
  assumes inv: "reg_inv so r" and svcs: "so ` sick r \<subseteq> set svcs"
  shows "\<exists>t. RetryUnhealthy found svcs r = Some t \<and> reg_inv so t \<and> reg_abs t = retry_all_spec found (reg_abs r)"
proof -
  define check where "check = concat (map (\<lambda>svc. case unhealthy r svc of None \<Rightarrow> [] | Some us \<Rightarrow> map (Pair svc) (ss_nodes us)) svcs)"
  note parts = reg_inv_parts [OF inv]
  have listed: "x \<in> set check \<longleftrightarrow> fst x \<in> set svcs \<and> listed (unhealthy r) (fst x) (snd x)" for x
    by (cases x) (force simp: check_def listed_def split: option.splits)
  have check: "fst x = so (snd x)" if "x \<in> set check" for x
    using that listed [of x] listed_so(2) [OF parts, of "fst x" "snd x"] by simp
  have nodes: "set (map snd check) = sick r"
  proof (intro set_eqI iffI)
    fix n assume "n \<in> set (map snd check)"
    then show "n \<in> sick r" using listed by (auto simp: sick_def)
  next
    fix n assume n: "n \<in> sick r"
    then have "(so n, n) \<in> set check" using listed svcs sick_iff [OF parts, of n] by auto
    then show "n \<in> set (map snd check)" by force
  qed
  have "\<exists>t. fold_opt (\<lambda>(svc, path). retry_node svc (found path) path) check r = Some t \<and> reg_inv so t \<and>
      reg_abs t = fold (\<lambda>x. retry_spec found (snd x)) check (reg_abs r)"
    by (rule fold_opt_effect [where I = "reg_inv so"]) (use retry_node_inv check inv in \<open>auto simp: split_beta\<close>)
  then obtain t where t: "fold_opt (\<lambda>(svc, path). retry_node svc (found path) path) check r = Some t" "reg_inv so t"
    "reg_abs t = fold (\<lambda>x. retry_spec found (snd x)) check (reg_abs r)" by blast
  have "fold (\<lambda>x. retry_spec found (snd x)) check s = fold (retry_spec found) (map snd check) s" for s
    by (simp only: fold_map comp_def)
  then have "reg_abs t = retry_all_spec found (reg_abs r)"
    unfolding t(3) retry_all_spec_def fold_retry nodes by (auto simp: reg_abs_def fold_retry nodes)
  moreover have "RetryUnhealthy found svcs r = Some t" using t(1) by (simp add: RetryUnhealthy_def check_def)
  ultimately show ?thesis using t(2) by blast
qed

subsection \<open>All events\<close>

text \<open>The two random numbers of a call are \<open>rand.IntN(n)\<close> and \<open>rand.IntN(n - 1)\<close> for the number of nodes.\<close>

datatype event =
    FullScan "string \<Rightarrow> string \<Rightarrow> bool" "string list" "(string \<times> string list) list"
  | ServiceScan "string \<Rightarrow> string \<Rightarrow> bool" string "string list"
  | Failure string bool
  | Remove string bool
  | Retry "string \<Rightarrow> probe" "string list"
  | Marker string "string list"
  | Markers "string list" "(string \<times> string list) list"
  | Get "forwarder \<Rightarrow> int" "nat \<Rightarrow> nat" "nat \<Rightarrow> nat" string

fun exec :: "event \<Rightarrow> registry \<Rightarrow> registry option" where
  "exec (FullScan stat visit byService) r = ApplyFullScan stat visit byService r"
| "exec (ServiceScan stat svc found) r = ApplyServiceScan stat svc found r"
| "exec (Failure path refused) r = listenFailures path refused r"
| "exec (Remove path del) r = RemoveNode path del r"
| "exec (Retry found svcs) r = RetryUnhealthy found svcs r"
| "exec (Marker svc found) r = Strategy_ApplyServiceScan svc found r"
| "exec (Markers names byService) r = Strategy_ApplyFullScan names byService r"
| "exec (Get load rand1 rand2 svc) r =
     map_option snd (GetForwarders load (rand1 (NodeCount svc r)) (rand2 (NodeCount svc r - 1)) svc r)"

fun event_ok :: "(string \<Rightarrow> string) \<Rightarrow> event \<Rightarrow> string set \<times> string set \<Rightarrow> bool" where
  "event_ok so (FullScan stat visit byService) s \<longleftrightarrow> scan_ok so byService \<and> fst s \<subseteq> set visit"
| "event_ok so (ServiceScan stat svc found) s \<longleftrightarrow> distinct found \<and> (\<forall>n \<in> set found. so n = svc)"
| "event_ok so (Retry found svcs) s \<longleftrightarrow> so ` snd s \<subseteq> set svcs"
| "event_ok so (Get load rand1 rand2 svc) s \<longleftrightarrow> (\<forall>n > 0. rand1 n < n \<and> rand2 n < n)"
| "event_ok so _ s \<longleftrightarrow> True"

fun spec :: "(string \<Rightarrow> string) \<Rightarrow> event \<Rightarrow> string set \<times> string set \<Rightarrow> string set \<times> string set" where
  "spec so (FullScan stat visit byService) s = full_spec (found_paths byService) s"
| "spec so (ServiceScan stat svc found) s = service_spec so svc (set found) s"
| "spec so (Failure path refused) s =
     (if path \<notin> fst s then s else if refused then (fst s - {path}, snd s) else (fst s, insert path (snd s)))"
| "spec so (Remove path del) s = (fst s - {path}, snd s)"
| "spec so (Retry found svcs) s = retry_all_spec found s"
| "spec so _ s = s"

fun events_ok :: "(string \<Rightarrow> string) \<Rightarrow> event list \<Rightarrow> string set \<times> string set \<Rightarrow> bool" where
  "events_ok so [] s \<longleftrightarrow> True"
| "events_ok so (e # es) s \<longleftrightarrow> event_ok so e s \<and> events_ok so es (spec so e s)"

lemma listenFailures_inv [inv_intros]:
  assumes inv: "reg_inv so r"
  shows "\<exists>t. listenFailures path refused r = Some t \<and> reg_inv so t \<and> reg_abs t = spec so (Failure path refused) (reg_abs r)"
proof (cases "nodeMap r path")
  case None
  with inv show ?thesis by (auto simp: listenFailures_def reg_abs_def)
next
  case (Some ctx)
  with inv have "serviceName ctx = so path" by (auto simp: reg_inv_def reg_parts_def dest: node_map_okD(2))
  with moveToUnhealthy_inv [OF inv _ this] removeNode_inv [OF inv, of path True] Some show ?thesis
    by (auto simp: listenFailures_def reg_abs_def)
qed

lemma valid_random_ok:
  assumes inv: "reg_inv so r" and rand: "\<forall>n > 0. rand1 n < n \<and> rand2 n < n"
    and p2c: "\<And>ss. services r svc = Some ss \<Longrightarrow> ss_strategy ss \<noteq> StrategyRoundRobin"
  shows "valid_random (rand1 (NodeCount svc r)) (rand2 (NodeCount svc r - 1)) svc r"
proof (cases "services r svc")
  case (Some ss)
  from inv Some have "lb_ok (nodeMap r) ss" "\<forall>n \<in> set (ss_nodes ss). nodeMap r n \<noteq> None" "node_map_ok so (nodeMap r)"
    by (auto simp: reg_inv_def reg_parts_def healthy_but_def)
  then obtain li where li: "leastInFlight ss = Some li"
      "mset (li_forwarders li) = mset (map (\<lambda>n. newForwarder (so n) n) (ss_nodes ss))"
    using p2c [OF Some] resolve_registered [of so "nodeMap r" "ss_nodes ss"] by (auto simp: lb_ok_def Let_def)
  have "length (li_forwarders li) = length (ss_nodes ss)" using arg_cong [OF li(2), of size] by simp
  moreover have drawn: "rand1 n < n \<and> rand2 (n - 1) < n - 1" if "2 \<le> n" for n using rand that by simp
  ultimately have "valid_choice (rand1 (length (ss_nodes ss))) (rand2 (length (ss_nodes ss) - 1)) (li_forwarders li)"
    using drawn [of "length (ss_nodes ss)"] by (auto simp: valid_choice_def)
  then show ?thesis using li(1) Some by (simp add: valid_random_def NodeCount_def)
qed (simp add: valid_random_def)

lemma Get_inv:
  assumes inv: "reg_inv so r" and rand: "\<forall>n > 0. rand1 n < n \<and> rand2 n < n"
  shows "\<exists>fwds t. GetForwarders load (rand1 (NodeCount svc r)) (rand2 (NodeCount svc r - 1)) svc r = Some (fwds, t) \<and>
    reg_inv so t \<and> reg_abs t = reg_abs r \<and> set fwds = newForwarder svc ` spec_nodes so svc (reg_abs r)"
proof (cases "\<exists>ss. services r svc = Some ss \<and> ss_strategy ss = StrategyRoundRobin")
  case True
  then obtain ss where ss: "services r svc = Some ss" "ss_strategy ss = StrategyRoundRobin" by blast
  from GetForwarders_random_free [OF inv this] show ?thesis by blast
next
  case False
  then have "valid_random (rand1 (NodeCount svc r)) (rand2 (NodeCount svc r - 1)) svc r"
    by (intro valid_random_ok [OF inv rand]) auto
  from GetForwarders_inv [OF inv this] show ?thesis .
qed

lemma exec_inv:
  assumes inv: "reg_inv so r" and ok: "event_ok so e (reg_abs r)"
  shows "\<exists>t. exec e r = Some t \<and> reg_inv so t \<and> reg_abs t = spec so e (reg_abs r)"
proof (cases e)
  case (FullScan stat visit byService)
  with ok ApplyFullScan_inv [OF inv, of byService visit stat] show ?thesis by (simp add: reg_abs_def)
next
  case (ServiceScan stat svc found)
  with ok ApplyServiceScan_inv [OF inv, of found svc stat] show ?thesis by simp
next
  case (Failure path refused)
  with listenFailures_inv [OF inv] show ?thesis by simp
next
  case (Remove path del)
  with removeNode_inv [OF inv, of path del] show ?thesis by (auto simp: RemoveNode_def reg_abs_def)
next
  case (Retry found svcs)
  with ok RetryUnhealthy_inv [OF inv, of svcs found] show ?thesis by (simp add: reg_abs_def)
next
  case (Marker svc found)
  with setStrategy_inv [OF inv] show ?thesis by (simp add: Strategy_ApplyServiceScan_def)
next
  case (Markers names byService)
  with Strategy_full_inv [OF inv] show ?thesis by simp
next
  case (Get load rand1 rand2 svc)
  with ok Get_inv [OF inv, of rand1 rand2 load svc] show ?thesis by auto
qed

lemma run_inv:
  "reg_inv so r \<Longrightarrow> events_ok so es (reg_abs r) \<Longrightarrow>
   \<exists>t. fold_opt exec es r = Some t \<and> reg_inv so t \<and> reg_abs t = fold (spec so) es (reg_abs r)"
proof (induction es arbitrary: r)
  case (Cons e es)
  then obtain t where t: "exec e r = Some t" "reg_inv so t" "reg_abs t = spec so e (reg_abs r)"
    using exec_inv [of so r e] by auto
  with Cons.IH [of t] Cons.prems(2) show ?case by simp
qed simp

lemma NewRegistry_inv: "reg_inv so NewRegistry" "reg_abs NewRegistry = ({}, {})"
  by (auto simp: reg_inv_def reg_parts_def node_map_ok_def healthy_but_def unhealthy_ok_def healthy_def sick_def
      listed_def NewRegistry_def reg_abs_def)

subsection \<open>Properties\<close>


definition all_in_s :: "string \<Rightarrow> string" where "all_in_s n = ''s''"

definition some_events :: "event list" where
  "some_events =
     [FullScan (\<lambda>_ _. False) [] [(''s'', [''s/a@2.sock'', ''s/b.sock''])],
      Get (\<lambda>_. 0) (\<lambda>_. 0) (\<lambda>_. 0) ''s'', Failure ''s/a@2.sock'' False,
      Retry (\<lambda>_. Recovered) [''s''], Marker ''s'' [''s/p2c.strategy''], Failure ''s/b.sock'' True]"




definition no_stat :: "string \<Rightarrow> string \<Rightarrow> bool" where "no_stat _ _ = False"

text \<open>A node fails, is probed with success while a request that still holds its forwarder reports a refused
  connection, is promoted all the same, and then its socket comes back.\<close>

definition interrupted_retry :: "registry option" where
  "interrupted_retry = do {
     r \<leftarrow> ApplyFullScan no_stat [] [(''s'', [''a.sock'', ''b.sock''])] NewRegistry;
     r \<leftarrow> listenFailures ''a.sock'' False r;
     r \<leftarrow> listenFailures ''a.sock'' True r;
     r \<leftarrow> RemoveNode ''a.sock'' True r;
     r \<leftarrow> retry_commit ''s'' ''a.sock'' Recovered r;
     ApplyServiceScan no_stat ''s'' [''a.sock'', ''b.sock''] r
   }"

definition only_b :: "registry \<Rightarrow> bool" where
  "only_b r \<longleftrightarrow> (case services r ''s'' of None \<Rightarrow> False
     | Some ss \<Rightarrow> ss_nodes ss \<noteq> [] \<and> ss_strategy ss = StrategyRoundRobin \<and>
         (case roundRobin ss of None \<Rightarrow> False | Some rr \<Rightarrow> map SocketPath (rr_forwarders rr) = [''b.sock'']))"

definition lost_a :: "registry \<Rightarrow> bool" where
  "lost_a r \<longleftrightarrow> set (GetNodes ''s'' r) = {''a.sock'', ''b.sock''} \<and> nodeMap r ''a.sock'' \<noteq> None \<and>
     unhealthy r ''s'' = None \<and> only_b r"

lemma interrupted_retry_state: "case interrupted_retry of None \<Rightarrow> False | Some r \<Rightarrow> lost_a r"
  by code_simp

lemma only_b_forwarders:
  "only_b r \<Longrightarrow> \<exists>fwds t. GetForwarders load i j ''s'' r = Some (fwds, t) \<and> SocketPath ` set fwds = {''b.sock''}"
proof -
  assume "only_b r"
  then obtain ss rr where ss: "services r ''s'' = Some ss" "ss_nodes ss \<noteq> []" "ss_strategy ss = StrategyRoundRobin"
    "roundRobin ss = Some rr" "map SocketPath (rr_forwarders rr) = [''b.sock'']"
    by (auto simp: only_b_def split: option.splits)
  have "SocketPath ` set (fst (rr_Get rr)) = {''b.sock''}"
    unfolding round.choices_set [OF TrueI] using arg_cong [OF ss(5), of set] by simp
  with ss show ?thesis by (simp add: GetForwarders_def split_beta)
qed

text \<open>C29. \<open>RetryUnhealthy\<close> releases the lock while it probes a node and does not look again before it
  promotes it. If a refused connection removes the node meanwhile, the node is listed without a
  forwarder, and when its socket is back a scan sees no change: the node is registered, listed as
  healthy, and never chosen.\<close>

theorem interrupted_retry_loses_node:
  "\<exists>r. interrupted_retry = Some r \<and> set (GetNodes ''s'' r) = {''a.sock'', ''b.sock''} \<and> nodeMap r ''a.sock'' \<noteq> None \<and>
     unhealthy r ''s'' = None \<and>
     (\<forall>load i j. \<exists>fwds t. GetForwarders load i j ''s'' r = Some (fwds, t) \<and> SocketPath ` set fwds = {''b.sock''})"
proof -
  from interrupted_retry_state obtain r where "interrupted_retry = Some r" "lost_a r"
    by (metis option.case(1) option.case(2) option.exhaust)
  then show ?thesis using only_b_forwarders [of r] by (auto simp: lost_a_def)
qed

end
