(* ===== verification/Node_Scan.thy ===== *)
theory Node_Scan
  imports Registry_Correct
begin

text \<open>
  \<open>internal/core/watcher/nodescan/scanner.go\<close>: the walk over the directory of sockets and the paths it
  hands to the handlers, grouped by service. What \<open>WalkDir\<close> visits is a list of paths with whether each is a directory; a range over a map is a fold over
  a list of its entries.
\<close>

subsection \<open>Grouping the paths of a walk\<close>

type_synonym walk = "(string \<times> bool) list"

text \<open>\<open>filepath.Dir\<close> of a relative path without empty or dot elements.\<close>

definition path_Dir :: "string \<Rightarrow> string" where
  "path_Dir p = (case last_index p (CHR ''/'') of None \<Rightarrow> ''.'' | Some i \<Rightarrow> take i p)"

definition relative :: "string \<Rightarrow> string \<Rightarrow> string" where
  "relative baseDir path = drop (length baseDir + 1) path"

text \<open>The service of a socket path: the directory it lies in, below the base directory.\<close>

definition service_of :: "string \<Rightarrow> string \<Rightarrow> string" where
  "service_of baseDir path = path_Dir (relative baseDir path)"

fun add_path :: "string \<Rightarrow> string \<Rightarrow> (string \<times> string list) list \<Rightarrow> (string \<times> string list) list" where
  "add_path svc path [] = [(svc, [path])]"
| "add_path svc path ((s, ps) # g) =
     (if s = svc then (s, if path \<in> set ps then ps else ps @ [path]) # g else (s, ps) # add_path svc path g)"

definition has_ext :: "string \<Rightarrow> string \<times> bool \<Rightarrow> bool" where
  "has_ext ext d \<longleftrightarrow> \<not> snd d \<and> path_Ext (after_slash (fst d)) = ext"

text \<open>The function \<open>scanAll\<close> gives \<open>WalkDir\<close>, for the paths of one extension.\<close>

definition visit_path :: "string \<Rightarrow> string \<Rightarrow> string \<times> bool \<Rightarrow> (string \<times> string list) list \<Rightarrow> (string \<times> string list) list" where
  "visit_path baseDir ext d grouped =
     (if \<not> has_ext ext d then grouped
      else let rel = relative baseDir (fst d)
           in if \<not> contains_sub rel ''/'' then grouped else add_path (path_Dir rel) (fst d) grouped)"

definition scan_groups :: "string \<Rightarrow> string \<Rightarrow> walk \<Rightarrow> (string \<times> string list) list" where
  "scan_groups baseDir ext entries = fold (visit_path baseDir ext) entries []"

text \<open>\<open>scanService\<close>: every path of the extension below the directory of the service.\<close>

definition service_paths :: "string \<Rightarrow> walk \<Rightarrow> string list" where
  "service_paths ext entries = map fst (filter (has_ext ext) entries)"

text \<open>The walk over a subdirectory is the part of the walk over the base directory below it.\<close>

definition walk_below :: "string \<Rightarrow> string \<Rightarrow> walk \<Rightarrow> walk" where
  "walk_below baseDir svc entries = filter (\<lambda>d. has_prefix (fst d) (baseDir @ ''/'' @ svc @ ''/'')) entries"

subsection \<open>Handlers\<close>

text \<open>\<open>Register\<close>: an extension has one handler; \<^const>\<open>None\<close> is the error.\<close>

definition Register :: "string \<Rightarrow> 'h \<Rightarrow> (string \<Rightarrow> 'h option) \<Rightarrow> (string \<Rightarrow> 'h option) option" where
  "Register ext h handlers = (if handlers ext \<noteq> None then None else Some (handlers(ext \<mapsto> h)))"

definition sock_ext :: string where "sock_ext = ''.sock''"

subsection \<open>The groups of a full scan\<close>

lemma map_fst_add_path: "set (map fst (add_path svc path g)) = insert svc (set (map fst g))"
  by (induction svc path g rule: add_path.induct) auto

lemma add_path_ok:
  "scan_ok so g \<Longrightarrow> so path = svc \<Longrightarrow> scan_ok so (add_path svc path g) \<and> found_paths (add_path svc path g) = insert path (found_paths g)"
proof (induction svc path g rule: add_path.induct)
  case (2 svc path s ps g)
  then show ?case
    using map_fst_add_path [of svc path g] by (auto simp: scan_ok_def found_paths_def)
qed (simp_all add: scan_ok_def found_paths_def)

definition below :: "string \<Rightarrow> string \<Rightarrow> bool" where
  "below baseDir path \<longleftrightarrow> CHR ''/'' \<in> set (relative baseDir path)"

definition sockets_below :: "string \<Rightarrow> string \<Rightarrow> walk \<Rightarrow> string list" where
  "sockets_below baseDir ext entries = map fst (filter (\<lambda>d. has_ext ext d \<and> below baseDir (fst d)) entries)"

lemma scan_groups_ok:
  "scan_ok (service_of baseDir) (scan_groups baseDir ext entries) \<and>
   found_paths (scan_groups baseDir ext entries) = set (sockets_below baseDir ext entries)"
proof -
  have slash: "contains_sub rel ''/'' \<longleftrightarrow> CHR ''/'' \<in> set rel" for rel
    by (auto simp: contains_sub_iff in_set_conv_decomp)
  have "scan_ok (service_of baseDir) g \<Longrightarrow> scan_ok (service_of baseDir) (fold (visit_path baseDir ext) es g) \<and>
      found_paths (fold (visit_path baseDir ext) es g) =
        found_paths g \<union> set (sockets_below baseDir ext es)" for es g
  proof (induction es arbitrary: g)
    case (Cons d es)
    show ?case
    proof (cases "has_ext ext d \<and> below baseDir (fst d)")
      case True
      then have e: "visit_path baseDir ext d g = add_path (service_of baseDir (fst d)) (fst d) g"
        by (simp add: visit_path_def service_of_def slash below_def Let_def)
      from Cons.IH [of "add_path (service_of baseDir (fst d)) (fst d) g"] add_path_ok [OF Cons.prems refl] True e
      show ?thesis by (auto simp: sockets_below_def)
    next
      case False
      then have "visit_path baseDir ext d g = g" by (auto simp: visit_path_def slash below_def Let_def)
      with Cons.IH [OF Cons.prems] False show ?thesis by (auto simp: sockets_below_def)
    qed
  qed (simp add: sockets_below_def)
  from this [of "[]" entries] show ?thesis by (simp add: scan_groups_def scan_ok_def found_paths_def)
qed

end
