(* ===== verification/Watcher.thy ===== *)
theory Watcher
  imports Node_Scan
begin

text \<open>
  \<open>internal/core/watcher/watcher.go\<close>: two goroutines, one that turns file events into dirty services and one
  that scans them, with a map under a lock and a channel of one signal between them. The steps below are
  the atomic actions of the two; any interleaving of them is a run. What \<open>os.Stat\<close> and \<open>WalkDir\<close> see is an
  argument of a step; the effect of a scan on the registry is the subject of \<open>Scanner\<close>.
\<close>

subsection \<open>File events\<close>

datatype fs_op = Create | Write_op | Remove_op | Rename | Chmod

text \<open>The operations of an event are a set; the switch accepts only single ones.\<close>

definition handled_ops :: "fs_op set \<Rightarrow> bool" where
  "handled_ops ops \<longleftrightarrow> ops \<in> {{Create}, {Write_op}, {Remove_op}, {Rename}}"

definition topLevelDir :: "string \<Rightarrow> string" where
  "topLevelDir relPath = fst (cut_at relPath (CHR ''/''))"

text \<open>\<open>addRecursive\<close>: the directories of the walk are watched.\<close>

definition addRecursive :: "walk \<Rightarrow> string set \<Rightarrow> string set" where
  "addRecursive entries watched = watched \<union> set (map fst (filter snd entries))"

text \<open>An event: its operations, its relative path, and, when it is a new directory, the walk below it.\<close>

definition event_service :: "fs_op set \<Rightarrow> string \<Rightarrow> walk option \<Rightarrow> string option" where
  "event_service ops relPath new_dir =
     (if \<not> handled_ops ops then None
      else if Create \<in> ops \<and> new_dir \<noteq> None then Some (topLevelDir relPath)
      else Some (path_Dir relPath))"

definition event_watches :: "fs_op set \<Rightarrow> walk option \<Rightarrow> string set \<Rightarrow> string set" where
  "event_watches ops new_dir watched =
     (case new_dir of Some es \<Rightarrow> if handled_ops ops \<and> Create \<in> ops then addRecursive es watched else watched | None \<Rightarrow> watched)"

subsection \<open>The worker's ticks\<close>

datatype tick_action = Full_Scan | Retry_Unhealthy

definition ticksPerFullScan :: nat where "ticksPerFullScan = 6"

definition tick :: "nat \<Rightarrow> tick_action \<times> nat" where
  "tick tickCount = (if ticksPerFullScan \<le> tickCount + 1 then (Full_Scan, 0) else (Retry_Unhealthy, tickCount + 1))"

fun ticks :: "nat \<Rightarrow> nat \<Rightarrow> tick_action list" where
  "ticks 0 tickCount = []"
| "ticks (Suc n) tickCount = (let (a, tickCount') = tick tickCount in a # ticks n tickCount')"

subsection \<open>The two goroutines\<close>

datatype worker = Waiting | Taking | Scanning "string list"

text \<open>\<open>marking\<close>: the listener has put a service into the map and not yet tried to send the signal.\<close>

record watcher =
  dirtyServices :: "string set"
  eventSignal :: bool
  marking :: bool
  at :: worker
  tickCount :: nat
  watched :: "string set"

definition NewWatcher :: watcher where
  "NewWatcher = \<lparr>dirtyServices = {}, eventSignal = False, marking = False, at = Waiting, tickCount = 0, watched = {}\<rparr>"

inductive watch_step :: "watcher \<Rightarrow> watcher \<Rightarrow> bool" where
  mark: "\<not> marking w \<Longrightarrow> event_service ops rel new_dir = Some svc \<Longrightarrow> svc \<noteq> [] \<Longrightarrow> svc \<noteq> ''.'' \<Longrightarrow>
    watch_step w (w\<lparr>dirtyServices := insert svc (dirtyServices w), marking := True,
      watched := event_watches ops new_dir (watched w)\<rparr>)"
| signal: "marking w \<Longrightarrow> watch_step w (w\<lparr>marking := False, eventSignal := True\<rparr>)"
| receive: "at w = Waiting \<Longrightarrow> eventSignal w \<Longrightarrow> watch_step w (w\<lparr>eventSignal := False, at := Taking\<rparr>)"
| collect: "at w = Taking \<Longrightarrow> set todo = dirtyServices w \<Longrightarrow>
    watch_step w (w\<lparr>dirtyServices := {}, at := Scanning todo\<rparr>)"
| scan: "at w = Scanning (svc # todo) \<Longrightarrow> watch_step w (w\<lparr>at := Scanning todo\<rparr>)"
| idle: "at w = Scanning [] \<Longrightarrow> watch_step w (w\<lparr>at := Waiting\<rparr>)"
| ticked: "at w = Waiting \<Longrightarrow> tick (tickCount w) = (act, n) \<Longrightarrow> watch_step w (w\<lparr>tickCount := n\<rparr>)"

inductive watcher_reachable :: "watcher \<Rightarrow> bool" where
  new: "watcher_reachable NewWatcher"
| step: "watcher_reachable w \<Longrightarrow> watch_step w w' \<Longrightarrow> watcher_reachable w'"

inductive_cases watch_stepE: "watch_step w w'"

subsection \<open>No signal is lost\<close>

definition awake :: "watcher \<Rightarrow> bool" where
  "awake w \<longleftrightarrow> (dirtyServices w \<noteq> {} \<longrightarrow> marking w \<or> eventSignal w \<or> at w = Taking) \<and> tickCount w < ticksPerFullScan"

lemma awake_step: "watch_step w w' \<Longrightarrow> awake w \<Longrightarrow> awake w'"
  by (induction rule: watch_step.induct) (auto simp: awake_def tick_def ticksPerFullScan_def split: if_splits)

lemma reachable_awake: "watcher_reachable w \<Longrightarrow> awake w"
  by (induction rule: watcher_reachable.induct)
    (auto simp: awake_def NewWatcher_def ticksPerFullScan_def dest: awake_step [unfolded awake_def ticksPerFullScan_def])

text \<open>The worker alone: it ends a scan, then takes what is dirty.\<close>

lemma finish_scans: "at w = Scanning todo \<Longrightarrow> watch_step\<^sup>*\<^sup>* w (w\<lparr>at := Waiting\<rparr>)"
proof (induction todo arbitrary: w)
  case Nil
  then show ?case by (auto intro: watch_step.idle)
next
  case (Cons svc todo)
  have "watch_step w (w\<lparr>at := Scanning todo\<rparr>)" by (rule watch_step.scan) (rule Cons.prems)
  moreover have "watch_step\<^sup>*\<^sup>* (w\<lparr>at := Scanning todo\<rparr>) (w\<lparr>at := Scanning todo\<rparr>\<lparr>at := Waiting\<rparr>)" by (rule Cons.IH) simp
  ultimately show ?case by (auto intro: converse_rtranclp_into_rtranclp)
qed

lemma collect_dirty:
  assumes "at w = Taking" and "finite (dirtyServices w)"
  shows "\<exists>w' todo. watch_step\<^sup>*\<^sup>* w w' \<and> at w' = Scanning todo \<and> dirtyServices w \<subseteq> set todo"
proof -
  obtain todo where "set todo = dirtyServices w" using finite_list [OF assms(2)] by blast
  with watch_step.collect [OF assms(1) this] show ?thesis
    by (intro exI [of _ "w\<lparr>dirtyServices := {}, at := Scanning todo\<rparr>"] exI [of _ todo]) auto
qed

lemma receive_dirty:
  assumes "at w = Waiting" and "eventSignal w" and "finite (dirtyServices w)"
  shows "\<exists>w' todo. watch_step\<^sup>*\<^sup>* w w' \<and> at w' = Scanning todo \<and> dirtyServices w \<subseteq> set todo"
proof -
  let ?w = "w\<lparr>eventSignal := False, at := Taking\<rparr>"
  from collect_dirty [of ?w] assms(3) obtain w' todo where "watch_step\<^sup>*\<^sup>* ?w w'" "at w' = Scanning todo"
    "dirtyServices w \<subseteq> set todo" by auto
  with watch_step.receive [OF assms(1,2)] show ?thesis by (meson converse_rtranclp_into_rtranclp)
qed

lemma dirty_finite: "watcher_reachable w \<Longrightarrow> finite (dirtyServices w)"
proof (induction rule: watcher_reachable.induct)
  case (step w w')
  from step.hyps(2) step.IH show ?case by (induction rule: watch_step.induct) auto
qed (simp add: NewWatcher_def)

lemma signalled_scanned:
  assumes "finite (dirtyServices w)" and "eventSignal w \<or> at w = Taking"
  shows "\<exists>w' todo. watch_step\<^sup>*\<^sup>* w w' \<and> at w' = Scanning todo \<and> dirtyServices w \<subseteq> set todo"
proof (cases "at w")
  case Waiting
  with receive_dirty [OF Waiting _ assms(1)] assms(2) show ?thesis by simp
next
  case Taking
  from collect_dirty [OF this assms(1)] show ?thesis .
next
  case (Scanning todo)
  let ?w = "w\<lparr>at := Waiting\<rparr>"
  have "watch_step\<^sup>*\<^sup>* w ?w" by (rule finish_scans [OF Scanning])
  moreover have "\<exists>w' todo. watch_step\<^sup>*\<^sup>* ?w w' \<and> at w' = Scanning todo \<and> dirtyServices ?w \<subseteq> set todo"
    by (rule receive_dirty) (use Scanning assms in auto)
  ultimately show ?thesis by (auto intro: rtranclp_trans)
qed

text \<open>C30. No wake-up is lost: in every reachable state each dirty service has a signal on its way, and the
  worker, whatever it does now, gets to a scan of all of them by its own steps and at most the
  listener's pending send.\<close>

theorem dirty_services_are_scanned:
  assumes "watcher_reachable w"
  shows "(dirtyServices w \<noteq> {} \<longrightarrow> marking w \<or> eventSignal w \<or> at w = Taking) \<and>
    (dirtyServices w \<noteq> {} \<longrightarrow> (\<exists>w' todo. watch_step\<^sup>*\<^sup>* w w' \<and> at w' = Scanning todo \<and> dirtyServices w \<subseteq> set todo))"
proof (intro conjI impI)
  note a = reachable_awake [OF assms] and f = dirty_finite [OF assms]
  assume d: "dirtyServices w \<noteq> {}"
  then show "marking w \<or> eventSignal w \<or> at w = Taking" using a by (simp add: awake_def)
  show "\<exists>w' todo. watch_step\<^sup>*\<^sup>* w w' \<and> at w' = Scanning todo \<and> dirtyServices w \<subseteq> set todo"
  proof (cases "eventSignal w \<or> at w = Taking")
    case True
    from signalled_scanned [OF f this] show ?thesis .
  next
    case False
    with a d have m: "marking w" by (simp add: awake_def)
    let ?w = "w\<lparr>marking := False, eventSignal := True\<rparr>"
    from signalled_scanned [of ?w] f obtain w' todo where "watch_step\<^sup>*\<^sup>* ?w w'" "at w' = Scanning todo"
      "dirtyServices w \<subseteq> set todo" by auto
    with watch_step.signal [OF m] show ?thesis by (meson converse_rtranclp_into_rtranclp)
  qed
qed

theorem dirty_services_are_scanned_witness:
  "\<exists>w. watcher_reachable w \<and> dirtyServices w = {''s''} \<and>
     (\<exists>w' todo. watch_step\<^sup>*\<^sup>* w w' \<and> at w' = Scanning todo \<and> {''s''} \<subseteq> set todo)"
proof -
  let ?w = "NewWatcher\<lparr>dirtyServices := {''s''}, marking := True\<rparr>"
  have "event_service {Create} ''s/a.sock'' None = Some ''s''"
    by (simp add: event_service_def handled_ops_def path_Dir_def)
  from watch_step.mark [OF _ this, of NewWatcher] have "watch_step NewWatcher ?w"
    by (simp add: NewWatcher_def event_watches_def)
  then have w: "watcher_reachable ?w" by (rule watcher_reachable.step [OF watcher_reachable.new])
  from dirty_services_are_scanned [OF w] w show ?thesis by (intro exI [of _ ?w]) simp
qed

lemma ticks_shift: "c < ticksPerFullScan \<Longrightarrow>
  ticks n c = map (\<lambda>i. if (c + i + 1) mod 6 = 0 then Full_Scan else Retry_Unhealthy) [0..<n]"
proof (induction n arbitrary: c)
  case (Suc n)
  show ?case
  proof (cases "c = 5")
    case True
    then have "ticks (Suc n) c = Full_Scan # ticks n 0" by (simp add: tick_def ticksPerFullScan_def)
    also have "ticks n 0 = map (\<lambda>i. if (i + 1) mod 6 = 0 then Full_Scan else Retry_Unhealthy) [0..<n]"
      using Suc.IH [of 0] by (simp add: ticksPerFullScan_def)
    finally show ?thesis using True by (simp add: upt_conv_Cons map_Suc_upt [symmetric] comp_def mod_add_left_eq del: upt_Suc)
  next
    case False
    with Suc.prems have t: "c + 1 < 6" by (simp add: ticksPerFullScan_def)
    then have "ticks (Suc n) c = Retry_Unhealthy # ticks n (c + 1)" by (simp add: tick_def ticksPerFullScan_def)
    also have "ticks n (c + 1) = map (\<lambda>i. if (c + Suc i + 1) mod 6 = 0 then Full_Scan else Retry_Unhealthy) [0..<n]"
      using Suc.IH [of "c + 1"] t by (simp add: ticksPerFullScan_def)
    finally show ?thesis using t by (simp add: upt_conv_Cons map_Suc_upt [symmetric] comp_def del: upt_Suc)
  qed
qed simp

text \<open>From a fresh counter exactly every sixth tick is a full scan, and all others retry the unhealthy
  nodes.\<close>

theorem every_sixth_tick_scans:
  "ticks n 0 = map (\<lambda>i. if (i + 1) mod 6 = 0 then Full_Scan else Retry_Unhealthy) [0..<n]"
  using ticks_shift [of 0 n] by (simp add: ticksPerFullScan_def)

end
