(* ===== verification/Pool_Leaves.thy ===== *)
theory Pool_Leaves
  imports Build_Correct
begin

text \<open>
  Every node of a finished pool that accepts a method is the leaf of a route: what reads the whole pool, as
  the caches of the proxy do, meets only actions \<open>Build\<close> stored.
\<close>

definition adds_leaves :: "leaf set \<Rightarrow> route_tree \<Rightarrow> route_tree \<Rightarrow> bool" where
  "adds_leaves L t t' \<longleftrightarrow> (\<forall>n \<in> set (NodePool t'). n \<in> set (NodePool t) \<or> Methods n = 0 \<or> node_leaf n \<in> L)"

lemma adds_leaves_refl [simp]: "adds_leaves L t t"
  by (simp add: adds_leaves_def)

lemma adds_leaves_trans: "adds_leaves L t t' \<Longrightarrow> adds_leaves L' t' t'' \<Longrightarrow> L \<subseteq> M \<Longrightarrow> L' \<subseteq> M \<Longrightarrow> adds_leaves M t t''"
  unfolding adds_leaves_def by blast

lemma adds_append_node: "fst (snd l) = 0 \<or> l \<in> L \<Longrightarrow> adds_leaves L t (append_node es l t)"
  by (auto simp: adds_leaves_def append_node_def node_leaf_def)

lemma adds_finish_node: "fst (snd l) = 0 \<or> l \<in> L \<Longrightarrow> adds_leaves L t (snd (finish_node f l es t))"
  using adds_append_node [of l L t es] by (auto simp: finish_node_def Let_def adds_leaves_def)

lemma adds_accept_clone: "accept_clone c l own d t = Some (g, t') \<Longrightarrow> l \<in> L \<Longrightarrow> adds_leaves L t t'"
  by (auto simp: accept_clone_def bind_eq_Some_conv adds_append_node)

lemma flatten_leaves:
  "flatten_edge be inh d t = Some (e, t') \<Longrightarrow> adds_leaves (snd ` set (edge_paths be)) t t'"
  "flatten_children es fb d t = Some (edges, fb', t') \<Longrightarrow> adds_leaves (snd ` set (edges_paths es)) t t'"
proof (induction be inh d t and es fb d t arbitrary: e t' and edges fb' t'
    rule: flatten_edge_flatten_children.induct)
  case (1 f es a m tg inherited depth t)
  let ?L = "snd ` set (edge_paths (BuildEdge f (BuildNode es a m tg)))"
  from "1.prems" obtain own t1 edges fb t2 own' where
    s1: "(if is_wild (hd f) \<and> m \<noteq> 0 \<and> es \<noteq> []
      then accept_clone (hd f) (a, m, tg) (map_option (through f depth) inherited) depth t
      else Some (map_option (through f depth) inherited, t)) = Some (own, t1)"
    and s2: "flatten_children es own depth t1 = Some (edges, fb, t2)"
    and s3: "finish_node f (a, m, tg) (edges @ own') t2 = (e, t')" by (elim flatten_edgeE)
  have own: "m = 0 \<or> (a, m, tg) \<in> ?L" by (force simp: own_leaf_def)
  have sub: "snd ` set (edges_paths es) \<subseteq> ?L" by force
  have "adds_leaves ?L t t1" using s1 own adds_accept_clone [of "hd f" "(a, m, tg)" _ depth t own t1 ?L] by (metis adds_leaves_refl option.inject prod.inject)
  moreover have "adds_leaves (snd ` set (edges_paths es)) t1 t2" by (rule "1.IH" [OF refl s1 refl s2])
  ultimately have "adds_leaves ?L t t2" by (rule adds_leaves_trans [OF _ _ order_refl sub])
  moreover have "adds_leaves ?L t2 t'" using adds_finish_node [of "(a, m, tg)" ?L t2 f "edges @ own'"] own s3 by simp
  ultimately show ?case by (rule adds_leaves_trans [OF _ _ order_refl order_refl])
next
  case (3 child es fb depth t)
  from "3.prems" obtain edges' fb1 t1 e where
    s1: "flatten_children es fb depth t = Some (edges', fb1, t1)"
    and s2: "flatten_edge child fb1 (if wild_edge child then depth + 1 else depth) t1 = Some (e, t')"
    by (elim flatten_childrenE)
  show ?case by (rule adds_leaves_trans [OF "3.IH"(1) [OF s1] "3.IH"(2) [OF s1 refl refl s2]]) auto
qed simp

definition root_leaves :: "roots \<Rightarrow> leaf set" where
  "root_leaves roots = {l. \<exists>c e p. roots c = Some e \<and> (p, l) \<in> set (edge_paths e)}"

lemma finalize_roots_leaves:
  "finalize_roots cs roots fb t = Some t' \<Longrightarrow> adds_leaves (root_leaves roots) t t'"
proof (induction cs arbitrary: fb t)
  case (Cons c cs)
  show ?case
  proof (cases "roots c")
    case None
    then show ?thesis using Cons by simp
  next
    case (Some be)
    with Cons.prems obtain e t1 where s1: "flatten_edge be fb (if wild_edge be then 1 else 0) t = Some (e, t1)"
      and s2: "finalize_roots cs roots (if wild_edge be then Some (graft_to e) else fb)
        (t1\<lparr>EdgePool := (EdgePool t1)[byte c := e]\<rparr>) = Some t'" by (rule finalize_roots_SomeE)
    from Some have "snd ` set (edge_paths be) \<subseteq> root_leaves roots" by (force simp: root_leaves_def)
    with flatten_leaves(1) [OF s1] have "adds_leaves (root_leaves roots) t (t1\<lparr>EdgePool := (EdgePool t1)[byte c := e]\<rparr>)"
      by (auto simp: adds_leaves_def)
    from adds_leaves_trans [OF this Cons.IH [OF s2]] show ?thesis by blast
  qed
qed simp

lemma grows_nodes: "grows t t' \<Longrightarrow> set (NodePool t) \<subseteq> set (NodePool t')"
  by (auto simp: grows_def dest: set_mono_prefix)

lemma finish_node_leaf: "finish_node f l es t = (e, t') \<Longrightarrow> l \<in> node_leaf ` set (NodePool t')"
  by (auto simp: finish_node_def Let_def append_node_def node_leaf_def split: if_splits)

lemma flatten_covers:
  "flatten_edge be inh d t = Some (e, t') \<Longrightarrow> snd ` set (edge_paths be) \<subseteq> node_leaf ` set (NodePool t')"
  "flatten_children es fb d t = Some (edges, fb', t') \<Longrightarrow> snd ` set (edges_paths es) \<subseteq> node_leaf ` set (NodePool t')"
proof (induction be inh d t and es fb d t arbitrary: e t' and edges fb' t'
    rule: flatten_edge_flatten_children.induct)
  case (1 f es a m tg inherited depth t)
  from "1.prems" obtain own t1 edges fb t2 own' where
    s1: "(if is_wild (hd f) \<and> m \<noteq> 0 \<and> es \<noteq> []
      then accept_clone (hd f) (a, m, tg) (map_option (through f depth) inherited) depth t
      else Some (map_option (through f depth) inherited, t)) = Some (own, t1)"
    and s2: "flatten_children es own depth t1 = Some (edges, fb, t2)"
    and s3: "finish_node f (a, m, tg) (edges @ own') t2 = (e, t')" by (elim flatten_edgeE)
  have "snd ` set (edges_paths es) \<subseteq> node_leaf ` set (NodePool t2)" by (rule "1.IH" [OF refl s1 refl s2])
  moreover have "set (NodePool t2) \<subseteq> set (NodePool t')"
    using grows_nodes [OF grows_finish_node [of t2 f "(a, m, tg)" "edges @ own'"]] s3 by simp
  ultimately have "snd ` set (edges_paths es) \<subseteq> node_leaf ` set (NodePool t')" by blast
  moreover have "snd ` set (own_leaf a m tg) \<subseteq> node_leaf ` set (NodePool t')"
    using finish_node_leaf [OF s3] by (simp add: own_leaf_def)
  ultimately show ?case by auto
next
  case (3 child es fb depth t)
  from "3.prems" obtain edges' fb1 t1 e where
    s1: "flatten_children es fb depth t = Some (edges', fb1, t1)"
    and s2: "flatten_edge child fb1 (if wild_edge child then depth + 1 else depth) t1 = Some (e, t')"
    by (elim flatten_childrenE)
  from "3.IH"(1) [OF s1] grows_nodes [OF flatten_grows(1) [OF s2]]
  have "snd ` set (edges_paths es) \<subseteq> node_leaf ` set (NodePool t')" by blast
  with "3.IH"(2) [OF s1 refl refl s2] show ?case by auto
qed simp

lemma finalize_roots_covers:
  "finalize_roots cs roots fb t = Some t' \<Longrightarrow> set (NodePool t) \<subseteq> set (NodePool t') \<and>
     (\<forall>c \<in> set cs. \<forall>e. roots c = Some e \<longrightarrow> snd ` set (edge_paths e) \<subseteq> node_leaf ` set (NodePool t'))"
proof (induction cs arbitrary: fb t)
  case (Cons c cs)
  show ?case
  proof (cases "roots c")
    case None
    then show ?thesis using Cons by simp
  next
    case (Some be)
    with Cons.prems obtain e t1 where s1: "flatten_edge be fb (if wild_edge be then 1 else 0) t = Some (e, t1)"
      and s2: "finalize_roots cs roots (if wild_edge be then Some (graft_to e) else fb)
        (t1\<lparr>EdgePool := (EdgePool t1)[byte c := e]\<rparr>) = Some t'" by (rule finalize_roots_SomeE)
    from Cons.IH [OF s2] have i: "set (NodePool t1) \<subseteq> set (NodePool t')"
      "\<forall>c \<in> set cs. \<forall>e. roots c = Some e \<longrightarrow> snd ` set (edge_paths e) \<subseteq> node_leaf ` set (NodePool t')" by simp_all
    from flatten_covers(1) [OF s1] i(1) have "snd ` set (edge_paths be) \<subseteq> node_leaf ` set (NodePool t')" by blast
    with Some i grows_nodes [OF flatten_grows(1) [OF s1]] show ?thesis by auto
  qed
qed simp

lemma all_bytes_all: "c \<in> set all_bytes"
proof -
  have "c = char_of (byte c)" by (simp add: byte_def)
  then show ?thesis using byte_less [of c] unfolding all_bytes_def by (metis atLeastLessThan_iff image_eqI set_map set_upt zero_le)
qed

lemma winner_in_pool:
  assumes "Build raws = Some (Some t)" and "text_routes raws" and "\<forall>raw \<in> set raws. URL raw \<noteq> []"
    and "winner raws (lookup_path raw) = Some raw"
  shows "\<exists>n \<in> set (NodePool t). Methods n \<noteq> 0 \<and> serves t n raw"
proof -
  from Build_parts [OF assms(1,2)] obtain ls t0 where ls: "list_all2 (leaf_of t) raws ls"
    and wf: "wf_roots (insert_routes (zip (map lookup_path raws) ls))"
    and fin: "finalize (compress_roots (insert_routes (zip (map lookup_path raws) ls))) t0 = Some t"
    and ok: "\<forall>raw \<in> set raws. parseMethods (RawMethods raw) \<noteq> 0" by blast
  let ?roots = "insert_routes (zip (map lookup_path raws) ls)"
  from winner_leaf [OF ls, of "lookup_path raw"] assms(4) obtain l where
    l: "map_of (rev (zip (map lookup_path raws) ls)) (lookup_path raw) = Some l" "leaf_of t raw l"
    by (cases "map_of (rev (zip (map lookup_path raws) ls)) (lookup_path raw)") auto
  then have "holds_route (compress_roots ?roots) (lookup_path raw) l"
    using compress_holds [OF wf] built_routes [OF ls ok assms(3)] by simp
  then obtain c e where "compress_roots ?roots c = Some e" "(lookup_path raw, l) \<in> set (edge_paths e)"
    by (auto simp: holds_route_def split: list.splits option.splits)
  then have "l \<in> node_leaf ` set (NodePool t)"
    using finalize_roots_covers [OF fin [unfolded finalize_def]] all_bytes_all [of c] by force
  then obtain n where n: "n \<in> set (NodePool t)" "l = node_leaf n" by blast
  with l(2) leaf_serves have "serves t n raw" by blast
  moreover have "raw \<in> set raws" using winner_Some [OF assms(4)] by simp
  ultimately show ?thesis using n(1) ok by (intro bexI [of _ n]) (auto simp: serves_def)
qed

lemma pool_serves:
  assumes "Build raws = Some (Some t)" and "text_routes raws" and "\<forall>raw \<in> set raws. URL raw \<noteq> []"
    and "n \<in> set (NodePool t)" and "Methods n \<noteq> 0"
  shows "\<exists>raw. winner raws (lookup_path raw) = Some raw \<and> serves t n raw"
proof -
  from Build_parts [OF assms(1,2)] obtain ls t0 where ls: "list_all2 (leaf_of t) raws ls"
    and wf: "wf_roots (insert_routes (zip (map lookup_path raws) ls))"
    and fin: "finalize (compress_roots (insert_routes (zip (map lookup_path raws) ls))) t0 = Some t"
    and ok: "\<forall>raw \<in> set raws. parseMethods (RawMethods raw) \<noteq> 0" by blast
  let ?roots = "insert_routes (zip (map lookup_path raws) ls)"
  from finalize_roots_leaves [OF fin [unfolded finalize_def]] assms(4,5)
  have "node_leaf n \<in> root_leaves (compress_roots ?roots)" by (auto simp: adds_leaves_def zero_node_def)
  then obtain c e p where e: "compress_roots ?roots c = Some e" "(p, node_leaf n) \<in> set (edge_paths e)" by (auto simp: root_leaves_def)
  from compress_roots_wf [OF wf] e(1) have "wf_edge e" "hd (Fragment e) = c" "Fragment e \<noteq> []"
    by (auto simp: wf_roots_def)
  with e have "holds_route (compress_roots ?roots) p (node_leaf n)"
    by (cases "Fragment e") (auto simp: holds_route_def edge_paths_eq)
  then have "map_of (rev (zip (map lookup_path raws) ls)) p = Some (node_leaf n)"
    using compress_holds [OF wf] built_routes [OF ls ok assms(3)] by simp
  with winner_leaf [OF ls, of p] obtain raw where "winner raws p = Some raw" "leaf_of t raw (node_leaf n)"
    by (cases "winner raws p") auto
  then show ?thesis using leaf_serves winner_Some by blast
qed

end
