(* ===== verification/Http.thy ===== *)
theory Http
  imports Host Interpolate Temp_Response Go_Text "HOL-Library.List_Lexorder" "HOL-Library.Monad_Syntax"
begin

text \<open>
  Requests as the middlewares and the proxy see them: the parts of \<open>net/http\<close>, \<open>net/url\<close> and \<open>net\<close> the
  sources use (escaping, query values, header names, \<open>SplitHostPort\<close>), \<open>internal/clientip\<close>, and the
  request context of \<open>internal/interpolate\<close>. Parsing of IP addresses and networks is a parameter.
\<close>

subsection \<open>Escaping\<close>

datatype escape_mode = EncodePath | EncodePathSegment | EncodeQueryComponent

definition is_alnum :: "char \<Rightarrow> bool" where
  "is_alnum c \<longleftrightarrow> is_digit c \<or> 65 \<le> byte c \<and> byte c \<le> 90 \<or> 97 \<le> byte c \<and> byte c \<le> 122"

definition shouldEscape :: "escape_mode \<Rightarrow> char \<Rightarrow> bool" where
  "shouldEscape mode c =
     (if is_alnum c \<or> c \<in> set ''-_.~'' then False
      else if c \<in> set ''$&+,/:;=?@'' then
        (case mode of EncodePath \<Rightarrow> c = CHR ''?'' | EncodePathSegment \<Rightarrow> c \<in> set ''/;,?'' | EncodeQueryComponent \<Rightarrow> True)
      else True)"

definition hex_digit :: "nat \<Rightarrow> char" where
  "hex_digit n = ''0123456789ABCDEF'' ! n"

definition escape_byte :: "escape_mode \<Rightarrow> char \<Rightarrow> string" where
  "escape_byte mode c =
     (if \<not> shouldEscape mode c then [c]
      else if c = CHR '' '' \<and> mode = EncodeQueryComponent then ''+''
      else [CHR ''%'', hex_digit (byte c div 16), hex_digit (byte c mod 16)])"

definition url_escape :: "escape_mode \<Rightarrow> string \<Rightarrow> string" where
  "url_escape mode s = concat (map (escape_byte mode) s)"

definition unhex :: "char \<Rightarrow> nat option" where
  "unhex c =
     (if is_digit c then Some (byte c - 48)
      else if 97 \<le> byte c \<and> byte c \<le> 102 then Some (byte c - 87)
      else if 65 \<le> byte c \<and> byte c \<le> 70 then Some (byte c - 55)
      else None)"

fun url_unescape :: "escape_mode \<Rightarrow> string \<Rightarrow> string option" where
  "url_unescape mode [] = Some []"
| "url_unescape mode (c # s) =
     (if c = CHR ''%'' then
        (case s of
           a # b # t \<Rightarrow> do {
             h \<leftarrow> unhex a; l \<leftarrow> unhex b; rest \<leftarrow> url_unescape mode t;
             Some (char_of (16 * h + l) # rest)
           }
         | _ \<Rightarrow> None)
      else map_option ((#) (if c = CHR ''+'' \<and> mode = EncodeQueryComponent then CHR '' '' else c)) (url_unescape mode s))"

subsection \<open>URLs\<close>

record url =
  Scheme :: string
  Opaque :: string
  Path :: string
  RawPath :: string
  ForceQuery :: bool
  RawQuery :: string

definition validEncoded :: "string \<Rightarrow> bool" where
  "validEncoded s \<longleftrightarrow> list_all (\<lambda>c. c \<in> set ''!$&()*+,;=:@[]%'' \<or> c = CHR 0x27 \<or> \<not> shouldEscape EncodePath c) s"

definition EscapedPath :: "url \<Rightarrow> string" where
  "EscapedPath u =
     (if RawPath u \<noteq> [] \<and> validEncoded (RawPath u) \<and> url_unescape EncodePath (RawPath u) = Some (Path u) then RawPath u
      else if Path u = ''*'' then ''*''
      else url_escape EncodePath (Path u))"

definition RequestURI :: "url \<Rightarrow> string" where
  "RequestURI u =
     (let result = (if Opaque u = [] then (if EscapedPath u = [] then ''/'' else EscapedPath u)
                    else if has_prefix (Opaque u) ''//'' then Scheme u @ '':'' @ Opaque u else Opaque u)
      in if ForceQuery u \<or> RawQuery u \<noteq> [] then result @ ''?'' @ RawQuery u else result)"

subsection \<open>Query values\<close>

text \<open>\<open>url.Values\<close> as an association list with distinct keys.\<close>

type_synonym query_values = "(string \<times> string list) list"

fun add_value :: "string \<Rightarrow> string \<Rightarrow> query_values \<Rightarrow> query_values" where
  "add_value k v [] = [(k, [v])]"
| "add_value k v ((k', vs) # q) = (if k' = k then (k', vs @ [v]) # q else (k', vs) # add_value k v q)"

fun set_value :: "string \<Rightarrow> string \<Rightarrow> query_values \<Rightarrow> query_values" where
  "set_value k v [] = [(k, [v])]"
| "set_value k v ((k', vs) # q) = (if k' = k then (k', [v]) # q else (k', vs) # set_value k v q)"

definition values_of :: "query_values \<Rightarrow> string \<Rightarrow> string list" where
  "values_of q k = (case map_of q k of None \<Rightarrow> [] | Some vs \<Rightarrow> vs)"

definition value_get :: "query_values \<Rightarrow> string \<Rightarrow> string" where
  "value_get q k = (case values_of q k of [] \<Rightarrow> [] | v # _ \<Rightarrow> v)"

text \<open>One setting of a query; malformed ones are dropped, as \<open>URL.Query\<close> drops the error.\<close>

definition parse_setting :: "string \<Rightarrow> (string \<times> string) option" where
  "parse_setting s =
     (if contains_sub s '';'' \<or> s = [] then None
      else let (k, v, _) = cut_at s (CHR ''='')
           in do { k \<leftarrow> url_unescape EncodeQueryComponent k; v \<leftarrow> url_unescape EncodeQueryComponent v; Some (k, v) })"

definition parse_query :: "string \<Rightarrow> query_values" where
  "parse_query s =
     fold (\<lambda>part q. case parse_setting part of None \<Rightarrow> q | Some (k, v) \<Rightarrow> add_value k v q)
       (split_on (CHR ''&'') s) []"

text \<open>\<open>Values.Encode\<close>: the keys in byte order.\<close>

definition sorted_values :: "query_values \<Rightarrow> query_values" where
  "sorted_values q = sort_key (\<lambda>(k, _). map byte k) q"

definition encode_setting :: "string \<Rightarrow> string \<Rightarrow> string" where
  "encode_setting k v = url_escape EncodeQueryComponent k @ ''='' @ url_escape EncodeQueryComponent v"

definition settings :: "query_values \<Rightarrow> string list" where
  "settings q = concat (map (\<lambda>(k, vs). map (encode_setting k) vs) (sorted_values q))"

definition encode_query :: "query_values \<Rightarrow> string" where
  "encode_query q = join_with (CHR ''&'') (settings q)"

subsection \<open>Header names and addresses\<close>

definition token_char :: "char \<Rightarrow> bool" where
  "token_char c \<longleftrightarrow> is_alnum c \<or> c \<in> set ''!#$%&*+-.^_`|~'' \<or> c = CHR 0x27"

fun canonical_bytes :: "bool \<Rightarrow> string \<Rightarrow> string" where
  "canonical_bytes up [] = []"
| "canonical_bytes up (c # s) = (if up then upper_char c else lower_char c) # canonical_bytes (c = CHR ''-'') s"

definition canonical_key :: "string \<Rightarrow> string" where
  "canonical_key k = (if list_all token_char k then canonical_bytes True k else k)"

definition header_set :: "string \<Rightarrow> string \<Rightarrow> headers \<Rightarrow> headers" where
  "header_set k v h = h(canonical_key k := [v])"

definition header_del :: "string \<Rightarrow> headers \<Rightarrow> headers" where
  "header_del k h = h(canonical_key k := [])"

definition header_values :: "string \<Rightarrow> headers \<Rightarrow> string list" where
  "header_values k h = h (canonical_key k)"

definition header_get :: "string \<Rightarrow> headers \<Rightarrow> string" where
  "header_get k h = (case header_values k h of [] \<Rightarrow> [] | v # _ \<Rightarrow> v)"

definition header_add :: "string \<Rightarrow> string \<Rightarrow> headers \<Rightarrow> headers" where
  "header_add k v h = h(canonical_key k := h (canonical_key k) @ [v])"

text \<open>\<open>net.SplitHostPort\<close>; \<^const>\<open>None\<close> is its error.\<close>

definition SplitHostPort :: "string \<Rightarrow> (string \<times> string) option" where
  "SplitHostPort hostport =
     (case last_index hostport (CHR '':'') of
        None \<Rightarrow> None
      | Some i \<Rightarrow>
          let port = drop (i + 1) hostport
          in if has_prefix hostport ''['' then
               (case index_sub hostport '']'' of
                  None \<Rightarrow> None
                | Some end \<Rightarrow>
                    if end + 1 \<noteq> i then None
                    else if CHR ''['' \<in> set (drop 1 hostport) \<or> CHR '']'' \<in> set (drop (end + 1) hostport) then None
                    else Some (drop 1 (take end hostport), port))
             else if CHR '':'' \<in> set (take i hostport) then None
             else if CHR ''['' \<in> set hostport \<or> CHR '']'' \<in> set hostport then None
             else Some (take i hostport, port))"

subsection \<open>Requests\<close>

text \<open>\<open>r_limit\<close> is the limit of the \<open>MaxBytesReader\<close> around the body, when there is one.\<close>

record request =
  r_method :: string
  r_url :: url
  r_host :: string
  r_header :: headers
  r_requestURI :: string
  r_remoteAddr :: string
  r_contentLength :: int
  r_limit :: "int option"

text \<open>\<open>clientip.FromRequest\<close>: the last forwarded address. \<open>addr\<close> is \<open>netip.ParseAddr\<close>, which gives the text of
  the parsed address.\<close>

definition FromRequest :: "(string \<Rightarrow> string option) \<Rightarrow> request \<Rightarrow> string" where
  "FromRequest addr r =
     (let vals = header_values ''X-Forwarded-For'' (r_header r)
      in if vals = [] then []
         else let value = last vals;
                  value = (case last_index value (CHR '','') of Some i \<Rightarrow> drop (i + 1) value | None \<Rightarrow> value);
                  value = trim_space value
              in case addr value of
                   Some a \<Rightarrow> a
                 | None \<Rightarrow>
                     (case SplitHostPort value of
                        None \<Rightarrow> []
                      | Some (host, _) \<Rightarrow> (case addr host of Some a \<Rightarrow> a | None \<Rightarrow> [])))"

text \<open>\<open>interpolate.New\<close>: the query and the client address are read once, the rest when a name is replaced.\<close>

record interpolator =
  queryParams :: query_values
  encodedQuery :: string
  remoteIP :: string

definition New_interpolator :: "(string \<Rightarrow> string option) \<Rightarrow> request \<Rightarrow> interpolator" where
  "New_interpolator addr r =
     (let q = parse_query (RawQuery (r_url r))
      in \<lparr>queryParams = q, encodedQuery = encode_query q, remoteIP = FromRequest addr r\<rparr>)"

text \<open>The URL of a request a server reads has no host, so \<open>URL.Port()\<close> is empty.\<close>

definition context_of :: "interpolator \<Rightarrow> request \<Rightarrow> request_context" where
  "context_of ip r =
     \<lparr>rc_host = r_host r, rc_path = Path (r_url r), rc_query = value_get (queryParams ip),
      rc_encodedQuery = encodedQuery ip, rc_method = r_method r, rc_rawURI = r_requestURI r,
      rc_scheme = Scheme (r_url r), rc_port = [], rc_header = (\<lambda>k. header_get k (r_header r)), rc_remoteIP = remoteIP ip\<rparr>"

subsection \<open>Escaping is undone\<close>

lemma hex_digits: "\<forall>n \<in> set [0..<16]. unhex (hex_digit n) = Some n"
  by (simp add: upt_rec numeral_eq_Suc) (simp add: hex_digit_def unhex_def is_digit_def byte_def numeral_eq_Suc [symmetric] nth_Cons')

lemma unhex_hex_digit [simp]: "n < 16 \<Longrightarrow> unhex (hex_digit n) = Some n"
  using hex_digits by (metis atLeastLessThan_upt atLeastLessThan_iff zero_le)

lemma escape_bytes [simp]:
  "shouldEscape mode CHR ''%''" "shouldEscape EncodeQueryComponent CHR ''+''"
  by (simp_all add: shouldEscape_def is_alnum_def is_digit_def byte_def split: escape_mode.splits)

lemma unescape_escape_byte: "url_unescape mode (escape_byte mode c @ t) = map_option ((#) c) (url_unescape mode t)"
proof (cases "shouldEscape mode c")
  case False
  then have "c \<noteq> CHR ''%''" "mode = EncodeQueryComponent \<Longrightarrow> c \<noteq> CHR ''+''" using escape_bytes by metis+
  with False show ?thesis by (auto simp: escape_byte_def)
next
  case True
  have b: "16 * (byte c div 16) + byte c mod 16 = byte c" by simp
  have "byte c div 16 < 16" using byte_less [of c] by linarith
  then have "url_unescape mode (CHR ''%'' # hex_digit (byte c div 16) # hex_digit (byte c mod 16) # t) =
      map_option ((#) c) (url_unescape mode t)"
    using b by (cases "url_unescape mode t") (simp_all add: byte_def)
  with True show ?thesis by (auto simp: escape_byte_def)
qed

lemma url_unescape_escape [simp]: "url_unescape mode (url_escape mode s @ t) = map_option ((@) s) (url_unescape mode t)"
proof (induction s)
  case (Cons c s)
  have "url_unescape mode (url_escape mode (c # s) @ t) = url_unescape mode (escape_byte mode c @ url_escape mode s @ t)"
    by (simp add: url_escape_def)
  then show ?case unfolding unescape_escape_byte Cons.IH by (cases "url_unescape mode t") simp_all
qed (simp add: url_escape_def option.map_ident)

lemma unescape_escape_all [simp]: "url_unescape mode (url_escape mode s) = Some s"
  using url_unescape_escape [of mode s "[]"] by simp

lemma hex_digit_alnum: "n < 16 \<Longrightarrow> is_alnum (hex_digit n)"
proof -
  have "\<forall>n \<in> set [0..<16]. is_alnum (hex_digit n)" by code_simp
  then show "n < 16 \<Longrightarrow> is_alnum (hex_digit n)" by (metis atLeastLessThan_upt atLeastLessThan_iff zero_le)
qed

definition plain_query :: "char \<Rightarrow> bool" where
  "plain_query c \<longleftrightarrow> is_alnum c \<or> c \<in> set ''-_.~+%''"

lemma escape_plain: "c \<in> set (url_escape EncodeQueryComponent s) \<Longrightarrow> plain_query c"
proof -
  have "plain_query c" if "c \<in> set (escape_byte EncodeQueryComponent d)" for d
  proof -
    have "byte d div 16 < 16" using byte_less [of d] by linarith
    with that hex_digit_alnum [of "byte d div 16"] hex_digit_alnum [of "byte d mod 16"] show ?thesis
      by (auto simp: escape_byte_def plain_query_def shouldEscape_def split: if_splits)
  qed
  then show "c \<in> set (url_escape EncodeQueryComponent s) \<Longrightarrow> plain_query c" by (auto simp: url_escape_def)
qed

lemma separators [simp]: "\<not> plain_query CHR ''&''" "\<not> plain_query CHR ''=''" "\<not> plain_query CHR '';''"
  by (simp_all add: plain_query_def is_alnum_def is_digit_def byte_def)

lemma cut_at_first: "c \<notin> set a \<Longrightarrow> cut_at (a @ c # b) c = (a, b, True)"
proof -
  assume "c \<notin> set a"
  then have "takeWhile (\<lambda>x. x \<noteq> c) (a @ c # b) = a" by (simp add: takeWhile_append1 takeWhile_tail) (metis takeWhile_eq_all_conv)
  then show ?thesis by (simp add: cut_at_def Let_def)
qed

lemma parse_encode_setting: "parse_setting (encode_setting k v) = Some (k, v)"
proof -
  have "CHR ''='' \<notin> set (url_escape EncodeQueryComponent k)" using escape_plain separators by blast
  then have "cut_at (encode_setting k v) CHR ''='' = (url_escape EncodeQueryComponent k, url_escape EncodeQueryComponent v, True)"
    by (simp add: encode_setting_def cut_at_first)
  moreover have "\<not> contains_sub (encode_setting k v) '';''"
  proof
    assume "contains_sub (encode_setting k v) '';''"
    then have "CHR '';'' \<in> set (encode_setting k v)" by (auto simp: contains_sub_iff)
    then show False using escape_plain [of "CHR '';''"] by (auto simp: encode_setting_def)
  qed
  moreover have "encode_setting k v \<noteq> []" by (simp add: encode_setting_def)
  ultimately show ?thesis by (simp add: parse_setting_def)
qed

subsection \<open>Query values survive encoding\<close>

definition query_ok :: "query_values \<Rightarrow> bool" where
  "query_ok q \<longleftrightarrow> distinct (map fst q) \<and> (\<forall>(k, vs) \<in> set q. vs \<noteq> [])"

lemma fst_add_value: "set (map fst (add_value k v q)) = insert k (set (map fst q))"
  by (induction k v q rule: add_value.induct) auto

lemma add_value_ok: "query_ok q \<Longrightarrow> query_ok (add_value k v q)"
proof (induction k v q rule: add_value.induct)
  case (2 k v k' vs q)
  then show ?case using fst_add_value [of k v q] by (auto simp: query_ok_def)
qed (simp add: query_ok_def)

lemma parse_query_ok: "query_ok (parse_query s)"
proof -
  have "query_ok q \<Longrightarrow> query_ok (fold (\<lambda>part q. case parse_setting part of None \<Rightarrow> q | Some (k, v) \<Rightarrow> add_value k v q) parts q)" for parts q
    by (induction parts arbitrary: q) (auto simp: add_value_ok split: option.splits)
  moreover have "query_ok []" by (simp add: query_ok_def)
  ultimately show ?thesis unfolding parse_query_def by blast
qed

lemma fst_set_value: "set (map fst (set_value k v q)) = insert k (set (map fst q))"
  by (induction k v q rule: set_value.induct) auto

lemma set_value_ok: "query_ok q \<Longrightarrow> query_ok (set_value k v q)"
proof (induction k v q rule: set_value.induct)
  case (2 k v k' vs q)
  then show ?case using fst_set_value [of k v q] by (auto simp: query_ok_def)
qed (simp add: query_ok_def)

lemma values_set_value: "values_of (set_value k v q) k' = (if k' = k then [v] else values_of q k')"
  by (induction k v q rule: set_value.induct) (auto simp: values_of_def)

lemma sorted_values_ok: "query_ok q \<Longrightarrow> query_ok (sorted_values q)"
  by (simp add: query_ok_def sorted_values_def distinct_map)

lemma values_sorted: "query_ok q \<Longrightarrow> values_of (sorted_values q) = values_of q"
proof
  fix k
  assume "query_ok q"
  then have "map_of (sorted_values q) k = map_of q k"
    using sorted_values_ok [of q] by (intro map_of_eqI [THEN fun_cong]) (auto simp: query_ok_def sorted_values_def)
  then show "values_of (sorted_values q) k = values_of q k" by (simp add: values_of_def)
qed

lemma fold_add_values:
  "k \<notin> set (map fst g) \<Longrightarrow> fold (add_value k) vs (g @ [(k, us)]) = g @ [(k, us @ vs)]"
proof (induction vs arbitrary: us)
  case (Cons v vs)
  have "add_value k v (g @ [(k, us)]) = g @ [(k, us @ [v])]" using Cons.prems by (induction g) auto
  with Cons show ?case by simp
qed simp

lemma parse_settings:
  "query_ok (g @ q) \<Longrightarrow>
   fold (\<lambda>part q. case parse_setting part of None \<Rightarrow> q | Some (k, v) \<Rightarrow> add_value k v q)
     (concat (map (\<lambda>(k, vs). map (encode_setting k) vs) q)) g = g @ q"
proof (induction q arbitrary: g)
  case (Cons kv q)
  obtain k v vs where kv: "kv = (k, v # vs)" using Cons.prems by (cases kv; cases "snd kv") (auto simp: query_ok_def)
  have k: "k \<notin> set (map fst g)" using Cons.prems kv by (auto simp: query_ok_def)
  then have "add_value k v g = g @ [(k, [v])]" by (induction g) auto
  then have "fold (\<lambda>part q. case parse_setting part of None \<Rightarrow> q | Some (k, v) \<Rightarrow> add_value k v q)
      (map (encode_setting k) (v # vs)) g = g @ [kv]"
    using fold_add_values [OF k, of vs "[v]"] kv by (simp add: fold_map comp_def parse_encode_setting)
  with Cons.IH [of "g @ [kv]"] Cons.prems kv show ?case by simp
qed simp

lemma parse_encode_query:
  assumes "query_ok q"
  shows "parse_query (encode_query q) = sorted_values q"
proof (cases "settings q = []")
  case True
  then have "sorted_values q = []"
    using sorted_values_ok [OF assms] by (cases "sorted_values q") (auto simp: settings_def query_ok_def)
  with True show ?thesis by (simp add: encode_query_def parse_query_def parse_setting_def)
next
  case False
  have "CHR ''&'' \<notin> set s" if "s \<in> set (settings q)" for s
    using that escape_plain [of "CHR ''&''"] by (auto simp: settings_def encode_setting_def)
  then have "split_on (CHR ''&'') (encode_query q) = settings q" using False by (simp add: encode_query_def split_join)
  then show ?thesis
    using parse_settings [of "[]" "sorted_values q"] sorted_values_ok [OF assms] by (simp add: parse_query_def settings_def)
qed

text \<open>Encoding a query and parsing it again gives the same values for every key, whatever bytes keys
  and values hold.\<close>

theorem query_roundtrip: "values_of (parse_query (encode_query (parse_query s))) = values_of (parse_query s)"
  by (simp add: parse_encode_query parse_query_ok values_sorted)

end
