(* ===== verification/Virtual_Services.thy ===== *)
theory Virtual_Services
  imports Complex_Main Http Directives
begin

text \<open>
  \<open>internal/core/proxy/tracked_response.go\<close>, the writer every answer goes through, and
  \<open>internal/core/builtins/virtualservices\<close>, the services the core answers itself. A factory checks its
  arguments and gives a handler; \<^const>\<open>None\<close> is its error. A handler gives \<^const>\<open>None\<close> when it panics. What lies
  outside of the sources is the record \<open>outside\<close>.
\<close>

subsection \<open>Outside\<close>

datatype json = JString string | JList "json list" | JObject "(string \<times> json) list"

text \<open>\<open>float64\<close> as far as \<open>ParseFloat\<close> is used: not a number, or an exact value, infinities aside.
  \<open>int64_of\<close> is the conversion of a value that does not fit, which Go leaves to the machine.\<close>

datatype float64 = NaN | Infinite bool | Finite rat

record outside =
  json_text :: "json \<Rightarrow> string"
  prometheus_text :: string
  welcomeHTML :: string
  location :: "request \<Rightarrow> string \<Rightarrow> string"
  DialTimeout :: "string \<Rightarrow> string + nat"
  ParseAddr :: "string \<Rightarrow> string option"
  ParseCIDR :: "string \<Rightarrow> (string \<Rightarrow> bool) option"
  ParseFloat :: "string \<Rightarrow> float64 option"
  int64_of :: "float64 \<Rightarrow> int"

subsection \<open>The tracked writer\<close>

record tracked =
  inner :: http_writer
  t_status :: int
  t_size :: nat
  hijacked :: bool

definition newTrackedResponseWriter :: "http_writer \<Rightarrow> tracked" where
  "newTrackedResponseWriter w = \<lparr>inner = w, t_status = 200, t_size = 0, hijacked = False\<rparr>"

definition t_WriteHeader :: "int \<Rightarrow> tracked \<Rightarrow> tracked option" where
  "t_WriteHeader code r = map_option (\<lambda>w. r\<lparr>t_status := code, inner := w\<rparr>) (hw_write_header code (inner r))"

definition t_Write :: "string \<Rightarrow> tracked \<Rightarrow> tracked" where
  "t_Write b r = r\<lparr>inner := hw_write b (inner r), t_size := t_size r + length b\<rparr>"

definition t_header :: "(headers \<Rightarrow> headers) \<Rightarrow> tracked \<Rightarrow> tracked" where
  "t_header f r = r\<lparr>inner := (inner r)\<lparr>hw_header := f (hw_header (inner r))\<rparr>\<rparr>"

text \<open>A header, the status and a body.\<close>

definition answer :: "(headers \<Rightarrow> headers) \<Rightarrow> int \<Rightarrow> string \<Rightarrow> tracked \<Rightarrow> tracked option" where
  "answer f code body r = map_option (t_Write body) (t_WriteHeader code (t_header f r))"

text \<open>\<open>http.Error\<close>.\<close>

definition http_Error :: "string \<Rightarrow> int \<Rightarrow> tracked \<Rightarrow> tracked option" where
  "http_Error msg code r =
     answer (header_set ''X-Content-Type-Options'' ''nosniff'' \<circ> header_set ''Content-Type'' ''text/plain; charset=utf-8'' \<circ>
       header_del ''Content-Length'') code (msg @ [CHR 0x0A]) r"

subsection \<open>\<open>http.Redirect\<close>\<close>

definition StatusText :: "int \<Rightarrow> string" where
  "StatusText code = (case map_of
     [(100, ''Continue''), (101, ''Switching Protocols''), (102, ''Processing''), (103, ''Early Hints''), (200, ''OK''),
      (201, ''Created''), (202, ''Accepted''), (203, ''Non-Authoritative Information''), (204, ''No Content''),
      (205, ''Reset Content''), (206, ''Partial Content''), (207, ''Multi-Status''), (208, ''Already Reported''),
      (226, ''IM Used''), (300, ''Multiple Choices''), (301, ''Moved Permanently''), (302, ''Found''), (303, ''See Other''),
      (304, ''Not Modified''), (305, ''Use Proxy''), (307, ''Temporary Redirect''), (308, ''Permanent Redirect''),
      (400, ''Bad Request''), (401, ''Unauthorized''), (402, ''Payment Required''), (403, ''Forbidden''), (404, ''Not Found''),
      (405, ''Method Not Allowed''), (406, ''Not Acceptable''), (407, ''Proxy Authentication Required''),
      (408, ''Request Timeout''), (409, ''Conflict''), (410, ''Gone''), (411, ''Length Required''), (412, ''Precondition Failed''),
      (413, ''Request Entity Too Large''), (414, ''Request URI Too Long''), (415, ''Unsupported Media Type''),
      (416, ''Requested Range Not Satisfiable''), (417, ''Expectation Failed''), (418, ''I'' @ [CHR 0x27] @ ''m a teapot''),
      (421, ''Misdirected Request''), (422, ''Unprocessable Entity''), (423, ''Locked''), (424, ''Failed Dependency''),
      (425, ''Too Early''), (426, ''Upgrade Required''), (428, ''Precondition Required''), (429, ''Too Many Requests''),
      (431, ''Request Header Fields Too Large''), (451, ''Unavailable For Legal Reasons''), (500, ''Internal Server Error''),
      (501, ''Not Implemented''), (502, ''Bad Gateway''), (503, ''Service Unavailable''), (504, ''Gateway Timeout''),
      (505, ''HTTP Version Not Supported''), (506, ''Variant Also Negotiates''), (507, ''Insufficient Storage''),
      (508, ''Loop Detected''), (510, ''Not Extended''), (511, ''Network Authentication Required'')] code of
    None \<Rightarrow> [] | Some t \<Rightarrow> t)"

definition htmlEscape :: "string \<Rightarrow> string" where
  "htmlEscape s = concat (map (\<lambda>c. if c = CHR ''&'' then ''&amp;'' else if c = CHR ''<'' then ''&lt;''
     else if c = CHR ''>'' then ''&gt;'' else if c = CHR 0x22 then ''&#34;'' else if c = CHR 0x27 then ''&#39;'' else [c]) s)"

text \<open>\<open>location o r target\<close> is the target made absolute against the path of the request.\<close>

definition http_Redirect :: "outside \<Rightarrow> request \<Rightarrow> string \<Rightarrow> int \<Rightarrow> tracked \<Rightarrow> tracked option" where
  "http_Redirect out r target code w =
     (let url = location out r target; hadCT = hw_header (inner w) ''Content-Type'' \<noteq> [];
          w = t_header (header_set ''Location'' url) w;
          w = (if \<not> hadCT \<and> r_method r \<in> {''GET'', ''HEAD''}
               then t_header (header_set ''Content-Type'' ''text/html; charset=utf-8'') w else w)
      in map_option (\<lambda>w. if \<not> hadCT \<and> r_method r = ''GET''
           then t_Write (''<a href='' @ [CHR 0x22] @ htmlEscape url @ [CHR 0x22] @ ''>'' @ StatusText code @ ''</a>.'' @ [CHR 0x0A, CHR 0x0A]) w
           else w) (t_WriteHeader code w))"

subsection \<open>Factories\<close>

type_synonym http_handler = "request \<Rightarrow> tracked \<Rightarrow> tracked option"
type_synonym factory = "string list \<Rightarrow> http_handler option"

definition OK_service :: factory where
  "OK_service args =
     (if \<not> CheckArgCount args 0 1 then None
      else let msg = (if args \<noteq> [] \<and> args ! 0 \<noteq> [] then args ! 0 else ''OK'')
           in Some (\<lambda>r. answer id 200 msg))"

definition ERR_service :: factory where
  "ERR_service args =
     (if \<not> CheckArgCount args 0 2 then None
      else let (code, msg) =
             (if args \<noteq> [] \<and> args ! 0 \<noteq> [] then
                (case Atoi (args ! 0) of
                   Some c \<Rightarrow> (c, if 1 < length args then args ! 1 else StatusText c)
                 | None \<Rightarrow> (400, args ! 0))
              else (400, ''ERR''))
           in Some (\<lambda>r. answer id code msg))"

definition Welcome :: "outside \<Rightarrow> factory" where
  "Welcome out args =
     (if \<not> CheckArgCount args 0 0 then None
      else Some (\<lambda>r. answer (header_set ''Content-Type'' ''text/html; charset=utf-8'') 200 (welcomeHTML out)))"

text \<open>\<open>WritePrometheus\<close> writes the gathered metrics.\<close>

definition Metrics_service :: "outside \<Rightarrow> factory" where
  "Metrics_service out args =
     (if \<not> CheckArgCount args 0 0 then None
      else Some (\<lambda>r w. Some (t_Write (prometheus_text out) (t_header (header_set ''Content-Type'' ''text/plain; version=0.0.4'') w))))"

definition JSON_service :: factory where
  "JSON_service args =
     (if \<not> CheckArgCount args 0 1 then None
      else let data = (if args \<noteq> [] then args ! 0 else ''{}'')
           in Some (\<lambda>r. answer (header_set ''Content-Type'' ''application/json'') 200 data))"

definition Redirect_service :: "outside \<Rightarrow> factory" where
  "Redirect_service out args =
     (if \<not> CheckArgCount args 2 2 then None
      else case Atoi (args ! 0) of
        None \<Rightarrow> None
      | Some code \<Rightarrow> if code < 100 \<or> 999 < code then None else Some (\<lambda>r. http_Redirect out r (args ! 1) code))"

text \<open>The headers of the request as the encoder sorts them: \<open>names\<close> is the range over \<open>r.Header\<close>.\<close>

definition echo_json :: "string list \<Rightarrow> request \<Rightarrow> json" where
  "echo_json names r = JObject
     [(''headers'', JObject (map (\<lambda>k. (k, JString (concat (case r_header r k of [] \<Rightarrow> [] | v # vs \<Rightarrow> v # map ((@) '', '') vs)))) names)),
      (''host'', JString (r_host r)), (''method'', JString (r_method r)), (''path'', JString (Path (r_url r))),
      (''remote_addr'', JString (r_remoteAddr r))]"

definition Echo :: "outside \<Rightarrow> (request \<Rightarrow> string list) \<Rightarrow> factory" where
  "Echo out names args =
     (if \<not> CheckArgCount args 0 0 then None
      else Some (\<lambda>r. answer (header_set ''Content-Type'' ''application/json'') 200 (json_text out (echo_json (names r) r) @ [CHR 0x0A])))"

definition Discovery :: "outside \<Rightarrow> (string \<times> string list) list \<Rightarrow> http_handler" where
  "Discovery out state = (\<lambda>r w. Some (t_Write
     (json_text out (JObject (map (\<lambda>(k, vs). (k, JList (map JString vs))) state)) @ [CHR 0x0A])
     (t_header (header_set ''Content-Type'' ''application/json'') w)))"

definition quoted :: "string \<Rightarrow> string" where
  "quoted s = [CHR 0x22] @ s @ [CHR 0x22]"

definition Ping :: "outside \<Rightarrow> string \<Rightarrow> string list \<Rightarrow> http_handler" where
  "Ping out targetService nodes = (\<lambda>r w.
     let w = t_header (header_set ''Content-Type'' ''application/json'') w;
         start = ''{'' @ quoted ''service'' @ '': '' @ quoted targetService @ '', '' @ quoted ''status'' @ '': ''
     in if nodes = [] then
          map_option (t_Write (start @ quoted ''unreachable'' @ '', '' @ quoted ''reason'' @ '': '' @
            quoted ''no nodes discovered'' @ ''}'' @ [CHR 0x0A])) (t_WriteHeader 503 w)
        else case DialTimeout out (nodes ! 0) of
          Inl err \<Rightarrow>
            map_option (t_Write (start @ quoted ''down'' @ '', '' @ quoted ''node'' @ '': '' @ quoted (nodes ! 0) @ '', '' @
              quoted ''error'' @ '': '' @ quoted err @ ''}'' @ [CHR 0x0A])) (t_WriteHeader 504 w)
        | Inr ms \<Rightarrow>
            Some (t_Write (start @ quoted ''up'' @ '', '' @ quoted ''node'' @ '': '' @ quoted (nodes ! 0) @ '', '' @
              quoted ''latency_ms'' @ '': '' @ Utoa ms @ ''}'' @ [CHR 0x0A]) w))"

subsection \<open>The registry of virtual services\<close>

text \<open>\<open>Registry[name]\<close>: unknown, or known with a factory that is nil for the two the proxy resolves itself.\<close>

definition virtual_names :: "string list" where
  "virtual_names = [''$echo'', ''$ok'', ''$err'', ''$health'', ''$welcome'', ''$metrics'', ''$redirect'', ''$services'', ''$json'', ''$ping'']"

definition virtual_factory :: "outside \<Rightarrow> (request \<Rightarrow> string list) \<Rightarrow> string \<Rightarrow> factory option" where
  "virtual_factory out names name =
     (if name = ''$echo'' then Some (Echo out names)
      else if name = ''$ok'' \<or> name = ''$health'' then Some OK_service
      else if name = ''$err'' then Some ERR_service
      else if name = ''$welcome'' then Some (Welcome out)
      else if name = ''$metrics'' then Some (Metrics_service out)
      else if name = ''$redirect'' then Some (Redirect_service out)
      else if name = ''$json'' then Some JSON_service
      else None)"

text \<open>\<open>IsValid\<close> of both registries of builtins: whether the expression is one, and the name at fault.\<close>

definition valid_expr :: "string list \<Rightarrow> string \<Rightarrow> bool \<times> string" where
  "valid_expr known expr =
     (if \<not> has_prefix expr ''$'' then (False, [])
      else let start = index_sub expr ''(''; funcName = (case start of None \<Rightarrow> expr | Some i \<Rightarrow> take i expr)
           in if funcName \<notin> set known then (False, funcName)
              else case start of
                None \<Rightarrow> (True, [])
              | Some i \<Rightarrow>
                  (case last_index expr (CHR '')'') of
                     None \<Rightarrow> (False, [])
                   | Some e \<Rightarrow> if e < i then (False, []) else (True, [])))"

definition virtual_IsValid :: "string \<Rightarrow> bool \<times> string" where
  "virtual_IsValid expr = valid_expr virtual_names expr"

subsection \<open>Statuses\<close>

lemma hw_write_header_valid: "100 \<le> code \<Longrightarrow> code \<le> 999 \<Longrightarrow> hw_write_header code w \<noteq> None"
  by (simp add: hw_write_header_def valid_status_def)

lemma answer_valid: "100 \<le> code \<Longrightarrow> code \<le> 999 \<Longrightarrow> answer f code body w \<noteq> None"
  using hw_write_header_valid by (simp add: answer_def t_WriteHeader_def)

lemma redirect_valid: "100 \<le> code \<Longrightarrow> code \<le> 999 \<Longrightarrow> http_Redirect out r target code w \<noteq> None"
  using hw_write_header_valid by (simp add: http_Redirect_def t_WriteHeader_def Let_def)

text \<open>Of all virtual services only \<open>$err\<close> can panic: whatever the arguments a factory accepts, its
  handler answers every request, unless the service is \<open>$err\<close> with a status that is not three digits.\<close>

theorem virtual_services_answer:
  assumes "virtual_factory out names name = Some f" and "f args = Some h"
    and "name = ''$err'' \<Longrightarrow> args \<noteq> [] \<Longrightarrow> (case Atoi (args ! 0) of None \<Rightarrow> True | Some c \<Rightarrow> 100 \<le> c \<and> c \<le> 999)"
  shows "h r w \<noteq> None"
proof -
  consider "f = Echo out names" | "f = OK_service" | "f = ERR_service" "name = ''$err''" | "f = Welcome out"
    | "f = Metrics_service out" | "f = Redirect_service out" | "f = JSON_service"
    using assms(1) by (auto simp: virtual_factory_def split: if_splits)
  then show ?thesis
  proof cases
    case 3
    then show ?thesis
      using assms(2,3) answer_valid
      by (auto simp: ERR_service_def Let_def split: if_splits option.splits)
  qed (use assms(2) answer_valid redirect_valid in \<open>auto simp: Echo_def OK_service_def Welcome_def Metrics_service_def
      Redirect_service_def JSON_service_def Let_def not_less split: if_splits option.splits\<close>)
qed

definition no_outside :: outside where
  "no_outside = \<lparr>json_text = (\<lambda>_. []), prometheus_text = [], welcomeHTML = [], location = (\<lambda>_ t. t), DialTimeout = (\<lambda>_. Inl []),
     ParseAddr = (\<lambda>_. None), ParseCIDR = (\<lambda>_. None), ParseFloat = (\<lambda>_. None), int64_of = (\<lambda>_. 0)\<rparr>"

theorem virtual_services_answer_witness:
  "\<exists>h. ERR_service [''503'', ''later''] = Some h \<and> (\<forall>r w. h r w \<noteq> None)"
proof -
  have a: "Atoi ''503'' = Some 503"
    by (simp add: Atoi_def ParseInt_def ParseUint_def digits_value_def is_digit_def byte_def has_prefix_def Let_def)
  then obtain h where h: "ERR_service [''503'', ''later''] = Some h" by (simp add: ERR_service_def CheckArgCount_def)
  from a have "h r w \<noteq> None" for r w
    by (intro virtual_services_answer [of no_outside "\<lambda>_. []" "''$err''" ERR_service "[''503'', ''later'']"])
      (use h in \<open>simp_all add: virtual_factory_def\<close>)
  with h show ?thesis by blast
qed

text \<open>\<open>$err(42)\<close> passes every check of its factory and panics on every request that has no status yet,
  while \<open>$redirect\<close> rejects the same status.\<close>

theorem err_status_panics:
  "\<exists>h. ERR_service [''42''] = Some h \<and> (\<forall>r w. h r (w\<lparr>inner := (inner w)\<lparr>hw_status := None\<rparr>\<rparr>) = None) \<and>
     Redirect_service out [''42'', ''/x''] = None"
proof -
  have a: "Atoi ''42'' = Some 42"
    by (simp add: Atoi_def ParseInt_def ParseUint_def digits_value_def is_digit_def byte_def has_prefix_def Let_def)
  have t: "StatusText 42 = []" by (simp add: StatusText_def)
  from a have r: "Redirect_service out [''42'', ''/x''] = None" by (simp add: Redirect_service_def CheckArgCount_def)
  from a t have e: "ERR_service [''42''] = Some (\<lambda>r. answer id 42 [])" by (simp add: ERR_service_def CheckArgCount_def)
  have "answer id 42 [] (w\<lparr>inner := (inner w)\<lparr>hw_status := None\<rparr>\<rparr>) = None" for w
    by (simp add: answer_def t_WriteHeader_def t_header_def hw_write_header_def valid_status_def)
  with e r show ?thesis by simp
qed

end
