(* ===== verification/Builtin_Middlewares.thy ===== *)
theory Builtin_Middlewares
  imports Complex_Main Base64 Virtual_Services
begin

text \<open>
  \<open>internal/core/builtins/builtinsmware\<close>, the middlewares the core runs itself. A factory checks its arguments
  and gives a handler; \<^const>\<open>None\<close> is its error. A handler changes the response writer, the request, the mmfg
  request when there is one, and the options of the route; \<^const>\<open>None\<close> is a panic. The operations of the mmfg
  request are third-party code: an argument, each giving whether it succeeded and the request after it.
\<close>

subsection \<open>State\<close>

record 'm mmfg_request =
  m_URL :: "'m \<Rightarrow> url option"
  m_SetURL :: "string \<Rightarrow> 'm \<Rightarrow> bool \<times> 'm"
  m_Header :: "string \<Rightarrow> 'm \<Rightarrow> string option"
  m_UpdateHeader :: "string \<Rightarrow> string list \<Rightarrow> 'm \<Rightarrow> bool \<times> 'm"
  m_DeleteHeader :: "string \<Rightarrow> 'm \<Rightarrow> bool \<times> 'm"
  m_CloneHeaders :: "'m \<Rightarrow> headers option"
  m_Next :: "string \<Rightarrow> 'm \<Rightarrow> bool option \<times> 'm"
  m_Apply :: "'m \<Rightarrow> request \<Rightarrow> bool \<times> request"
  m_AcceptSelfResponse :: "'m \<Rightarrow> tracked \<Rightarrow> bool \<times> tracked"

record 'm exchange =
  x_writer :: response_writer
  x_request :: request
  x_mmfg :: "'m option"
  x_options :: route_options

type_synonym 'm handler = "'m mmfg_request \<Rightarrow> 'm exchange \<Rightarrow> 'm exchange option"

definition x_reply :: "string \<Rightarrow> int \<Rightarrow> 'm exchange \<Rightarrow> 'm exchange option" where
  "x_reply msg code x = map_option (\<lambda>w. x\<lparr>x_writer := w\<rparr>) (Reply msg code (x_writer x))"

definition replyMmfgError :: "'m exchange \<Rightarrow> 'm exchange option" where
  "replyMmfgError x = x_reply ''Internal Server Error'' 500 x"

text \<open>What every handler does with the outcome of an mmfg operation.\<close>

definition or_mmfg_error :: "bool \<times> 'm exchange \<Rightarrow> 'm exchange option" where
  "or_mmfg_error r = (if fst r then Some (snd r) else replyMmfgError (snd r))"

definition on_mmfg :: "('m \<Rightarrow> bool \<times> 'm) \<Rightarrow> 'm \<Rightarrow> 'm exchange \<Rightarrow> bool \<times> 'm exchange" where
  "on_mmfg f m x = (let (ok, m') = f m in (ok, x\<lparr>x_mmfg := Some m'\<rparr>))"

definition on_request :: "(request \<Rightarrow> request) \<Rightarrow> 'm exchange \<Rightarrow> 'm exchange" where
  "on_request f x = x\<lparr>x_request := f (x_request x)\<rparr>"

subsection \<open>Headers\<close>

definition SetHeader :: "string list \<Rightarrow> 'm handler option" where
  "SetHeader args =
     (if \<not> CheckArgCount args 2 2 then None
      else let key = args ! 0; val = args ! 1
           in Some (\<lambda>ops x. case x_mmfg x of
                Some m \<Rightarrow> or_mmfg_error (on_mmfg (m_UpdateHeader ops key [val]) m x)
              | None \<Rightarrow> Some (on_request (\<lambda>r. r\<lparr>r_header := header_set key val (r_header r)\<rparr>) x)))"

definition DelHeader :: "string list \<Rightarrow> 'm handler option" where
  "DelHeader args =
     (if \<not> CheckArgCount args 1 1 then None
      else let key = args ! 0
           in Some (\<lambda>ops x. case x_mmfg x of
                Some m \<Rightarrow> or_mmfg_error (on_mmfg (m_DeleteHeader ops key) m x)
              | None \<Rightarrow> Some (on_request (\<lambda>r. r\<lparr>r_header := header_del key (r_header r)\<rparr>) x)))"

definition SetHost :: "string list \<Rightarrow> 'm handler option" where
  "SetHost args =
     (if \<not> CheckArgCount args 1 1 then None
      else let host = args ! 0 in Some (\<lambda>ops x. Some (on_request (\<lambda>r. r\<lparr>r_host := host\<rparr>) x)))"

subsection \<open>Path and query\<close>

definition getURL :: "'m mmfg_request \<Rightarrow> 'm exchange \<Rightarrow> url option" where
  "getURL ops x = (case x_mmfg x of Some m \<Rightarrow> m_URL ops m | None \<Rightarrow> Some (r_url (x_request x)))"

text \<open>Without an mmfg request the handler holds the URL of the request itself, so a change of it is a change
  of the request; with one it holds a URL of its own.\<close>

definition change_url :: "url \<Rightarrow> 'm exchange \<Rightarrow> 'm exchange" where
  "change_url u x = (if x_mmfg x = None then on_request (\<lambda>r. r\<lparr>r_url := u\<rparr>) x else x)"

definition applyURL :: "'m mmfg_request \<Rightarrow> url \<Rightarrow> 'm exchange \<Rightarrow> bool \<times> 'm exchange" where
  "applyURL ops u x =
     (let raw = RequestURI u
      in case x_mmfg x of
           Some m \<Rightarrow> on_mmfg (m_SetURL ops raw) m x
         | None \<Rightarrow> (True, on_request (\<lambda>r. r\<lparr>r_requestURI := raw\<rparr>) x))"

definition write_url :: "'m mmfg_request \<Rightarrow> url \<Rightarrow> 'm exchange \<Rightarrow> 'm exchange option" where
  "write_url ops u x = or_mmfg_error (applyURL ops u (change_url u x))"

definition PathTrimPrefix :: "string list \<Rightarrow> 'm handler option" where
  "PathTrimPrefix args =
     (if \<not> CheckArgCount args 1 1 then None
      else let pre = args ! 0
           in Some (\<lambda>ops x. case getURL ops x of
                None \<Rightarrow> replyMmfgError x
              | Some u \<Rightarrow>
                  (case cut_prefix (Path u) pre of
                     None \<Rightarrow> Some x
                   | Some after \<Rightarrow>
                       let u = u\<lparr>Path := after\<rparr>;
                           u = (if RawPath u \<noteq> [] then u\<lparr>RawPath := trim_prefix (RawPath u) (url_escape EncodePathSegment pre)\<rparr> else u)
                       in write_url ops u x)))"

text \<open>\<open>strings.ReplaceAll\<close> with an empty pattern puts the new text before every character and at the end;
  a byte from 128 to 191 continues a character.\<close>

definition ReplaceAll :: "string \<Rightarrow> string \<Rightarrow> string \<Rightarrow> string" where
  "ReplaceAll s old new =
     (if old \<noteq> [] then replace_all s old new
      else concat (map (\<lambda>c. if 128 \<le> byte c \<and> byte c < 192 then [c] else new @ [c]) s) @ new)"

definition RewritePath :: "string list \<Rightarrow> 'm handler option" where
  "RewritePath args =
     (if \<not> CheckArgCount args 2 2 then None
      else let old = args ! 0; new = args ! 1
           in Some (\<lambda>ops x. case getURL ops x of
                None \<Rightarrow> replyMmfgError x
              | Some u \<Rightarrow>
                  let u = u\<lparr>Path := ReplaceAll (Path u) old new\<rparr>;
                      u = (if RawPath u \<noteq> [] then u\<lparr>RawPath := ReplaceAll (RawPath u) old new\<rparr> else u)
                  in write_url ops u x))"

definition SetQuery :: "string list \<Rightarrow> 'm handler option" where
  "SetQuery args =
     (if \<not> CheckArgCount args 2 2 then None
      else let key = args ! 0; val = args ! 1
           in Some (\<lambda>ops x. case getURL ops x of
                None \<Rightarrow> replyMmfgError x
              | Some u \<Rightarrow>
                  write_url ops (u\<lparr>RawQuery := encode_query (set_value key val (parse_query (RawQuery u)))\<rparr>) x))"

subsection \<open>Access\<close>

definition parseBasicAuth :: "string \<Rightarrow> (string \<times> string) option" where
  "parseBasicAuth auth =
     (if length auth < 6 \<or> to_lower (take 6 auth) \<noteq> ''basic '' then None
      else case DecodeString (drop 6 auth) of
        None \<Rightarrow> None
      | Some decoded \<Rightarrow>
          let (username, password, ok) = cut_at decoded (CHR '':'')
          in if ok then Some (username, password) else None)"

text \<open>The header a middleware reads, from the mmfg request when there is one.\<close>

definition read_header :: "'m mmfg_request \<Rightarrow> string \<Rightarrow> 'm exchange \<Rightarrow> string option" where
  "read_header ops key x =
     (case x_mmfg x of Some m \<Rightarrow> m_Header ops key m | None \<Rightarrow> Some (header_get key (r_header (x_request x))))"

definition unauthorized :: "'m exchange \<Rightarrow> 'm exchange option" where
  "unauthorized x = map_option (\<lambda>w. x\<lparr>x_writer := w\<rparr>) (WriteHeader 401
     (update_header (header_set ''WWW-Authenticate'' (''Basic realm='' @ quoted ''Nautrouds Protected'')) (x_writer x)))"

definition BasicAuth :: "string list \<Rightarrow> 'm handler option" where
  "BasicAuth args =
     (if \<not> CheckArgCount args 2 2 then None
      else let user = args ! 0; pass = args ! 1
           in Some (\<lambda>ops x. case read_header ops ''Authorization'' x of
                None \<Rightarrow> replyMmfgError x
              | Some auth \<Rightarrow>
                  (case parseBasicAuth auth of
                     None \<Rightarrow> unauthorized x
                   | Some (u, p) \<Rightarrow> if u \<noteq> user \<or> p \<noteq> pass then unauthorized x else Some x)))"

definition RequireHeader :: "string list \<Rightarrow> 'm handler option" where
  "RequireHeader args =
     (if \<not> CheckArgCount args 2 2 then None
      else let key = args ! 0; val = args ! 1
           in Some (\<lambda>ops x. case read_header ops key x of
                None \<Rightarrow> replyMmfgError x
              | Some got \<Rightarrow> if got \<noteq> val then x_reply ''Forbidden'' 403 x else Some x))"

definition IPAllow :: "outside \<Rightarrow> string list \<Rightarrow> 'm handler option" where
  "IPAllow out args =
     (if \<not> CheckArgCount args 1 2 then None
      else let (headerKey, cidr) = (if length args = 2 then (args ! 0, args ! 1) else ([], args ! 0))
           in case ParseCIDR out cidr of
                None \<Rightarrow> None
              | Some contains \<Rightarrow>
                  Some (\<lambda>ops x.
                    case (if headerKey \<noteq> [] then read_header ops headerKey x
                          else Some (FromRequest (ParseAddr out) (x_request x))) of
                      None \<Rightarrow> replyMmfgError x
                    | Some ip \<Rightarrow> if \<not> contains ip then x_reply ''Forbidden'' 403 x else Some x))"

subsection \<open>Limits\<close>

definition BodySizeLimitFuncName :: string where "BodySizeLimitFuncName = ''$BodySizeLimit''"

definition RequiresRealBody :: "string \<Rightarrow> bool" where
  "RequiresRealBody name \<longleftrightarrow> name = BodySizeLimitFuncName"

definition size_units :: "(string \<times> nat) list" where
  "size_units = [(''GB'', 2 ^ 30), (''MB'', 2 ^ 20), (''KB'', 2 ^ 10), (''B'', 1)]"

text \<open>The unit is a suffix of the trimmed text, and cut from the text itself. \<open>float64(MaxInt64)\<close> is \<open>2^63\<close>.\<close>

definition float_size :: "outside \<Rightarrow> nat \<Rightarrow> float64 \<Rightarrow> int option" where
  "float_size out unit_size n =
     (case n of
        NaN \<Rightarrow> Some (int64_of out NaN)
      | Infinite neg \<Rightarrow> None
      | Finite q \<Rightarrow>
          if q < 0 then None
          else let bytes = q * of_nat unit_size
               in if 2 ^ 63 < bytes then None
                  else if bytes = 2 ^ 63 then Some (int64_of out (Finite bytes))
                  else Some \<lfloor>bytes\<rfloor>)"

definition parseByteSize :: "outside \<Rightarrow> string \<Rightarrow> int option" where
  "parseByteSize out s =
     (let upper = to_upper (trim_space s)
      in case find (\<lambda>u. has_suffix upper (fst u)) size_units of
           Some (sfx, unit_size) \<Rightarrow>
             (case ParseFloat out (trim_space (take (length s - length sfx) s)) of
                None \<Rightarrow> None
              | Some n \<Rightarrow> float_size out unit_size n)
         | None \<Rightarrow>
             (case ParseInt 64 (trim_space s) of
                None \<Rightarrow> None
              | Some n \<Rightarrow> if n < 0 then None else Some n))"

text \<open>A limited reader around a limited one lets the smaller number of bytes through.\<close>

definition BodySizeLimit :: "outside \<Rightarrow> string list \<Rightarrow> 'm handler option" where
  "BodySizeLimit out args =
     (if \<not> CheckArgCount args 1 1 then None
      else case parseByteSize out (args ! 0) of
        None \<Rightarrow> None
      | Some limit \<Rightarrow>
          Some (\<lambda>ops x.
            if r_contentLength (x_request x) > limit then x_reply ''Request Entity Too Large'' 413 x
            else Some (on_request (\<lambda>r. r\<lparr>r_limit := Some (case r_limit r of None \<Rightarrow> limit | Some l \<Rightarrow> min l limit)\<rparr>) x)))"

text \<open>\<open>$Log\<close> prints its line.\<close>

definition Log :: "string list \<Rightarrow> 'm handler option" where
  "Log args = (if \<not> CheckArgCount args 1 1 then None else Some (\<lambda>ops x. Some x))"

definition RetryLimit_factory :: "string list \<Rightarrow> 'm handler option" where
  "RetryLimit_factory args =
     (if \<not> CheckArgCount args 1 1 then None
      else case ParseUint 32 (args ! 0) of
        None \<Rightarrow> None
      | Some limit \<Rightarrow> Some (\<lambda>ops x. Some (x\<lparr>x_options := SetRetryLimit limit (x_options x)\<rparr>)))"

subsection \<open>The registry of middlewares\<close>

definition middleware_names :: "string list" where
  "middleware_names = [''$SetHeader'', ''$DelHeader'', ''$SetHost'', ''$PathTrimPrefix'', ''$RewritePath'', ''$SetQuery'',
     ''$BasicAuth'', ''$RequireHeader'', ''$IPAllow'', ''$Log'', ''$RetryLimit'', BodySizeLimitFuncName]"

definition middleware_factory :: "outside \<Rightarrow> string \<Rightarrow> (string list \<Rightarrow> 'm handler option) option" where
  "middleware_factory out name = map_of (zip middleware_names
     [SetHeader, DelHeader, SetHost, PathTrimPrefix, RewritePath, SetQuery, BasicAuth, RequireHeader, IPAllow out, Log,
      RetryLimit_factory, BodySizeLimit out]) name"

definition middleware_IsValid :: "string \<Rightarrow> bool \<times> string" where
  "middleware_IsValid expr = valid_expr middleware_names expr"

subsection \<open>Handlers never panic\<close>

lemma Reply_valid: "100 \<le> code \<Longrightarrow> code \<le> 999 \<Longrightarrow> Reply msg code t \<noteq> None"
  using hw_write_header_valid [of code] by (simp add: Reply_def split: option.splits)

lemma WriteHeader_valid: "100 \<le> code \<Longrightarrow> code \<le> 999 \<Longrightarrow> WriteHeader code t \<noteq> None"
  using hw_write_header_valid [of code] by (simp add: WriteHeader_def split: option.splits)

lemma x_reply_valid: "100 \<le> code \<Longrightarrow> code \<le> 999 \<Longrightarrow> \<exists>w. x_reply msg code x = Some (x\<lparr>x_writer := w\<rparr>)"
  using Reply_valid [of code msg "x_writer x"] by (auto simp: x_reply_def)

lemma replyMmfgError_ok: "\<exists>w. replyMmfgError x = Some (x\<lparr>x_writer := w\<rparr>)"
  unfolding replyMmfgError_def by (rule x_reply_valid) simp_all

lemma unauthorized_ok: "\<exists>w. unauthorized x = Some (x\<lparr>x_writer := w\<rparr>)"
proof -
  obtain w where "WriteHeader 401 (update_header (header_set ''WWW-Authenticate''
      (''Basic realm='' @ quoted ''Nautrouds Protected'')) (x_writer x)) = Some w"
    using WriteHeader_valid [of 401] by fastforce
  then show ?thesis unfolding unauthorized_def by auto
qed

text \<open>What a handler leaves alone: with an mmfg request the header and the URL of the request itself.\<close>

definition keeps :: "'m exchange \<Rightarrow> 'm exchange option \<Rightarrow> bool" where
  "keeps x r \<longleftrightarrow> (\<exists>y. r = Some y \<and> (x_mmfg x = None \<longleftrightarrow> x_mmfg y = None) \<and>
     (x_mmfg x \<noteq> None \<longrightarrow> r_header (x_request y) = r_header (x_request x) \<and> r_url (x_request y) = r_url (x_request x) \<and>
        r_requestURI (x_request y) = r_requestURI (x_request x)))"

lemma keeps_reply [simp]: "100 \<le> code \<Longrightarrow> code \<le> 999 \<Longrightarrow> keeps x (x_reply msg code x)"
  using x_reply_valid [of code msg x] by (auto simp: keeps_def)

lemma keeps_error [simp]: "keeps x (replyMmfgError x)"
  by (simp add: replyMmfgError_def)

lemma keeps_unauthorized [simp]: "keeps x (unauthorized x)"
  using unauthorized_ok [of x] by (auto simp: keeps_def)

lemma keeps_same [simp]: "keeps x (Some x)"
  by (simp add: keeps_def)

lemma keeps_mmfg [simp]: "x_mmfg x = Some m \<Longrightarrow> keeps x (or_mmfg_error (on_mmfg f m x))"
  using replyMmfgError_ok [of "snd (on_mmfg f m x)"]
  by (auto simp: or_mmfg_error_def on_mmfg_def keeps_def split: prod.splits)

lemma keeps_request [simp]: "x_mmfg x = None \<Longrightarrow> keeps x (Some (on_request f x))"
  by (simp add: keeps_def on_request_def)

lemma keeps_write_url [simp]: "keeps x (write_url ops u x)"
proof (cases "x_mmfg x")
  case None
  then show ?thesis
    by (simp add: write_url_def change_url_def applyURL_def on_request_def or_mmfg_error_def keeps_def)
next
  case (Some m)
  then show ?thesis by (simp add: write_url_def change_url_def applyURL_def Let_def)
qed

lemmas handler_defs = SetHeader_def DelHeader_def SetHost_def PathTrimPrefix_def RewritePath_def SetQuery_def BasicAuth_def
  RequireHeader_def IPAllow_def Log_def RetryLimit_factory_def BodySizeLimit_def

lemma handler_keeps:
  "SetHeader args = Some h \<Longrightarrow> keeps x (h ops x)" "DelHeader args = Some h \<Longrightarrow> keeps x (h ops x)"
  "SetHost args = Some h \<Longrightarrow> keeps x (h ops x)" "Log args = Some h \<Longrightarrow> keeps x (h ops x)"
  "PathTrimPrefix args = Some h \<Longrightarrow> keeps x (h ops x)" "RewritePath args = Some h \<Longrightarrow> keeps x (h ops x)"
  "SetQuery args = Some h \<Longrightarrow> keeps x (h ops x)" "BasicAuth args = Some h \<Longrightarrow> keeps x (h ops x)"
  "RequireHeader args = Some h \<Longrightarrow> keeps x (h ops x)" "IPAllow out args = Some h \<Longrightarrow> keeps x (h ops x)"
  "RetryLimit_factory args = Some h \<Longrightarrow> keeps x (h ops x)" "BodySizeLimit out args = Some h \<Longrightarrow> keeps x (h ops x)"
  by (auto simp: handler_defs Let_def split: if_splits option.splits prod.splits)
    (auto simp: keeps_def on_request_def)

lemma middleware_cases:
  assumes "middleware_factory out name = Some f"
  shows "f \<in> {SetHeader, DelHeader, SetHost, PathTrimPrefix, RewritePath, SetQuery, BasicAuth, RequireHeader, IPAllow out, Log,
    RetryLimit_factory, BodySizeLimit out}"
  using map_of_SomeD [OF assms [unfolded middleware_factory_def]] set_zip_rightD by fastforce

text \<open>C23. Whatever the arguments a factory accepts, its middleware does not panic, on any request and any
  writer, and while there is an mmfg request it writes to that one: the header and the URL of the HTTP
  request stay as they are.\<close>

theorem middlewares_total:
  assumes "middleware_factory out name = Some f" and "f args = Some h"
  shows "\<exists>y. h ops x = Some y \<and> (x_mmfg x = None \<longleftrightarrow> x_mmfg y = None) \<and>
     (x_mmfg x \<noteq> None \<longrightarrow> r_header (x_request y) = r_header (x_request x) \<and> r_url (x_request y) = r_url (x_request x) \<and>
        r_requestURI (x_request y) = r_requestURI (x_request x))"
proof -
  have "keeps x (h ops x)"
    using middleware_cases [OF assms(1)] assms(2)
    by (elim insertE emptyE) (simp_all only: handler_keeps)
  then show ?thesis by (simp only: keeps_def)
qed

theorem middlewares_total_witness:
  "\<exists>h. BasicAuth [''u'', ''p''] = Some h \<and> (\<forall>ops x. h ops (x :: unit exchange) \<noteq> None)"
proof -
  obtain h :: "unit handler" where h: "BasicAuth [''u'', ''p''] = Some h" by (simp add: BasicAuth_def CheckArgCount_def)
  have "middleware_factory no_outside ''$BasicAuth'' = Some BasicAuth"
    by (simp add: middleware_factory_def middleware_names_def)
  from middlewares_total [OF this h] h show ?thesis by fastforce
qed

subsection \<open>\<open>$SetQuery\<close>\<close>

text \<open>\<open>$SetQuery\<close> gives its key exactly its value and keeps the values of every other key, in the URL and in
  the request line that is forwarded.\<close>

theorem SetQuery_sets:
  "\<exists>h y. SetQuery [key, val] = Some h \<and> h ops (x\<lparr>x_mmfg := None\<rparr>) = Some y \<and>
     values_of (parse_query (RawQuery (r_url (x_request y)))) =
       (values_of (parse_query (RawQuery (r_url (x_request x)))))(key := [val]) \<and>
     r_requestURI (x_request y) = RequestURI (r_url (x_request y)) \<and> Path (r_url (x_request y)) = Path (r_url (x_request x))"
proof -
  let ?q = "parse_query (RawQuery (r_url (x_request x)))"
  have "values_of (parse_query (encode_query (set_value key val ?q))) = values_of (set_value key val ?q)"
    by (simp add: parse_encode_query values_sorted set_value_ok parse_query_ok)
  also have "\<dots> = (values_of ?q)(key := [val])" by (simp add: fun_eq_iff values_set_value)
  finally have "values_of (parse_query (encode_query (set_value key val ?q))) = (values_of ?q)(key := [val])" .
  then show ?thesis
    by (simp add: SetQuery_def CheckArgCount_def getURL_def write_url_def change_url_def applyURL_def on_request_def or_mmfg_error_def)
qed

subsection \<open>\<open>$BasicAuth\<close>\<close>

lemma cut_at_iff: "cut_at s c = (a, b, True) \<longleftrightarrow> s = a @ c # b \<and> c \<notin> set a"
proof
  assume r: "cut_at s c = (a, b, True)"
  then have a: "a = takeWhile (\<lambda>x. x \<noteq> c) s" and l: "length (takeWhile (\<lambda>x. x \<noteq> c) s) < length s"
    and b: "b = drop (Suc (length a)) s"
    by (auto simp: cut_at_def Let_def split: if_splits)
  from l have "s ! length a = c" using a nth_length_takeWhile [of "\<lambda>x. x \<noteq> c" s] by simp
  moreover have "s = take (length a) s @ s ! length a # drop (Suc (length a)) s" using l a id_take_nth_drop by blast
  moreover have "take (length a) s = a" unfolding a by (rule takeWhile_eq_take [symmetric])
  moreover have "c \<notin> set a" using a by (auto dest: set_takeWhileD)
  ultimately show "s = a @ c # b \<and> c \<notin> set a" unfolding b by metis
next
  assume "s = a @ c # b \<and> c \<notin> set a"
  then show "cut_at s c = (a, b, True)" by (simp add: cut_at_first)
qed

lemma parseBasicAuth_iff:
  "parseBasicAuth auth = Some (u, p) \<longleftrightarrow>
   (\<exists>scheme code. auth = scheme @ code \<and> length scheme = 6 \<and> to_lower scheme = ''basic '' \<and>
      DecodeString code = Some (u @ '':'' @ p) \<and> CHR '':'' \<notin> set u)"
  (is "?l \<longleftrightarrow> ?r")
proof
  assume ?l
  then obtain d where "6 \<le> length auth" "to_lower (take 6 auth) = ''basic ''" "DecodeString (drop 6 auth) = Some d"
    "cut_at d (CHR '':'') = (u, p, True)"
    by (auto simp: parseBasicAuth_def not_less Let_def split: if_splits option.splits prod.splits)
  then show ?r by (intro exI [of _ "take 6 auth"] exI [of _ "drop 6 auth"]) (simp add: cut_at_iff)
next
  assume ?r
  then obtain scheme code where a: "auth = scheme @ code" "length scheme = 6" "to_lower scheme = ''basic ''"
    and d: "DecodeString code = Some (u @ '':'' @ p)" and u: "CHR '':'' \<notin> set u" by blast
  then have "take 6 auth = scheme" "drop 6 auth = code" "\<not> length auth < 6" by simp_all
  moreover from u have "cut_at (u @ '':'' @ p) (CHR '':'') = (u, p, True)" by (simp add: cut_at_first)
  ultimately show ?l using a(3) d by (simp add: parseBasicAuth_def)
qed

text \<open>C24. \<open>$BasicAuth\<close> lets a request through exactly when its authorization is the scheme, in any letter case,
  and a base64 text of the user and the password with a colon between them; what a client encodes from
  them is such a text. A configured user name with a colon lets nobody through.\<close>

theorem BasicAuth_guards:
  assumes "read_header ops ''Authorization'' x = Some auth"
  shows "(\<exists>h. BasicAuth [user, pass] = Some h \<and>
    h ops x = (if CHR '':'' \<notin> set user \<and> (\<exists>scheme code. auth = scheme @ code \<and> length scheme = 6 \<and>
                  to_lower scheme = ''basic '' \<and> DecodeString code = Some (user @ '':'' @ pass))
               then Some x else unauthorized x)) \<and>
    (CHR '':'' \<notin> set user \<longrightarrow> parseBasicAuth (''Basic '' @ b64_encode (user @ '':'' @ pass)) = Some (user, pass))"
proof (intro conjI impI)
  have e: "(case parseBasicAuth auth of None \<Rightarrow> unauthorized x | Some (u, p) \<Rightarrow> if u \<noteq> user \<or> p \<noteq> pass then unauthorized x else Some x) =
      (if parseBasicAuth auth = Some (user, pass) then Some x else unauthorized x)"
    by (auto split: option.splits)
  show "\<exists>h. BasicAuth [user, pass] = Some h \<and>
    h ops x = (if CHR '':'' \<notin> set user \<and> (\<exists>scheme code. auth = scheme @ code \<and> length scheme = 6 \<and>
                  to_lower scheme = ''basic '' \<and> DecodeString code = Some (user @ '':'' @ pass))
               then Some x else unauthorized x)"
    using assms by (simp add: BasicAuth_def CheckArgCount_def e parseBasicAuth_iff) blast
next
  assume "CHR '':'' \<notin> set user"
  moreover have "to_lower ''Basic '' = ''basic ''" by code_simp
  ultimately show "parseBasicAuth (''Basic '' @ b64_encode (user @ '':'' @ pass)) = Some (user, pass)"
    unfolding parseBasicAuth_iff
    by (intro exI [of _ "''Basic ''"] exI [of _ "b64_encode (user @ '':'' @ pass)"]) (simp add: DecodeString_encode)
qed

definition http_request :: "url \<Rightarrow> headers \<Rightarrow> request" where
  "http_request u h = \<lparr>r_method = ''GET'', r_url = u, r_host = ''h'', r_header = h, r_requestURI = RequestURI u, r_remoteAddr = [],
     r_contentLength = 0, r_limit = None\<rparr>"

definition http_exchange :: "request \<Rightarrow> unit exchange" where
  "http_exchange r = \<lparr>x_writer = newTempResponseWriter, x_request = r, x_mmfg = None, x_options = newOptions\<rparr>"

definition path_url :: "string \<Rightarrow> string \<Rightarrow> url" where
  "path_url path raw = \<lparr>Scheme = [], Opaque = [], Path = path, RawPath = raw, ForceQuery = False, RawQuery = []\<rparr>"

theorem BasicAuth_guards_witness:
  "\<exists>h. BasicAuth [''u'', ''p''] = Some h \<and> (\<forall>ops.
     let x = http_exchange (http_request (path_url ''/'' []) (header_set ''Authorization'' ''BASIC dTpw'' no_headers))
     in h ops x = Some x)"
proof -
  let ?x = "http_exchange (http_request (path_url ''/'' []) (header_set ''Authorization'' ''BASIC dTpw'' no_headers))"
  have r: "read_header ops ''Authorization'' ?x = Some ''BASIC dTpw''" for ops
    by (simp add: read_header_def http_exchange_def http_request_def header_get_def header_values_def header_set_def)
  have d: "DecodeString ''dTpw'' = Some (''u'' @ '':'' @ ''p'')" "to_lower ''BASIC '' = ''basic ''" by code_simp+
  have a: "\<exists>scheme code. ''BASIC dTpw'' = scheme @ code \<and> length scheme = 6 \<and> to_lower scheme = ''basic '' \<and>
      DecodeString code = Some (''u'' @ '':'' @ ''p'')"
    using d by (intro exI [of _ "''BASIC ''"] exI [of _ "''dTpw''"]) simp
  obtain h :: "unit handler" where h: "BasicAuth [''u'', ''p''] = Some h" by (simp add: BasicAuth_def CheckArgCount_def)
  have n: "CHR '':'' \<notin> set ''u''" by simp
  have "\<exists>h. BasicAuth [''u'', ''p''] = Some h \<and> h ops ?x = Some ?x" for ops
    using conjunct1 [OF BasicAuth_guards [OF r, of "''u''" "''p''" ops]]
    unfolding eqTrueI [OF a] eqTrueI [OF n] by (simp only: simp_thms if_True)
  with h show ?thesis by (simp add: Let_def)
qed

subsection \<open>\<open>$PathTrimPrefix\<close>\<close>

lemma escaped_slash: "url_escape EncodePathSegment (CHR ''/'' # p) = ''%2F'' @ url_escape EncodePathSegment p"
proof -
  have "escape_byte EncodePathSegment CHR ''/'' = ''%2F''" by code_simp
  then show ?thesis by (simp add: url_escape_def)
qed

text \<open>A prefix with a slash is trimmed from the decoded path only: its escaped form starts with \<open>%2F\<close>, which no
  encoded path of a request does, so the encoded path stays and no longer fits. What is forwarded is the rest of
  the decoded path encoded anew, and an encoded slash in it is forwarded as a slash.\<close>

theorem trim_prefix_reencodes:
  assumes "r_url (x_request x) = u" and "x_mmfg x = None"
    and "RawPath u = CHR ''/'' # raw" and "url_unescape EncodePath (RawPath u) = Some (Path u)"
    and "Path u = (CHR ''/'' # p) @ rest" and "rest \<noteq> ''*''"
  shows "\<exists>h y. PathTrimPrefix [CHR ''/'' # p] = Some h \<and> h ops x = Some y \<and> Path (r_url (x_request y)) = rest \<and>
    EscapedPath (r_url (x_request y)) = url_escape EncodePath rest \<and> r_requestURI (x_request y) = RequestURI (r_url (x_request y))"
proof -
  have "cut_prefix (Path u) (CHR ''/'' # p) = Some rest" using assms(5) by (simp add: cut_prefix_def has_prefix_iff)
  moreover have "trim_prefix (RawPath u) (url_escape EncodePathSegment (CHR ''/'' # p)) = RawPath u"
    using assms(3) by (simp add: trim_prefix_def escaped_slash)
  moreover have "Some rest \<noteq> url_unescape EncodePath (RawPath u)" using assms(4,5) by auto
  ultimately show ?thesis
    using assms(1-3,6) by (auto simp: PathTrimPrefix_def CheckArgCount_def getURL_def write_url_def change_url_def applyURL_def on_request_def
        or_mmfg_error_def EscapedPath_def Let_def)
qed

theorem trim_prefix_reencodes_witness:
  "let x = http_exchange (http_request (path_url ''/api/a/b'' ''/api/a%2Fb'') no_headers)
   in r_requestURI (x_request x) = ''/api/a%2Fb'' \<and>
      (\<forall>ops. \<exists>h y. PathTrimPrefix [''/api''] = Some h \<and> h ops x = Some y \<and> r_requestURI (x_request y) = ''/a/b'')"
proof -
  let ?u = "path_url ''/api/a/b'' ''/api/a%2Fb''" and ?x = "http_exchange (http_request (path_url ''/api/a/b'' ''/api/a%2Fb'') no_headers)"
  have d: "url_unescape EncodePath ''/api/a%2Fb'' = Some ''/api/a/b''" "url_escape EncodePath ''/a/b'' = ''/a/b''"
    "RequestURI ?u = ''/api/a%2Fb''" by code_simp+
  have "\<exists>h y. PathTrimPrefix [''/api''] = Some h \<and> h ops ?x = Some y \<and> Path (r_url (x_request y)) = ''/a/b'' \<and>
    EscapedPath (r_url (x_request y)) = url_escape EncodePath ''/a/b'' \<and> r_requestURI (x_request y) = RequestURI (r_url (x_request y))" for ops
    using d(1) by (intro trim_prefix_reencodes [of _ ?u]) (simp_all add: http_exchange_def http_request_def path_url_def)
  from this have "\<exists>h y. PathTrimPrefix [''/api''] = Some h \<and> h ops ?x = Some y \<and> r_requestURI (x_request y) = ''/a/b''" for ops
    using d(2) by (auto simp: PathTrimPrefix_def CheckArgCount_def getURL_def write_url_def change_url_def applyURL_def on_request_def
        or_mmfg_error_def Let_def RequestURI_def http_exchange_def http_request_def path_url_def split: option.splits)
  with d(3) show ?thesis by (simp add: http_exchange_def http_request_def)
qed

subsection \<open>\<open>$BodySizeLimit\<close>\<close>

text \<open>C25. A size is a 64-bit number that is not negative, or what the machine makes of a float that does not
  fit: the check lets \<open>NaN\<close> and \<open>2^63\<close> through. A text without a unit is read exactly.\<close>

theorem byte_size_range:
  assumes "parseByteSize out s = Some n"
  shows "(0 \<le> n \<and> n < 2 ^ 63) \<or> n = int64_of out NaN \<or> n = int64_of out (Finite (2 ^ 63))"
proof (cases "find (\<lambda>u. has_suffix (to_upper (trim_space s)) (fst u)) size_units")
  case None
  with assms show ?thesis
    by (auto simp: parseByteSize_def ParseInt_def ParseUint_def Let_def split: option.splits if_splits)
next
  case (Some u)
  then obtain f where "float_size out (snd u) f = Some n"
    using assms by (auto simp: parseByteSize_def Let_def split: option.splits prod.splits)
  then show ?thesis
    by (auto simp: float_size_def Let_def floor_less_iff split: float64.splits if_splits)
qed

theorem byte_size_range_witness:
  "\<exists>n. parseByteSize no_outside ''1500'' = Some n \<and> 0 \<le> n \<and> n < 2 ^ 63"
proof -
  have t: "trim_space ''1500'' = ''1500''" "to_upper ''1500'' = ''1500''" "find (\<lambda>u. has_suffix ''1500'' (fst u)) size_units = None"
    by (code_simp, code_simp, simp add: size_units_def has_suffix_def)
  then have p: "parseByteSize no_outside ''1500'' = Some 1500"
    by (simp add: parseByteSize_def ParseInt_def ParseUint_def digits_value_def is_digit_def byte_def has_prefix_def Let_def)
  from byte_size_range [OF this] p show ?thesis by (auto simp: no_outside_def)
qed

text \<open>On a machine that makes the smallest number of \<open>NaN\<close>, the limit \<open>NaNB\<close> is accepted and refuses every
  request, even one without a body.\<close>

theorem nan_size_refuses_all:
  assumes "ParseFloat out ''NaN'' = Some NaN" and "int64_of out NaN = - (2 ^ 63)"
  shows "\<exists>h. BodySizeLimit out [''NaNB''] = Some h \<and>
    (\<forall>ops x. - 1 \<le> r_contentLength (x_request x) \<longrightarrow> h ops x = x_reply ''Request Entity Too Large'' 413 x)"
proof -
  have t: "trim_space ''NaNB'' = ''NaNB''" "to_upper ''NaNB'' = ''NANB''" "trim_space ''NaN'' = ''NaN''" by code_simp+
  have "find (\<lambda>u. has_suffix ''NANB'' (fst u)) size_units = Some (''B'', 1)" by (simp add: size_units_def has_suffix_def)
  with t assms have "parseByteSize out ''NaNB'' = Some (- (2 ^ 63))" by (simp add: parseByteSize_def float_size_def)
  then show ?thesis by (simp add: BodySizeLimit_def CheckArgCount_def)
qed

end
