(* ===== verification/Generation.thy ===== *)
theory Generation
  imports Pool_Leaves Builtin_Middlewares Registry_Inv
begin

text \<open>
  \<open>internal/core/proxy/generation.go\<close>: a route table in service, with the handlers of its static expressions
  built once. \<^const>\<open>None\<close> for a whole function is a panic; a missing entry of a cache is \<^const>\<open>None\<close> in its map.
\<close>

subsection \<open>Building handlers\<close>

definition buildVirtualHandler :: "outside \<Rightarrow> (request \<Rightarrow> string list) \<Rightarrow> string \<Rightarrow> http_handler option" where
  "buildVirtualHandler out names expr =
     (case ParseDirective expr of
        None \<Rightarrow> None
      | Some (funcName, args) \<Rightarrow>
          (case virtual_factory out names funcName of None \<Rightarrow> None | Some factory \<Rightarrow> factory args))"

definition buildBuiltinHandler :: "outside \<Rightarrow> string \<Rightarrow> 'm handler option" where
  "buildBuiltinHandler out expr =
     (case ParseDirective expr of
        None \<Rightarrow> None
      | Some (funcName, args) \<Rightarrow>
          (case middleware_factory out funcName of None \<Rightarrow> None | Some factory \<Rightarrow> factory args))"

record external_mw =
  FuncName :: string
  MwPath :: string
  AllowedHeaders :: "string list"

text \<open>\<open>args[1:]\<close> panics for an expression without arguments, whose slice is nil.\<close>

definition buildExternalMW :: "string \<Rightarrow> external_mw option" where
  "buildExternalMW expr =
     (case ParseDirective expr of
        None \<Rightarrow> Some \<lparr>FuncName = expr, MwPath = [], AllowedHeaders = []\<rparr>
      | Some (funcName, args) \<Rightarrow> do {
          rest \<leftarrow> slice args 1 (length args);
          Some \<lparr>FuncName = funcName, MwPath = (if args \<noteq> [] then args ! 0 else []),
                AllowedHeaders = List.map_filter (\<lambda>arg. cut_prefix arg ''header='') rest\<rparr>
        })"

subsection \<open>The caches\<close>

record 'm generation =
  g_tree :: route_tree
  g_builtins :: "string \<Rightarrow> 'm handler option"
  g_virtuals :: "string \<Rightarrow> http_handler option"
  g_externals :: "string \<Rightarrow> external_mw option"

definition prewarmService :: "outside \<Rightarrow> (request \<Rightarrow> string list) \<Rightarrow> nat \<Rightarrow> 'm generation \<Rightarrow> 'm generation option" where
  "prewarmService out names metaIndex g = do {
     ops \<leftarrow> idx (ActionMetadata (g_tree g)) (metaIndex + 1);
     if 0 < ops then Some g
     else do {
       off \<leftarrow> idx (ActionMetadata (g_tree g)) metaIndex;
       name \<leftarrow> GetActionName (ActionsRegistry (g_tree g)) off;
       if \<not> has_prefix name ''$'' \<or> g_virtuals g name \<noteq> None then Some g
       else case buildVirtualHandler out names name of
         None \<Rightarrow> Some g
       | Some h \<Rightarrow> Some (g\<lparr>g_virtuals := (g_virtuals g)(name \<mapsto> h)\<rparr>)
     }
   }"

definition prewarmMiddleware :: "outside \<Rightarrow> nat \<Rightarrow> 'm generation \<Rightarrow> 'm generation option" where
  "prewarmMiddleware out metaIndex g = do {
     ops \<leftarrow> idx (ActionMetadata (g_tree g)) (metaIndex + 1);
     if 0 < ops then Some g
     else do {
       off \<leftarrow> idx (ActionMetadata (g_tree g)) metaIndex;
       name \<leftarrow> GetActionName (ActionsRegistry (g_tree g)) off;
       if has_prefix name ''$'' then
         (if g_builtins g name \<noteq> None then Some g
          else case buildBuiltinHandler out name of
            None \<Rightarrow> Some g
          | Some h \<Rightarrow> Some (g\<lparr>g_builtins := (g_builtins g)(name \<mapsto> h)\<rparr>))
       else if g_externals g name \<noteq> None then Some g
       else do { e \<leftarrow> buildExternalMW name; Some (g\<lparr>g_externals := (g_externals g)(name \<mapsto> e)\<rparr>) }
     }
   }"

definition prewarm_node :: "outside \<Rightarrow> (request \<Rightarrow> string list) \<Rightarrow> route_node \<Rightarrow> 'm generation \<Rightarrow> 'm generation option" where
  "prewarm_node out names node g =
     (if Methods node = 0 then Some g
      else do {
        svc \<leftarrow> idx (ActionMetadata (g_tree g)) (ActionIndex node);
        g \<leftarrow> prewarmService out names svc g;
        mwCount \<leftarrow> idx (ActionMetadata (g_tree g)) (ActionIndex node + 1);
        fold_opt (\<lambda>j g. do {
            mi \<leftarrow> idx (ActionMetadata (g_tree g)) (ActionIndex node + 2 + j);
            prewarmMiddleware out mi g
          }) [0..<mwCount] g
      })"

definition new_generation :: "route_tree \<Rightarrow> 'm generation" where
  "new_generation t = \<lparr>g_tree = t, g_builtins = Map.empty, g_virtuals = Map.empty, g_externals = Map.empty\<rparr>"

definition InitCaches :: "outside \<Rightarrow> (request \<Rightarrow> string list) \<Rightarrow> 'm generation \<Rightarrow> 'm generation option" where
  "InitCaches out names g =
     fold_opt (prewarm_node out names) (NodePool (g_tree g)) (new_generation (g_tree g))"

subsection \<open>What the caches hold\<close>

text \<open>Every entry is what building it afresh gives.\<close>

definition gen_sound :: "outside \<Rightarrow> (request \<Rightarrow> string list) \<Rightarrow> route_tree \<Rightarrow> 'm generation \<Rightarrow> bool" where
  "gen_sound out names t g \<longleftrightarrow> g_tree g = t \<and> (\<forall>e h. g_virtuals g e = Some h \<longrightarrow> buildVirtualHandler out names e = Some h) \<and>
     (\<forall>e h. g_builtins g e = Some h \<longrightarrow> buildBuiltinHandler out e = Some h) \<and>
     (\<forall>e x. g_externals g e = Some x \<longrightarrow> buildExternalMW e = Some x)"

definition gen_le :: "'m generation \<Rightarrow> 'm generation \<Rightarrow> bool" where
  "gen_le g g' \<longleftrightarrow> g_virtuals g \<subseteq>\<^sub>m g_virtuals g' \<and> g_builtins g \<subseteq>\<^sub>m g_builtins g' \<and> g_externals g \<subseteq>\<^sub>m g_externals g'"

text \<open>A static service or middleware is in its cache when building it gives something.\<close>

definition svc_cached :: "outside \<Rightarrow> (request \<Rightarrow> string list) \<Rightarrow> string \<times> nat list \<Rightarrow> 'm generation \<Rightarrow> bool" where
  "svc_cached out names a g \<longleftrightarrow> (snd a = [] \<and> has_prefix (fst a) ''$'' \<longrightarrow> buildVirtualHandler out names (fst a) \<noteq> None \<longrightarrow>
     g_virtuals g (fst a) \<noteq> None)"

definition mw_cached :: "outside \<Rightarrow> string \<times> nat list \<Rightarrow> 'm generation \<Rightarrow> bool" where
  "mw_cached out a g \<longleftrightarrow> (snd a = [] \<longrightarrow>
     (if has_prefix (fst a) ''$'' then (buildBuiltinHandler out (fst a) :: 'm handler option) \<noteq> None \<longrightarrow> g_builtins g (fst a) \<noteq> None
      else g_externals g (fst a) \<noteq> None))"

lemma gen_le_refl [simp]: "gen_le g g"
  by (simp add: gen_le_def)

lemma gen_le_trans: "gen_le g g' \<Longrightarrow> gen_le g' g'' \<Longrightarrow> gen_le g g''"
  unfolding gen_le_def by (blast intro: map_le_trans)

lemma map_le_SomeD: "m \<subseteq>\<^sub>m m' \<Longrightarrow> m k \<noteq> None \<Longrightarrow> m' k \<noteq> None"
  by (metis domIff map_le_def)

lemma cached_mono:
  assumes "gen_le g g'"
  shows "svc_cached out names a g \<Longrightarrow> svc_cached out names a g'" and "mw_cached out a g \<Longrightarrow> mw_cached out a g'"
proof -
  have m: "g_virtuals g k \<noteq> None \<Longrightarrow> g_virtuals g' k \<noteq> None" "g_builtins g k \<noteq> None \<Longrightarrow> g_builtins g' k \<noteq> None"
    "g_externals g k \<noteq> None \<Longrightarrow> g_externals g' k \<noteq> None" for k
    using assms unfolding gen_le_def by (metis map_le_SomeD)+
  show "svc_cached out names a g \<Longrightarrow> svc_cached out names a g'" using m(1) by (simp add: svc_cached_def)
  show "mw_cached out a g \<Longrightarrow> mw_cached out a g'" using m(2,3) by (simp add: mw_cached_def split: if_splits)
qed

lemma new_generation_sound: "gen_sound out names t (new_generation t)"
  by (simp add: gen_sound_def new_generation_def)

lemma read_action_parts:
  assumes "read_action t i = Some (name, ops)"
  obtains off where "idx (ActionMetadata t) i = Some off" "idx (ActionMetadata t) (i + 1) = Some (length ops)"
    "GetActionName (ActionsRegistry t) off = Some name" "slice (ActionMetadata t) (i + 2) (i + 2 + length ops) = Some ops"
proof -
  from assms obtain off n where "idx (ActionMetadata t) i = Some off" "idx (ActionMetadata t) (i + 1) = Some n"
    "slice (ActionMetadata t) (i + 2) (i + 2 + n) = Some ops" "GetActionName (ActionsRegistry t) off = Some name"
    by (auto simp: read_action_def read_block_def split: Option.bind_splits prod.splits)
  moreover from this(3) have "length ops = n" by (simp add: slice_length)
  ultimately show ?thesis using that by simp
qed

lemma prewarmService_ok:
  assumes "prewarmService out names i g = Some g'" and "gen_sound out names t g"
  shows "gen_sound out names t g' \<and> gen_le g g' \<and> (\<forall>a. read_action t i = Some a \<longrightarrow> svc_cached out names a g')"
proof -
  have t: "g_tree g = t" using assms(2) by (simp add: gen_sound_def)
  have "gen_sound out names t g' \<and> gen_le g g'"
    using assms by (auto simp: prewarmService_def gen_sound_def gen_le_def map_le_def split: Option.bind_splits if_splits option.splits)
  moreover have "svc_cached out names a g'" if r: "read_action t i = Some a" for a
  proof -
    obtain name ops where a: "a = (name, ops)" by (cases a)
    from r [unfolded a] show ?thesis
      by (rule read_action_parts) (use assms(1) t in \<open>auto simp: prewarmService_def svc_cached_def a split: if_splits option.splits\<close>)
  qed
  ultimately show ?thesis by blast
qed

lemma prewarmMiddleware_ok:
  assumes "prewarmMiddleware out i g = Some g'" and "gen_sound out names t g"
  shows "gen_sound out names t g' \<and> gen_le g g' \<and> (\<forall>a. read_action t i = Some a \<longrightarrow> mw_cached out a g')"
proof -
  have t: "g_tree g = t" using assms(2) by (simp add: gen_sound_def)
  have "gen_sound out names t g' \<and> gen_le g g'"
    using assms by (auto simp: prewarmMiddleware_def gen_sound_def gen_le_def map_le_def split: Option.bind_splits if_splits option.splits)
  moreover have "mw_cached out a g'" if r: "read_action t i = Some a" for a
  proof -
    obtain name ops where a: "a = (name, ops)" by (cases a)
    from r [unfolded a] show ?thesis
      by (rule read_action_parts)
        (use assms(1) t in \<open>auto simp: prewarmMiddleware_def mw_cached_def a split: if_splits option.splits Option.bind_splits\<close>)
  qed
  ultimately show ?thesis by blast
qed

text \<open>A loop whose steps keep an invariant and only add entries.\<close>

lemma fold_opt_grows:
  assumes "\<And>x s s'. x \<in> set xs \<Longrightarrow> f x s = Some s' \<Longrightarrow> gen_sound out names t s \<Longrightarrow> gen_sound out names t s' \<and> gen_le s s' \<and> Q x s'"
    and "\<And>x s s'. Q x s \<Longrightarrow> gen_le s s' \<Longrightarrow> Q x s'"
    and "fold_opt f xs s = Some s'" and "gen_sound out names t s"
  shows "gen_sound out names t s' \<and> gen_le s s' \<and> (\<forall>x \<in> set xs. Q x s')"
  using assms(1,3,4)
proof (induction xs arbitrary: s)
  case (Cons x xs)
  from Cons.prems(2) obtain u where u: "f x s = Some u" "fold_opt f xs u = Some s'" by (auto split: Option.bind_splits)
  from Cons.prems(1) [OF _ u(1) Cons.prems(3)] have s: "gen_sound out names t u" "gen_le s u" "Q x u" by auto
  have "gen_sound out names t s' \<and> gen_le u s' \<and> (\<forall>x \<in> set xs. Q x s')"
    by (rule Cons.IH [OF _ u(2) s(1)]) (use Cons.prems(1) in auto)
  with s(2,3) assms(2) show ?case by (auto intro: gen_le_trans)
qed simp

definition node_cached :: "outside \<Rightarrow> (request \<Rightarrow> string list) \<Rightarrow> route_tree \<Rightarrow> route_node \<Rightarrow> 'm generation \<Rightarrow> bool" where
  "node_cached out names t n g \<longleftrightarrow> (\<forall>svc mws. Methods n \<noteq> 0 \<longrightarrow> read_route t (ActionIndex n) = Some (svc, mws) \<longrightarrow>
     svc_cached out names svc g \<and> (\<forall>a \<in> set mws. mw_cached out a g))"

lemma those_Some: "those xs = Some ys \<Longrightarrow> xs = map Some ys"
  by (induction xs arbitrary: ys) (auto split: option.splits)

lemma read_route_parts:
  assumes "read_route t i = Some (svc, mws)"
  obtains svcID mwIDs where "idx (ActionMetadata t) i = Some svcID" "idx (ActionMetadata t) (i + 1) = Some (length mwIDs)"
    "\<forall>j < length mwIDs. idx (ActionMetadata t) (i + 2 + j) = Some (mwIDs ! j)"
    "read_action t svcID = Some svc" "map (read_action t) mwIDs = map Some mws"
proof -
  from assms obtain svcID n mwIDs where p: "idx (ActionMetadata t) i = Some svcID" "idx (ActionMetadata t) (i + 1) = Some n"
    "slice (ActionMetadata t) (i + 2) (i + 2 + n) = Some mwIDs" "read_action t svcID = Some svc"
    "those (map (read_action t) mwIDs) = Some mws"
    by (auto simp: read_route_def read_block_def split: Option.bind_splits prod.splits)
  from p(3) have l: "length mwIDs = n" "i + 2 + n \<le> length (ActionMetadata t)" "mwIDs = take n (drop (i + 2) (ActionMetadata t))"
    by (auto simp: slice_def split: if_splits)
  have "idx (ActionMetadata t) (i + 2 + j) = Some (mwIDs ! j)" if "j < length mwIDs" for j
    using that l by (simp add: idx_def)
  with l(1) have m: "\<forall>j < length mwIDs. idx (ActionMetadata t) (i + 2 + j) = Some (mwIDs ! j)" by blast
  show ?thesis by (rule that [OF p(1) _ m p(4) those_Some [OF p(5)]]) (use p(2) l(1) in auto)
qed

lemma prewarm_node_ok:
  assumes "prewarm_node out names n g = Some g'" and "gen_sound out names t g"
  shows "gen_sound out names t g' \<and> gen_le g g' \<and> node_cached out names t n g'"
proof (cases "Methods n = 0")
  case True
  with assms show ?thesis by (simp add: prewarm_node_def node_cached_def)
next
  case False
  let ?M = "ActionMetadata t"
  have t: "g_tree g = t" using assms(2) by (simp add: gen_sound_def)
  from assms(1) False t obtain svcID u where u: "idx ?M (ActionIndex n) = Some svcID" "prewarmService out names svcID g = Some u"
    by (auto simp: prewarm_node_def split: Option.bind_splits)
  from prewarmService_ok [OF u(2) assms(2)] have s: "gen_sound out names t u" "gen_le g u"
    "\<And>a. read_action t svcID = Some a \<Longrightarrow> svc_cached out names a u" by auto
  then have "g_tree u = t" by (simp add: gen_sound_def)
  with assms(1) False t u obtain c where c: "idx ?M (ActionIndex n + 1) = Some c"
    "fold_opt (\<lambda>j g. do { mi \<leftarrow> idx (ActionMetadata (g_tree g)) (ActionIndex n + 2 + j); prewarmMiddleware out mi g }) [0..<c] u = Some g'"
    by (auto simp: prewarm_node_def split: Option.bind_splits)
  let ?Q = "\<lambda>j g. \<forall>mi a. idx ?M (ActionIndex n + 2 + j) = Some mi \<longrightarrow> read_action t mi = Some a \<longrightarrow> mw_cached out a g"
  have r: "gen_sound out names t g' \<and> gen_le u g' \<and> (\<forall>j \<in> set [0..<c]. ?Q j g')"
  proof (rule fold_opt_grows [OF _ _ c(2) s(1)])
    fix j g g1
    assume "do { mi \<leftarrow> idx (ActionMetadata (g_tree g)) (ActionIndex n + 2 + j); prewarmMiddleware out mi g } = Some g1"
      and g: "gen_sound out names t g"
    moreover have "g_tree g = t" using g by (simp add: gen_sound_def)
    ultimately obtain mi where "idx ?M (ActionIndex n + 2 + j) = Some mi" "prewarmMiddleware out mi g = Some g1"
      by (auto split: Option.bind_splits)
    with prewarmMiddleware_ok [OF this(2) g] show "gen_sound out names t g1 \<and> gen_le g g1 \<and> ?Q j g1" by auto
  next
    show "?Q j s'" if "?Q j s1" "gen_le s1 s'" for j s1 s'
      using that(1) cached_mono(2) [OF that(2)] by blast
  qed
  have "node_cached out names t n g'" unfolding node_cached_def
  proof (intro allI impI)
    fix svc mws
    assume "read_route t (ActionIndex n) = Some (svc, mws)"
    then obtain svcID' mwIDs where p: "idx ?M (ActionIndex n) = Some svcID'" "idx ?M (ActionIndex n + 1) = Some (length mwIDs)"
      "\<forall>j < length mwIDs. idx ?M (ActionIndex n + 2 + j) = Some (mwIDs ! j)"
      "read_action t svcID' = Some svc" "map (read_action t) mwIDs = map Some mws"
      using read_route_parts by blast
    have "svc_cached out names svc u" using s(3) p(1,4) u(1) by simp
    moreover have "mw_cached out a g'" if "a \<in> set mws" for a
    proof -
      from that obtain j where j: "j < length mws" "a = mws ! j" by (metis in_set_conv_nth)
      have l: "length mwIDs = length mws" using p(5) by (metis length_map)
      then have "read_action t (mwIDs ! j) = Some a" using p(5) j by (metis nth_map)
      moreover have "j \<in> set [0..<c]" using p(2) c(1) j(1) l by simp
      moreover have "idx ?M (ActionIndex n + 2 + j) = Some (mwIDs ! j)" using p(3) j(1) l by simp
      ultimately show ?thesis using r by blast
    qed
    ultimately show "svc_cached out names svc g' \<and> (\<forall>a \<in> set mws. mw_cached out a g')" using cached_mono(1) r by blast
  qed
  with r s(2) show ?thesis by (auto intro: gen_le_trans)
qed

lemma InitCaches_ok:
  assumes "InitCaches out names g = Some g'" and "g_tree g = t"
  shows "gen_sound out names t g'" and "\<forall>n \<in> set (NodePool t). node_cached out names t n g'"
proof -
  have "gen_sound out names t g' \<and> gen_le (new_generation t) g' \<and> (\<forall>n \<in> set (NodePool t). node_cached out names t n g')"
  proof (rule fold_opt_grows)
    show "fold_opt (prewarm_node out names) (NodePool t) (new_generation t) = Some g'" using assms by (simp add: InitCaches_def)
    show "node_cached out names t n s'" if "node_cached out names t n s" "gen_le s s'" for n s s'
      using that cached_mono [OF that(2)] unfolding node_cached_def by blast
  qed (use prewarm_node_ok new_generation_sound in blast)+
  then show "gen_sound out names t g'" "\<forall>n \<in> set (NodePool t). node_cached out names t n g'" by blast+
qed

subsection \<open>Initialising does not panic\<close>

definition node_readable :: "route_tree \<Rightarrow> route_node \<Rightarrow> bool" where
  "node_readable t n \<longleftrightarrow> Methods n = 0 \<or> (case read_route t (ActionIndex n) of
     None \<Rightarrow> False
   | Some (svc, mws) \<Rightarrow> list_all (\<lambda>(e, ops). ops \<noteq> [] \<or> has_prefix e ''$'' \<or> buildExternalMW e \<noteq> None) mws)"

lemma prewarmService_total:
  assumes "read_action (g_tree g) i = Some a"
  shows "\<exists>g'. prewarmService out names i g = Some g' \<and> g_tree g' = g_tree g"
proof -
  obtain name ops where a: "a = (name, ops)" by (cases a)
  from assms [unfolded a] show ?thesis
    by (rule read_action_parts) (auto simp: prewarmService_def split: option.splits)
qed

lemma prewarmMiddleware_total:
  assumes "read_action (g_tree g) i = Some (e, ops)" and "ops \<noteq> [] \<or> has_prefix e ''$'' \<or> buildExternalMW e \<noteq> None"
  shows "\<exists>g'. prewarmMiddleware out i g = Some g' \<and> g_tree g' = g_tree g"
  using assms(1) by (rule read_action_parts) (use assms(2) in \<open>auto simp: prewarmMiddleware_def split: option.splits\<close>)

lemma prewarm_node_total:
  fixes g :: "'m generation"
  assumes "node_readable (g_tree g) n"
  shows "\<exists>g'. prewarm_node out names n g = Some g' \<and> g_tree g' = g_tree g"
proof (cases "Methods n = 0")
  case False
  let ?t = "g_tree g"
  from assms False obtain svc mws where r: "read_route ?t (ActionIndex n) = Some (svc, mws)"
    and ok: "list_all (\<lambda>(e, ops). ops \<noteq> [] \<or> has_prefix e ''$'' \<or> buildExternalMW e \<noteq> None) mws"
    by (auto simp: node_readable_def split: option.splits)
  from r obtain svcID mwIDs where p: "idx (ActionMetadata ?t) (ActionIndex n) = Some svcID"
    "idx (ActionMetadata ?t) (ActionIndex n + 1) = Some (length mwIDs)"
    "\<forall>j < length mwIDs. idx (ActionMetadata ?t) (ActionIndex n + 2 + j) = Some (mwIDs ! j)"
    "read_action ?t svcID = Some svc" "map (read_action ?t) mwIDs = map Some mws"
    by (rule read_route_parts)
  from prewarmService_total [OF p(4)] obtain u where u: "prewarmService out names svcID g = Some u" "g_tree u = ?t" by blast
  let ?f = "\<lambda>j g. do { mi \<leftarrow> idx (ActionMetadata (g_tree g)) (ActionIndex n + 2 + j); prewarmMiddleware out mi g }"
  have "\<exists>v. fold_opt ?f [0..<length mwIDs] u = Some v \<and> g_tree v = ?t"
  proof (rule fold_opt_inv)
    fix j and v :: "'m generation"
    assume j: "j \<in> set [0..<length mwIDs]" and v: "g_tree v = ?t"
    have l: "length mwIDs = length mws" using p(5) by (metis length_map)
    obtain e ops where e: "mws ! j = (e, ops)" by fastforce
    have "read_action (g_tree v) (mwIDs ! j) = Some (e, ops)"
      using arg_cong [OF p(5), of "\<lambda>xs. xs ! j"] j l e v by simp
    moreover have "ops \<noteq> [] \<or> has_prefix e ''$'' \<or> buildExternalMW e \<noteq> None"
      using ok j l e by (auto simp: list_all_length)
    ultimately have "\<exists>g'. prewarmMiddleware out (mwIDs ! j) v = Some g' \<and> g_tree g' = g_tree v" by (rule prewarmMiddleware_total)
    moreover have "idx (ActionMetadata (g_tree v)) (ActionIndex n + 2 + j) = Some (mwIDs ! j)" using p(3) j v by simp
    ultimately show "\<exists>t. ?f j v = Some t \<and> g_tree t = ?t" using v by simp
  qed (rule u(2))
  with False p(1,2) u show ?thesis by (simp add: prewarm_node_def)
qed (simp add: prewarm_node_def)

text \<open>Initialising succeeds when every node can be read and no static external middleware lacks its arguments.\<close>

lemma InitCaches_total:
  assumes "list_all (node_readable t) (NodePool t)"
  shows "\<exists>g. InitCaches out names (new_generation t) = Some g"
proof -
  have "\<exists>g. fold_opt (prewarm_node out names) (NodePool t) (new_generation t) = Some g \<and> g_tree g = t"
    by (rule fold_opt_inv) (use prewarm_node_total assms in \<open>force simp: list_all_iff new_generation_def\<close>)+
  then show ?thesis by (auto simp: InitCaches_def new_generation_def)
qed

subsection \<open>Found nodes are nodes of the pool\<close>

lemma search_step_pool: "search_step t url s = Some (Inl (Found n)) \<Longrightarrow> n \<in> set (NodePool t)"
  by (auto simp: search_step_def idx_def Let_def split: Option.bind_splits if_splits option.splits)

lemma search_loop_pool: "search_loop t url s = Some r \<Longrightarrow> r = Found n \<longrightarrow> n \<in> set (NodePool t)"
  by (erule search_loop.raw_induct [rotated, where P = "\<lambda>t url s r. r = Found n \<longrightarrow> n \<in> set (NodePool t)"])
    (auto dest: search_step_pool split: option.splits sum.splits)

lemma Search_pool: "Search t url = Some (Found n) \<Longrightarrow> n \<in> set (NodePool t)"
  by (auto simp: Search_def dest: search_loop_pool split: list.splits option.splits)

subsection \<open>Middlewares without arguments\<close>

lemma buildExternalMW_None: "buildExternalMW e = None \<longleftrightarrow> (\<exists>f. ParseDirective e = Some (f, []))"
  by (auto simp: buildExternalMW_def slice_def not_le split: option.splits)

lemma loading_panics:
  assumes "Build raws = Some (Some t)" and "text_routes raws" and "\<forall>raw \<in> set raws. URL raw \<noteq> []"
  shows "InitCaches out names (new_generation t :: 'm generation) = None \<longleftrightarrow>
    (\<exists>raw e f. winner raws (lookup_path raw) = Some raw \<and> e \<in> set (Middlewares raw) \<and> Analyze e = [] \<and>
       \<not> has_prefix e ''$'' \<and> ParseDirective e = Some (f, []))"
    (is "?l \<longleftrightarrow> ?r")
proof
  assume ?l
  have "\<not> list_all (node_readable t) (NodePool t)"
  proof
    assume "list_all (node_readable t) (NodePool t)"
    then have "\<exists>g :: 'm generation. InitCaches out names (new_generation t) = Some g" by (rule InitCaches_total)
    with \<open>?l\<close> show False by simp
  qed
  then obtain n where n: "n \<in> set (NodePool t)" "\<not> node_readable t n" by (auto simp: list_all_iff)
  then have "Methods n \<noteq> 0" by (simp add: node_readable_def)
  from pool_serves [OF assms n(1) this] obtain raw where raw: "winner raws (lookup_path raw) = Some raw" "serves t n raw" by blast
  with n(2) obtain e where "e \<in> set (Middlewares raw)" "Analyze e = []" "\<not> has_prefix e ''$''" "buildExternalMW e = None"
    by (auto simp: node_readable_def serves_def list_all_iff)
  with raw(1) show ?r by (auto simp: buildExternalMW_None)
next
  assume ?r
  then obtain raw e where raw: "winner raws (lookup_path raw) = Some raw" "e \<in> set (Middlewares raw)" "Analyze e = []"
    "\<not> has_prefix e ''$''" "buildExternalMW e = None" by (auto simp: buildExternalMW_None)
  from winner_in_pool [OF assms raw(1)] obtain n where n: "n \<in> set (NodePool t)" "Methods n \<noteq> 0" "serves t n raw" by blast
  show ?l
  proof (rule ccontr)
    assume "InitCaches out names (new_generation t :: 'm generation) \<noteq> None"
    then obtain g :: "'m generation" where g: "InitCaches out names (new_generation t) = Some g" by blast
    have "g_tree (new_generation t) = t" by (simp add: new_generation_def)
    from InitCaches_ok [OF g this] n have s: "gen_sound out names t g" and c: "node_cached out names t n g" by simp_all
    from c n(2,3) raw(2) have "mw_cached out (e, Analyze e) g" by (auto simp: node_cached_def serves_def)
    then have "g_externals g e \<noteq> None" using raw(3,4) by (simp add: mw_cached_def)
    with s raw(5) show False by (auto simp: gen_sound_def)
  qed
qed

text \<open>C22. A built table loads without a panic exactly when no route in force has a static external middleware
  written without arguments: one makes the core panic while the table is loaded, although the compiler
  accepts it and the manual gives a default for the missing path.\<close>

theorem loading_panics_iff:
  assumes "Build raws = Some (Some t)" and "text_routes raws" and "\<forall>raw \<in> set raws. URL raw \<noteq> []"
  shows "InitCaches out names (new_generation t :: 'm generation) = None \<longleftrightarrow>
    (\<exists>raw e f. winner raws (lookup_path raw) = Some raw \<and> e \<in> set (Middlewares raw) \<and> Analyze e = [] \<and>
       \<not> has_prefix e ''$'' \<and> ParseDirective e = Some (f, []))"
  using assms by (rule loading_panics)

definition bare_route :: raw_node where
  "bare_route = \<lparr>URL = ''h/x'', Service = ''s'', Middlewares = [''auth''], RawMethods = ''*'', RawTags = []\<rparr>"

theorem loading_panics_iff_witness:
  "\<exists>t. Build [bare_route] = Some (Some t) \<and> InitCaches no_outside (\<lambda>_. []) (new_generation t :: unit generation) = None"
proof -
  have e: "text_routes [bare_route]" "URL bare_route \<noteq> []" "parseMethods (RawMethods bare_route) \<noteq> 0"
    "count_wilds (star_bytes (URL bare_route)) \<le> MaxWildcardsPerRoute" "Analyze ''auth'' = []" "ParseDirective ''auth'' = Some (''auth'', [])"
    by (simp_all add: text_routes_def bare_route_def, code_simp+)
  from Build_exists [of "[bare_route]"] e obtain t where t: "Build [bare_route] = Some (Some t)" by auto
  have "winner [bare_route] (lookup_path bare_route) = Some bare_route" by (simp add: winner_def)
  with loading_panics_iff [OF t e(1), of no_outside "\<lambda>_. []"] e(2,5,6) t show ?thesis
    by (auto simp: bare_route_def)
qed

end
