(* ===== verification/Forwarding.thy ===== *)
theory Forwarding
  imports Registry_Correct Builtin_Middlewares
begin

text \<open>
  \<open>internal/core/registry/forwarder\<close>, one forwarder for each node, and \<open>internal/core/proxy/forward.go\<close>, which
  tries the forwarders of a service in turn. What goes over the wire is a parameter: the exchange of the
  reverse proxy with a node, the call of a middleware and the HTTP/2 probe, each with a state \<open>'w\<close> of the world
  they may read and change. The counters of requests in flight and the metrics are left out.
\<close>

subsection \<open>Errors\<close>

datatype forward_error = NodeUnavailable | NodeFailed | UpstreamFailed | MiddlewareBlocked | ServerError | BodyTooLarge | OtherError

text \<open>What \<open>errors.As\<close> finds in an error of the transport: the operation of a \<open>net.OpError\<close>, a \<open>MaxBytesError\<close>.\<close>

record go_error =
  op_error :: "string option"
  max_bytes_error :: bool

record response =
  StatusCode :: int
  ResponseHeader :: headers
  ResponseBody :: string

text \<open>\<open>proxy_to\<close>: the error its error handler gets, or the writer after the response. \<open>call_mw\<close>: the answer of the node
  at a socket to a path, headers and a host. \<open>parse_url\<close>: whether \<open>NewRequest\<close> accepts the address.\<close>

record 'w network =
  proxy_to :: "string \<Rightarrow> request \<Rightarrow> tracked \<Rightarrow> 'w \<Rightarrow> (go_error + tracked) \<times> 'w"
  call_mw :: "string \<Rightarrow> string \<Rightarrow> headers \<Rightarrow> string \<Rightarrow> 'w \<Rightarrow> (go_error + response) \<times> 'w"
  parse_url :: "string \<Rightarrow> bool"

text \<open>\<open>n_failed\<close>: the nodes whose \<open>isFailed\<close> is set; \<open>n_reports\<close>: what was sent to \<open>onFailure\<close>.\<close>

record 'w nodes =
  n_failed :: "string set"
  n_reports :: "string list"
  n_world :: 'w

text \<open>\<open>CompareAndSwap(false, true)\<close>, and the report when it succeeds.\<close>

definition fail_node :: "string \<Rightarrow> 'w nodes \<Rightarrow> 'w nodes" where
  "fail_node path n =
     (if path \<in> n_failed n then n
      else n\<lparr>n_failed := insert path (n_failed n), n_reports := n_reports n @ [path]\<rparr>)"

definition ErrorHandler :: "string \<Rightarrow> go_error \<Rightarrow> 'w nodes \<Rightarrow> forward_error \<times> 'w nodes" where
  "ErrorHandler path e n =
     (let (err, n) =
        (case op_error e of
           Some opn \<Rightarrow> (if opn = ''dial'' then NodeUnavailable else UpstreamFailed, fail_node path n)
         | None \<Rightarrow> (OtherError, n))
      in (if err = OtherError \<and> max_bytes_error e then BodyTooLarge else err, n))"

subsection \<open>Forwarding a request\<close>

definition Forward :: "'w network \<Rightarrow> forwarder \<Rightarrow> tracked \<Rightarrow> request \<Rightarrow> 'w nodes \<Rightarrow> (forward_error + tracked) \<times> 'w nodes" where
  "Forward net f w r n =
     (let path = SocketPath f
      in if path \<in> n_failed n then (Inl NodeFailed, n)
         else case proxy_to net path r w (n_world n) of
           (Inl e, s) \<Rightarrow> (let (err, n) = ErrorHandler path e (n\<lparr>n_world := s\<rparr>) in (Inl err, n))
         | (Inr w, s) \<Rightarrow> (Inr w, n\<lparr>n_world := s\<rparr>))"

definition isSafeMethod :: "string \<Rightarrow> bool" where
  "isSafeMethod m \<longleftrightarrow> m \<in> {''GET'', ''HEAD'', ''OPTIONS'', ''TRACE''}"

text \<open>The loop over the forwarders; \<^const>\<open>None\<close> is a panic.\<close>

fun forward_loop :: "'w network \<Rightarrow> route_options \<Rightarrow> nat \<Rightarrow> forwarder list \<Rightarrow> tracked \<Rightarrow> request \<Rightarrow> 'w nodes \<Rightarrow> tracked option \<times> 'w nodes" where
  "forward_loop net opts retryCount [] w r n = (http_Error ''Service Unavailable'' 503 w, n)"
| "forward_loop net opts retryCount (f # fs) w r n =
     (case Forward net f w r n of
        (Inr w', n) \<Rightarrow> (Some w', n)
      | (Inl err, n) \<Rightarrow>
          if err = NodeUnavailable then
            if \<not> isSafeMethod (r_method r) then (http_Error ''Bad Gateway'' 502 w, n)
            else if HasRetryLimit opts then
              if RetryLimit opts \<le> retryCount then (http_Error ''Bad Gateway'' 502 w, n)
              else forward_loop net opts (retryCount + 1) fs w r n
            else forward_loop net opts retryCount fs w r n
          else if err = NodeFailed then forward_loop net opts retryCount fs w r n
          else if err = BodyTooLarge then (http_Error ''Request Entity Too Large'' 413 w, n)
          else (http_Error ''Bad Gateway'' 502 w, n))"

text \<open>\<open>forwardToBackend\<close> with the loads and random numbers its balancer sees.\<close>

definition forwardToBackend ::
  "'w network \<Rightarrow> (forwarder \<Rightarrow> int) \<Rightarrow> nat \<Rightarrow> nat \<Rightarrow> string \<Rightarrow> route_options \<Rightarrow> tracked \<Rightarrow> request \<Rightarrow> registry \<times> 'w nodes \<Rightarrow>
   (tracked \<times> registry \<times> 'w nodes) option" where
  "forwardToBackend net load i j svc opts w r rn = do {
     (fs, reg) \<leftarrow> GetForwarders load i j svc (fst rn);
     let (w', n) = forward_loop net opts 0 fs w r (snd rn);
     map_option (\<lambda>w. (w, reg, n)) w'
   }"

subsection \<open>Calling a middleware\<close>

definition forbiddenHeaders :: "string list" where
  "forbiddenHeaders = [''Proxy-Authenticate'', ''Proxy-Authorization'', ''Transfer-Encoding'', ''Connection'', ''Server'']"

text \<open>The answer of an approving middleware: its allowed headers replace those of the request.\<close>

fun copy_headers :: "'m mmfg_request \<Rightarrow> string list \<Rightarrow> headers \<Rightarrow> request \<Rightarrow> 'm option \<Rightarrow> bool \<times> request \<times> 'm option" where
  "copy_headers ops [] h r mr = (True, r, mr)"
| "copy_headers ops (key # keys) h r mr =
     (let vals = header_values key h
      in if vals = [] then copy_headers ops keys h r mr
         else case mr of
           None \<Rightarrow> copy_headers ops keys h (r\<lparr>r_header := fold (header_add key) vals (header_del key (r_header r))\<rparr>) mr
         | Some m \<Rightarrow>
             (case m_DeleteHeader ops key m of
                (False, m) \<Rightarrow> (False, r, Some m)
              | (True, m) \<Rightarrow>
                  (case m_UpdateHeader ops key vals m of
                     (False, m) \<Rightarrow> (False, r, Some m)
                   | (True, m) \<Rightarrow> copy_headers ops keys h r (Some m))))"

definition mw_path :: "string \<Rightarrow> string" where
  "mw_path path = (if path \<noteq> [] \<and> hd path \<noteq> CHR ''/'' then ''/'' @ path else path)"

text \<open>The writer of a blocked request: \<open>EnablePassthrough\<close>, the headers, \<open>ReplyReader\<close>.\<close>

definition blocked_reply :: "response \<Rightarrow> response_writer \<Rightarrow> response_writer option" where
  "blocked_reply resp w =
     ReplyReader (ResponseBody resp) (StatusCode resp)
       (update_header (\<lambda>h k. if ResponseHeader resp k = [] then h k else ResponseHeader resp k) (EnablePassthrough w))"

definition ForwardMiddleware ::
  "'w network \<Rightarrow> 'm mmfg_request \<Rightarrow> forwarder \<Rightarrow> string \<Rightarrow> string list \<Rightarrow> 'm exchange \<Rightarrow> 'w nodes \<Rightarrow>
   ((forward_error option \<times> 'm exchange) \<times> 'w nodes) option" where
  "ForwardMiddleware net ops f path allowedHeaders x n =
     (let sock = SocketPath f; path = mw_path path
      in if sock \<in> n_failed n then Some ((Some NodeFailed, x), n)
         else if \<not> parse_url net (''http://localhost'' @ path) then Some ((Some NodeUnavailable, x), n)
         else case (case x_mmfg x of Some m \<Rightarrow> m_CloneHeaders ops m | None \<Rightarrow> Some (r_header (x_request x))) of
           None \<Rightarrow> Some ((Some ServerError, x), n)
         | Some hs \<Rightarrow>
             (case call_mw net sock path hs (r_host (x_request x)) (n_world n) of
                (Inl e, s) \<Rightarrow>
                  (let n = n\<lparr>n_world := s\<rparr>
                   in Some ((Some NodeUnavailable, x), if op_error e \<noteq> None then fail_node sock n else n))
              | (Inr resp, s) \<Rightarrow>
                  (let n = n\<lparr>n_world := s\<rparr>; resp = resp\<lparr>ResponseHeader := fold header_del forbiddenHeaders (ResponseHeader resp)\<rparr>
                   in if StatusCode resp = 204 then
                        (let (ok, r, mr) = copy_headers ops allowedHeaders (ResponseHeader resp) (x_request x) (x_mmfg x);
                             x = x\<lparr>x_request := r, x_mmfg := mr\<rparr>
                         in if \<not> ok then Some ((Some ServerError, x), n)
                            else map_option (\<lambda>w. ((None, x\<lparr>x_writer := w\<rparr>), n)) (WriteHeader 204 (x_writer x)))
                      else map_option (\<lambda>w. ((Some MiddlewareBlocked, x\<lparr>x_writer := w\<rparr>), n)) (blocked_reply resp (x_writer x)))))"

subsection \<open>Probes\<close>

text \<open>The answer to the HTTP/2 preface: the first nine bytes, or why there are none.\<close>

datatype probe_result = Dial_Failed | Timed_Out | Broken | Frame_Header string

definition frameTypeSettings :: nat where "frameTypeSettings = 4"
definition frameTypeGoAway :: nat where "frameTypeGoAway = 7"

definition stream_id :: "string \<Rightarrow> nat" where
  "stream_id hdr = (((byte (hdr ! 5) mod 128 * 256 + byte (hdr ! 6)) * 256 + byte (hdr ! 7)) * 256 + byte (hdr ! 8))"

definition probeHTTP2 :: "probe_result \<Rightarrow> bool \<times> string" where
  "probeHTTP2 result =
     (case result of
        Dial_Failed \<Rightarrow> (False, ''dial_failed'')
      | Timed_Out \<Rightarrow> (False, ''timeout'')
      | Broken \<Rightarrow> (False, ''unsupported'')
      | Frame_Header hdr \<Rightarrow>
          if stream_id hdr \<noteq> 0 then (False, ''unsupported'')
          else if byte (hdr ! 3) = frameTypeSettings then (True, ''supported'')
          else if byte (hdr ! 3) = frameTypeGoAway then (False, ''declined'')
          else (False, ''unsupported''))"

text \<open>\<open>probeSocket\<close> marks a node that refuses the connection; \<open>TryReconnect\<close> clears the mark of one that accepts it.\<close>

definition probeSocket :: "bool \<Rightarrow> string \<Rightarrow> 'w nodes \<Rightarrow> 'w nodes" where
  "probeSocket connects path n = (if connects then n else fail_node path n)"

definition TryReconnect :: "bool \<Rightarrow> string \<Rightarrow> 'w nodes \<Rightarrow> bool \<times> 'w nodes" where
  "TryReconnect connects path n = (if \<not> connects then (False, n) else (True, n\<lparr>n_failed := n_failed n - {path}\<rparr>))"

subsection \<open>How often a request is sent\<close>

text \<open>The same network with a world that also lists the nodes the reverse proxy was run on.\<close>

definition logged :: "'w network \<Rightarrow> ('w \<times> string list) network" where
  "logged net =
     \<lparr>proxy_to = (\<lambda>p r w (s, tries). let (res, s) = proxy_to net p r w s in (res, (s, tries @ [p]))),
      call_mw = (\<lambda>p path hs host (s, tries). let (res, s) = call_mw net p path hs host s in (res, (s, tries))),
      parse_url = parse_url net\<rparr>"

lemma fail_node_simps [simp]:
  "n_failed (fail_node p n) = insert p (n_failed n)" "n_world (fail_node p n) = n_world n"
  "n_reports (fail_node p n) = (if p \<in> n_failed n then n_reports n else n_reports n @ [p])"
  by (auto simp: fail_node_def)

text \<open>One attempt: no node, or one that had not failed; it fails exactly when it is reported.\<close>

lemma Forward_cases:
  assumes "Forward (logged net) f w r n = (res, n')"
  obtains (failed) "SocketPath f \<in> n_failed n" "res = Inl NodeFailed" "n' = n"
  | (tried) "SocketPath f \<notin> n_failed n" "snd (n_world n') = snd (n_world n) @ [SocketPath f]" "res \<noteq> Inl NodeFailed"
      "res = Inl NodeUnavailable \<Longrightarrow> SocketPath f \<in> n_failed n'"
      "(n_failed n' = n_failed n \<and> n_reports n' = n_reports n) \<or>
       (n_failed n' = insert (SocketPath f) (n_failed n) \<and> n_reports n' = n_reports n @ [SocketPath f])"
proof (cases "SocketPath f \<in> n_failed n")
  case True
  with assms show ?thesis by (intro failed) (simp_all add: Forward_def)
next
  case False
  obtain s tries where n: "n_world n = (s, tries)" by fastforce
  obtain a s' where a: "proxy_to net (SocketPath f) r w s = (a, s')" by fastforce
  show ?thesis
    by (rule tried) (use assms False n a in \<open>auto simp: Forward_def logged_def ErrorHandler_def Let_def
        split: sum.splits option.splits if_splits prod.splits\<close>)
qed

lemma forward_loop_tries:
  assumes "forward_loop (logged net) opts c fs w r n = (res, n')"
  shows "\<exists>new rep. snd (n_world n') = snd (n_world n) @ new \<and> distinct new \<and> set new \<subseteq> SocketPath ` set fs - n_failed n \<and>
    (\<not> isSafeMethod (r_method r) \<longrightarrow> length new \<le> 1) \<and>
    (HasRetryLimit opts \<and> c \<le> RetryLimit opts \<longrightarrow> length new + c \<le> RetryLimit opts + 1) \<and>
    n_reports n' = n_reports n @ rep \<and> distinct rep \<and> set rep \<subseteq> set new \<and> n_failed n' = n_failed n \<union> set rep"
  using assms
proof (induction fs arbitrary: c n)
  case (Cons f fs)
  let ?p = "SocketPath f"
  obtain a m where F: "Forward (logged net) f w r n = (a, m)" by fastforce
  from F show ?case
  proof (cases rule: Forward_cases)
    case failed
    with Cons.prems F have "forward_loop (logged net) opts c fs w r n = (res, n')" by simp
    from Cons.IH [OF this] show ?thesis by fastforce
  next
    case tried
    obtain rep1 where rep1: "n_reports m = n_reports n @ rep1" "n_failed m = n_failed n \<union> set rep1" "distinct rep1" "set rep1 \<subseteq> {?p}"
      using tried(5) by (metis Un_insert_right append_Nil2 distinct.simps(1) distinct_singleton empty_set empty_subsetI list.simps(15)
          subset_refl sup_bot.right_neutral)
    show ?thesis
    proof (cases "\<exists>c'. c \<le> c' \<and> (HasRetryLimit opts \<longrightarrow> c' = c + 1 \<and> c < RetryLimit opts) \<and> a = Inl NodeUnavailable \<and>
        isSafeMethod (r_method r) \<and> forward_loop (logged net) opts c' fs w r m = (res, n')")
      case True
      then obtain c' where c': "HasRetryLimit opts \<longrightarrow> c' = c + 1 \<and> c < RetryLimit opts" "a = Inl NodeUnavailable"
        "isSafeMethod (r_method r)" and l: "forward_loop (logged net) opts c' fs w r m = (res, n')" by blast
      from Cons.IH [OF l] obtain new rep where nr: "snd (n_world n') = snd (n_world m) @ new" "distinct new"
        "set new \<subseteq> SocketPath ` set fs - n_failed m"
        "HasRetryLimit opts \<and> c' \<le> RetryLimit opts \<longrightarrow> length new + c' \<le> RetryLimit opts + 1"
        "n_reports n' = n_reports m @ rep" "distinct rep" "set rep \<subseteq> set new" "n_failed n' = n_failed m \<union> set rep" by blast
      have p: "?p \<in> n_failed m" using tried(4) c'(2) by simp
      show ?thesis
        by (rule exI [of _ "?p # new"], rule exI [of _ "rep1 @ rep"])
          (use nr tried(1,2) c' p rep1 in auto)
    next
      case False
      with Cons.prems F tried(3) have "n' = m" by (auto split: sum.splits if_splits)
      then show ?thesis
        by (intro exI [of _ "[?p]"] exI [of _ rep1]) (use tried(1,2) rep1 in auto)
    qed
  qed
qed simp

text \<open>C21. Whatever the nodes answer, a request is sent to a node at most once however often the balancer lists
  it, never to a node known to be down, to one node only when its method is not safe, and to at most
  one more node than the retry limit; the nodes that fail are reported once each.\<close>

theorem attempts_bounded:
  "case forward_loop (logged net) opts 0 fs w r \<lparr>n_failed = F, n_reports = [], n_world = (s, [])\<rparr> of (res, n') \<Rightarrow>
     distinct (snd (n_world n')) \<and> set (snd (n_world n')) \<subseteq> SocketPath ` set fs - F \<and>
     length (snd (n_world n')) \<le> (if isSafeMethod (r_method r) then length fs else 1) \<and>
     length (snd (n_world n')) \<le> (if HasRetryLimit opts then RetryLimit opts + 1 else length fs) \<and>
     distinct (n_reports n') \<and> set (n_reports n') \<subseteq> set (snd (n_world n')) \<and> n_failed n' = F \<union> set (n_reports n')"
proof (cases "forward_loop (logged net) opts 0 fs w r \<lparr>n_failed = F, n_reports = [], n_world = (s, [])\<rparr>")
  case (Pair res n')
  from forward_loop_tries [OF this] obtain new rep where new: "snd (n_world n') = new" "distinct new"
    "set new \<subseteq> SocketPath ` set fs - F" "\<not> isSafeMethod (r_method r) \<longrightarrow> length new \<le> 1"
    "HasRetryLimit opts \<longrightarrow> length new \<le> RetryLimit opts + 1"
    and rep: "n_reports n' = rep" "distinct rep" "set rep \<subseteq> set new" "n_failed n' = F \<union> set rep" by auto
  have "length new = card (set new)" using new(2) by (simp add: distinct_card)
  also have "\<dots> \<le> card (set (map SocketPath fs))" using new(3) by (intro card_mono) auto
  also have "\<dots> \<le> length fs" using card_length [of "map SocketPath fs"] by simp
  finally show ?thesis using Pair new rep by simp
qed

subsection \<open>Which node answers\<close>

definition node_down :: "'w network \<Rightarrow> string \<Rightarrow> request \<Rightarrow> tracked \<Rightarrow> bool" where
  "node_down net p r w \<longleftrightarrow> (\<forall>s. \<exists>e s'. proxy_to net p r w s = (Inl e, s') \<and> op_error e = Some ''dial'')"

lemma forward_loop_skips:
  assumes "isSafeMethod (r_method r)" and "\<not> HasRetryLimit opts"
    and "\<forall>g \<in> set pre. SocketPath g \<in> n_failed n \<or> node_down net (SocketPath g) r w"
  shows "\<exists>m. n_failed n \<subseteq> n_failed m \<and> n_failed m \<subseteq> n_failed n \<union> SocketPath ` set pre \<and>
    forward_loop net opts c (pre @ fs) w r n = forward_loop net opts c fs w r m"
  using assms(3)
proof (induction pre arbitrary: n)
  case Nil
  then show ?case by (intro exI [of _ n]) simp
next
  case (Cons g pre)
  let ?p = "SocketPath g"
  have "\<exists>err k. Forward net g w r n = (Inl err, k) \<and> (err = NodeUnavailable \<or> err = NodeFailed) \<and> n_failed k = insert ?p (n_failed n)"
  proof (cases "?p \<in> n_failed n")
    case True
    then show ?thesis by (auto simp: Forward_def)
  next
    case False
    with Cons.prems have "node_down net ?p r w" by simp
    then obtain e s' where "proxy_to net ?p r w (n_world n) = (Inl e, s')" "op_error e = Some ''dial''"
      unfolding node_down_def by blast
    with False show ?thesis by (simp add: Forward_def ErrorHandler_def)
  qed
  then obtain err k where k: "Forward net g w r n = (Inl err, k)" "err = NodeUnavailable \<or> err = NodeFailed"
    "n_failed k = insert ?p (n_failed n)" by blast
  then have l: "forward_loop net opts c ((g # pre) @ fs) w r n = forward_loop net opts c (pre @ fs) w r k"
    using assms(1,2) by auto
  have "\<forall>g \<in> set pre. SocketPath g \<in> n_failed k \<or> node_down net (SocketPath g) r w" using Cons.prems k(3) by auto
  from Cons.IH [OF this] obtain m where m: "n_failed k \<subseteq> n_failed m" "n_failed m \<subseteq> n_failed k \<union> SocketPath ` set pre"
    "forward_loop net opts c (pre @ fs) w r k = forward_loop net opts c fs w r m" by blast
  from m(1,2) k(3) have "n_failed n \<subseteq> n_failed m" "n_failed m \<subseteq> n_failed n \<union> SocketPath ` set (g # pre)" by auto
  with m(3) l show ?case by metis
qed

text \<open>Without a retry limit a request with a safe method is answered by the first node of the balancer's list
  that is up, however many before it are down; when all are down the answer is 503.\<close>

theorem first_live_node_answers:
  assumes "isSafeMethod (r_method r)" and "\<not> HasRetryLimit opts"
    and "\<forall>g \<in> set pre. SocketPath g \<in> n_failed n \<or> node_down net (SocketPath g) r w"
    and "SocketPath f \<notin> n_failed n" and "\<forall>s. fst (proxy_to net (SocketPath f) r w s) = Inr w'"
  shows "fst (forward_loop net opts 0 (pre @ f # post) w r n) = Some w' \<and>
    fst (forward_loop net opts 0 pre w r n) = http_Error ''Service Unavailable'' 503 w"
proof
  from forward_loop_skips [OF assms(1-3), of 0 "f # post"] obtain m where
    m: "n_failed m \<subseteq> n_failed n \<union> SocketPath ` set pre"
      "forward_loop net opts 0 (pre @ f # post) w r n = forward_loop net opts 0 (f # post) w r m" by blast
  have "SocketPath f \<notin> SocketPath ` set pre"
  proof
    assume "SocketPath f \<in> SocketPath ` set pre"
    then have "node_down net (SocketPath f) r w" using assms(3,4) by auto
    then obtain e s' where "proxy_to net (SocketPath f) r w (n_world n) = (Inl e, s')" unfolding node_down_def by blast
    with assms(5) show False by (metis Inl_Inr_False fst_conv)
  qed
  then have "SocketPath f \<notin> n_failed m" using m(1) assms(4) by blast
  moreover obtain s where "proxy_to net (SocketPath f) r w (n_world m) = (Inr w', s)" using assms(5) by (metis prod.collapse)
  ultimately show "fst (forward_loop net opts 0 (pre @ f # post) w r n) = Some w'" using m(2) by (simp add: Forward_def)
next
  from forward_loop_skips [OF assms(1-3), of 0 "[]"] show "fst (forward_loop net opts 0 pre w r n) = http_Error ''Service Unavailable'' 503 w"
    by auto
qed

definition two_nodes :: "unit network" where
  "two_nodes = \<lparr>proxy_to = (\<lambda>p r w s. (if p = ''/up'' then Inr (t_Write ''hi'' w)
       else Inl \<lparr>op_error = Some ''dial'', max_bytes_error = False\<rparr>, s)),
     call_mw = (\<lambda>p path hs host s. (Inl \<lparr>op_error = None, max_bytes_error = False\<rparr>, s)), parse_url = (\<lambda>_. True)\<rparr>"

theorem first_live_node_answers_witness:
  "fst (forward_loop two_nodes newOptions 0
      [\<lparr>ServiceName = ''s'', SocketPath = ''/gone'', Weight = 1\<rparr>, \<lparr>ServiceName = ''s'', SocketPath = ''/up'', Weight = 1\<rparr>]
      (newTrackedResponseWriter fresh_writer) (http_request (path_url ''/'' []) no_headers) \<lparr>n_failed = {}, n_reports = [], n_world = ()\<rparr>) =
   Some (t_Write ''hi'' (newTrackedResponseWriter fresh_writer))"
  using first_live_node_answers [of "http_request (path_url ''/'' []) no_headers" newOptions
      "[\<lparr>ServiceName = ''s'', SocketPath = ''/gone'', Weight = 1\<rparr>]" "\<lparr>n_failed = {}, n_reports = [], n_world = ()\<rparr>" two_nodes
      "newTrackedResponseWriter fresh_writer" "\<lparr>ServiceName = ''s'', SocketPath = ''/up'', Weight = 1\<rparr>"
      "t_Write ''hi'' (newTrackedResponseWriter fresh_writer)" "[]"]
  by (simp add: two_nodes_def node_down_def isSafeMethod_def http_request_def newOptions_def)

end
