(* ===== verification/Serving.thy ===== *)
theory Serving
  imports Generation Forwarding
begin

text \<open>
  \<open>internal/core/proxy\<close>: \<open>routing.go\<close>, \<open>middleware.go\<close>, \<open>resolve.go\<close> and \<open>proxy.go\<close>, what happens to one
  request. The fields of \<open>servingState\<close> are the record \<open>serving\<close>, with the registry and the nodes the request reads and
  changes; \<^const>\<open>None\<close> is a panic. What the proxy gets from elsewhere is the record \<open>env\<close>: the operations of
  an mmfg request, the hub that opens one, the network, and the loads and random numbers of the balancers.
\<close>

record ('m, 'w) env =
  e_out :: outside
  e_names :: "request \<Rightarrow> string list"
  e_mmfg :: "'m mmfg_request"
  e_hub :: "request \<Rightarrow> 'm option"
  e_net :: "'w network"
  e_load :: "forwarder \<Rightarrow> int"
  e_random :: "string \<Rightarrow> registry \<Rightarrow> nat \<times> nat"
  e_order :: "registry \<Rightarrow> string list"

record 'w serving =
  sv_w :: tracked
  sv_r :: request
  sv_temp :: response_writer
  sv_ip :: "interpolator option"
  sv_options :: route_options
  sv_registry :: registry
  sv_nodes :: "'w nodes"
  sv_raw :: string
  sv_final :: string
  sv_static :: bool

definition sv_error :: "string \<Rightarrow> int \<Rightarrow> 'w serving \<Rightarrow> 'w serving option" where
  "sv_error msg code sv = map_option (\<lambda>w. sv\<lparr>sv_w := w\<rparr>) (http_Error msg code (sv_w sv))"

definition forwarders_of :: "('m, 'w) env \<Rightarrow> string \<Rightarrow> registry \<Rightarrow> (forwarder list \<times> registry) option" where
  "forwarders_of env svc reg = (let (i, j) = e_random env svc reg in GetForwarders (e_load env) i j svc reg)"

subsection \<open>\<open>routing.go\<close>\<close>

definition lookup_key :: "request \<Rightarrow> string" where
  "lookup_key r =
     (let host = (case SplitHostPort (r_host r) of None \<Rightarrow> r_host r | Some (h, _) \<Rightarrow> h)
      in ReverseHost (host @ Path (r_url r)))"

text \<open>The node, or none after the 404; a search that panics or does not end is \<^const>\<open>None\<close>.\<close>

definition lookupRoute :: "route_tree \<Rightarrow> 'w serving \<Rightarrow> (route_node option \<times> 'w serving) option" where
  "lookupRoute t sv =
     (case Search t (lookup_key (sv_r sv)) of
        Some (Found n) \<Rightarrow> Some (Some n, sv)
      | Some NotFound \<Rightarrow> map_option (Pair None) (sv_error ''Resource Not Found'' 404 sv)
      | _ \<Rightarrow> None)"

definition method_allowed :: "u16 \<Rightarrow> string \<Rightarrow> bool" where
  "method_allowed methods m =
     (let methodBit = (if HTTPMethodMap m = 0 then MethodAny else HTTPMethodMap m) in methods AND methodBit \<noteq> 0)"

definition validateMethod :: "route_node \<Rightarrow> 'w serving \<Rightarrow> (bool \<times> 'w serving) option" where
  "validateMethod n sv =
     (if method_allowed (Methods n) (r_method (sv_r sv)) then Some (True, sv)
      else map_option (Pair False) (sv_error ''Method Not Allowed'' 405 sv))"

subsection \<open>\<open>middleware.go\<close>\<close>

text \<open>An expression with its tags replaced; the interpolator is made the first time one is needed.\<close>

definition replace_tags :: "('m, 'w) env \<Rightarrow> string \<times> nat list \<Rightarrow> 'w serving \<Rightarrow> (string \<times> 'w serving) option" where
  "replace_tags env a sv =
     (if snd a = [] then Some (fst a, sv)
      else let ip = (case sv_ip sv of Some ip \<Rightarrow> ip | None \<Rightarrow> New_interpolator (ParseAddr (e_out env)) (sv_r sv))
           in map_option (\<lambda>expr. (expr, sv\<lparr>sv_ip := Some ip\<rparr>)) (Replace (context_of ip (sv_r sv)) (fst a) (snd a)))"

text \<open>The tracked writer after the writer inside it became \<open>d\<close> by calls that went through it.\<close>

definition track :: "http_writer \<Rightarrow> tracked \<Rightarrow> tracked" where
  "track d w = w\<lparr>inner := d, t_status := (case hw_status d of None \<Rightarrow> t_status w | Some c \<Rightarrow> int c),
     t_size := t_size w + (length (hw_body d) - length (hw_body (inner w)))\<rparr>"

text \<open>The response a middleware left: what passed through is sent already, the rest by \<open>WriteTo\<close>.\<close>

definition send_temp :: "'w serving \<Rightarrow> 'w serving option" where
  "send_temp sv =
     (if isPassthrough (sv_temp sv) then
        Some (case downstream (sv_temp sv) of None \<Rightarrow> sv | Some d \<Rightarrow> sv\<lparr>sv_w := track d (sv_w sv)\<rparr>)
      else map_option (\<lambda>(d, t). sv\<lparr>sv_w := track d (sv_w sv), sv_temp := t\<rparr>) (WriteTo (inner (sv_w sv)) (sv_temp sv)))"

text \<open>What one middleware comes to: whether the request is answered, the mmfg request, and the state.\<close>

type_synonym ('m, 'w) outcome = "(bool \<times> 'm option \<times> 'w serving) option"

definition internal_error :: "'m option \<Rightarrow> 'w serving \<Rightarrow> ('m, 'w) outcome" where
  "internal_error mr sv = map_option (\<lambda>sv. (True, mr, sv)) (sv_error ''Internal Server Error'' 500 sv)"

definition run_mmfg :: "('m, 'w) env \<Rightarrow> string \<Rightarrow> 'm option \<Rightarrow> 'w serving \<Rightarrow> ('m, 'w) outcome" where
  "run_mmfg env expr mr sv =
     (case (case mr of Some m \<Rightarrow> Some m | None \<Rightarrow> e_hub env (sv_r sv)) of
        None \<Rightarrow> internal_error mr sv
      | Some m \<Rightarrow>
          (case ParseNode expr of
             None \<Rightarrow> internal_error (Some m) sv
           | Some node \<Rightarrow>
               (case m_Next (e_mmfg env) node m of
                  (None, m) \<Rightarrow> internal_error (Some m) sv
                | (Some selfRespond, m) \<Rightarrow>
                    if \<not> selfRespond then Some (False, Some m, sv)
                    else let (ok, w) = m_AcceptSelfResponse (e_mmfg env) m (sv_w sv); sv = sv\<lparr>sv_w := w\<rparr>
                         in if ok then Some (True, Some m, sv) else internal_error (Some m) sv)))"

definition exchange_of :: "'m option \<Rightarrow> 'w serving \<Rightarrow> 'm exchange" where
  "exchange_of mr sv = \<lparr>x_writer = sv_temp sv, x_request = sv_r sv, x_mmfg = mr, x_options = sv_options sv\<rparr>"

definition absorb :: "'m exchange \<Rightarrow> 'w serving \<Rightarrow> 'w serving" where
  "absorb x sv = sv\<lparr>sv_temp := x_writer x, sv_r := x_request x, sv_options := x_options x\<rparr>"

definition passed :: "'m option \<Rightarrow> 'w serving \<Rightarrow> ('m, 'w) outcome" where
  "passed mr sv = Some (False, mr, sv\<lparr>sv_temp := Reset (sv_temp sv)\<rparr>)"

definition call_builtin :: "('m, 'w) env \<Rightarrow> 'm handler \<Rightarrow> 'm option \<Rightarrow> 'w serving \<Rightarrow> ('m, 'w) outcome" where
  "call_builtin env h mr sv =
     (case h (e_mmfg env) (exchange_of mr sv) of
        None \<Rightarrow> None
      | Some x \<Rightarrow>
          let sv = absorb x sv
          in if GetCode (sv_temp sv) \<noteq> 200 then map_option (\<lambda>sv. (True, x_mmfg x, sv)) (send_temp sv)
             else passed (x_mmfg x) sv)"

definition run_builtin :: "('m, 'w) env \<Rightarrow> 'm generation \<Rightarrow> string \<Rightarrow> bool \<Rightarrow> 'm option \<Rightarrow> 'w serving \<Rightarrow> ('m, 'w) outcome" where
  "run_builtin env g expr isStatic mr sv =
     (case (if isStatic then g_builtins g expr else buildBuiltinHandler (e_out env) expr) of
        None \<Rightarrow> internal_error mr sv
      | Some h \<Rightarrow>
          (case mr of
             None \<Rightarrow> call_builtin env h None sv
           | Some m \<Rightarrow>
               if RequiresRealBody (fst (cut_at expr (CHR ''(''))) then
                 (let (ok, r) = m_Apply (e_mmfg env) m (sv_r sv); sv = sv\<lparr>sv_r := r\<rparr>
                  in if ok then call_builtin env h None sv else internal_error mr sv)
               else call_builtin env h mr sv))"

datatype verdict = Approved | Unapproved | Errored | Blocked

fun try_middlewares ::
  "('m, 'w) env \<Rightarrow> external_mw \<Rightarrow> forwarder list \<Rightarrow> 'm exchange \<Rightarrow> 'w nodes \<Rightarrow> ((verdict \<times> 'm exchange) \<times> 'w nodes) option" where
  "try_middlewares env ext [] x n = Some ((Unapproved, x), n)"
| "try_middlewares env ext (f # fs) x n =
     (case ForwardMiddleware (e_net env) (e_mmfg env) f (MwPath ext) (AllowedHeaders ext) x n of
        None \<Rightarrow> None
      | Some ((None, x), n) \<Rightarrow> Some ((Approved, x), n)
      | Some ((Some err, x), n) \<Rightarrow>
          if err = NodeUnavailable \<or> err = NodeFailed then try_middlewares env ext fs x n
          else if err = ServerError then Some ((Errored, x), n)
          else Some ((Blocked, x), n))"

definition no_external :: external_mw where
  "no_external = \<lparr>FuncName = [], MwPath = [], AllowedHeaders = []\<rparr>"

definition run_external :: "('m, 'w) env \<Rightarrow> 'm generation \<Rightarrow> string \<Rightarrow> bool \<Rightarrow> 'm option \<Rightarrow> 'w serving \<Rightarrow> ('m, 'w) outcome" where
  "run_external env g expr isStatic mr sv = do {
     ext \<leftarrow> (if isStatic then Some (case g_externals g expr of Some e \<Rightarrow> e | None \<Rightarrow> no_external) else buildExternalMW expr);
     (fs, reg) \<leftarrow> forwarders_of env (FuncName ext) (sv_registry sv);
     ((v, x), n) \<leftarrow> try_middlewares env ext fs (exchange_of mr sv) (sv_nodes sv);
     let sv = (absorb x sv)\<lparr>sv_registry := reg, sv_nodes := n\<rparr>
     in case v of
          Approved \<Rightarrow> passed (x_mmfg x) sv
        | Unapproved \<Rightarrow> map_option (\<lambda>sv. (True, x_mmfg x, sv)) (sv_error ''Service Unavailable'' 503 sv)
        | Errored \<Rightarrow> internal_error (x_mmfg x) sv
        | Blocked \<Rightarrow> map_option (\<lambda>sv. (True, x_mmfg x, sv)) (send_temp sv)
   }"

definition run_middleware :: "('m, 'w) env \<Rightarrow> 'm generation \<Rightarrow> string \<times> nat list \<Rightarrow> 'm option \<Rightarrow> 'w serving \<Rightarrow> ('m, 'w) outcome" where
  "run_middleware env g a mr sv = do {
     (expr, sv) \<leftarrow> replace_tags env a sv;
     let sv = sv\<lparr>sv_temp := Setup (inner (sv_w sv)) (sv_temp sv)\<rparr>; isStatic = (snd a = [])
     in if has_prefix expr DirectivePrefix then run_mmfg env expr mr sv
        else if has_prefix expr ''$'' then run_builtin env g expr isStatic mr sv
        else run_external env g expr isStatic mr sv
   }"

text \<open>The loop over the middlewares of the action at \<open>base\<close>, and the \<open>Apply\<close> after it.\<close>

fun run_chain :: "('m, 'w) env \<Rightarrow> 'm generation \<Rightarrow> nat \<Rightarrow> nat list \<Rightarrow> 'm option \<Rightarrow> 'w serving \<Rightarrow> (bool \<times> 'w serving) option" where
  "run_chain env g base [] mr sv =
     (case mr of
        None \<Rightarrow> Some (False, sv)
      | Some m \<Rightarrow>
          let (ok, r) = m_Apply (e_mmfg env) m (sv_r sv); sv = sv\<lparr>sv_r := r\<rparr>
          in if ok then Some (False, sv) else map_option (Pair True) (sv_error ''Internal Server Error'' 500 sv))"
| "run_chain env g base (i # is) mr sv = do {
     mwMetaIndex \<leftarrow> idx (ActionMetadata (g_tree g)) (base + i);
     a \<leftarrow> read_action (g_tree g) mwMetaIndex;
     (done, mr, sv) \<leftarrow> run_middleware env g a mr sv;
     if done then Some (True, sv) else run_chain env g base is mr sv
   }"

definition runMiddlewareChain :: "('m, 'w) env \<Rightarrow> 'm generation \<Rightarrow> route_node \<Rightarrow> 'w serving \<Rightarrow> (bool \<times> 'w serving) option" where
  "runMiddlewareChain env g n sv = do {
     mwCount \<leftarrow> idx (ActionMetadata (g_tree g)) (ActionIndex n + 1);
     if mwCount = 0 then Some (False, sv) else run_chain env g (ActionIndex n + 2) [0..<mwCount] None sv
   }"

subsection \<open>\<open>resolve.go\<close>\<close>

definition resolveSpecialVirtualService :: "('m, 'w) env \<Rightarrow> registry \<Rightarrow> string \<Rightarrow> http_handler option" where
  "resolveSpecialVirtualService env reg expr =
     (if expr = ''$services'' then
        Some (Discovery (e_out env) (List.map_filter (\<lambda>k. map_option (Pair k) (GetState reg k)) (e_order env reg)))
      else if expr \<noteq> ''$ping'' \<and> \<not> has_prefix expr ''$ping('' then None
      else case ParseDirective expr of
        None \<Rightarrow> None
      | Some (_, args) \<Rightarrow>
          let targetSvc = (if args \<noteq> [] then args ! 0 else []) in Some (Ping (e_out env) targetSvc (GetNodes targetSvc reg)))"

definition resolveServiceName :: "('m, 'w) env \<Rightarrow> route_tree \<Rightarrow> route_node \<Rightarrow> 'w serving \<Rightarrow> 'w serving option" where
  "resolveServiceName env t n sv = do {
     serviceMetadataIndex \<leftarrow> idx (ActionMetadata t) (ActionIndex n);
     a \<leftarrow> read_action t serviceMetadataIndex;
     (final, sv) \<leftarrow> replace_tags env a sv;
     Some (sv\<lparr>sv_raw := fst a, sv_final := final, sv_static := (snd a = [])\<rparr>)
   }"

definition serveVirtualService :: "('m, 'w) env \<Rightarrow> 'm generation \<Rightarrow> 'w serving \<Rightarrow> (bool \<times> 'w serving) option" where
  "serveVirtualService env g sv =
     (if \<not> has_prefix (sv_final sv) ''$'' then Some (False, sv)
      else case (case resolveSpecialVirtualService env (sv_registry sv) (sv_final sv) of
                   Some h \<Rightarrow> Some h
                 | None \<Rightarrow> if sv_static sv then g_virtuals g (sv_final sv)
                           else buildVirtualHandler (e_out env) (e_names env) (sv_final sv)) of
        None \<Rightarrow> map_option (Pair True) (sv_error ''Internal Server Error'' 500 sv)
      | Some h \<Rightarrow> map_option (\<lambda>w. (True, sv\<lparr>sv_w := w\<rparr>)) (h (sv_r sv) (sv_w sv)))"

subsection \<open>\<open>proxy.go\<close>\<close>

definition new_serving :: "http_writer \<Rightarrow> request \<Rightarrow> registry \<Rightarrow> 'w nodes \<Rightarrow> 'w serving" where
  "new_serving w r reg n =
     \<lparr>sv_w = newTrackedResponseWriter w, sv_r = r, sv_temp = newTempResponseWriter, sv_ip = None, sv_options = newOptions,
      sv_registry = reg, sv_nodes = n, sv_raw = [], sv_final = [], sv_static = False\<rparr>"

definition forward_request :: "('m, 'w) env \<Rightarrow> 'w serving \<Rightarrow> 'w serving option" where
  "forward_request env sv =
     (let (i, j) = e_random env (sv_final sv) (sv_registry sv)
      in map_option (\<lambda>(w, reg, n). sv\<lparr>sv_w := w, sv_registry := reg, sv_nodes := n\<rparr>)
           (forwardToBackend (e_net env) (e_load env) i j (sv_final sv) (sv_options sv) (sv_w sv) (sv_r sv)
              (sv_registry sv, sv_nodes sv)))"

text \<open>What follows the lookup for a node, and \<open>ServeHTTP\<close>, with the node it found.\<close>

definition serve_node :: "('m, 'w) env \<Rightarrow> 'm generation \<Rightarrow> route_node \<Rightarrow> 'w serving \<Rightarrow> 'w serving option" where
  "serve_node env g n sv = do {
     (ok, sv) \<leftarrow> validateMethod n sv;
     if \<not> ok then Some sv
     else do {
       (done, sv) \<leftarrow> runMiddlewareChain env g n sv;
       if done then Some sv
       else do {
         sv \<leftarrow> resolveServiceName env (g_tree g) n sv;
         (served, sv) \<leftarrow> serveVirtualService env g sv;
         if served then Some sv else forward_request env sv
       }
     }
   }"

definition ServeHTTP :: "('m, 'w) env \<Rightarrow> 'm generation \<Rightarrow> http_writer \<Rightarrow> request \<Rightarrow> registry \<Rightarrow> 'w nodes \<Rightarrow> (route_node option \<times> 'w serving) option" where
  "ServeHTTP env g w r reg nodes = do {
     (found, sv) \<leftarrow> lookupRoute (g_tree g) (new_serving w r reg nodes);
     case found of
       None \<Rightarrow> Some (None, sv)
     | Some n \<Rightarrow> map_option (Pair (Some n)) (serve_node env g n sv)
   }"

text \<open>The label of a request for the metrics, and whether its route wants none (see \<open>Metrics\<close>).\<close>

definition metricsRouteLabel :: "route_node option \<Rightarrow> 'w serving \<Rightarrow> string" where
  "metricsRouteLabel found sv = (if found = None then ''404'' else if sv_raw sv \<noteq> [] then sv_raw sv else ''unmatched'')"

definition no_metrics :: "route_node option \<Rightarrow> bool" where
  "no_metrics found = (case found of None \<Rightarrow> False | Some n \<Rightarrow> Tags n AND NoMetricsTag \<noteq> 0)"

end
