(* ===== verification/Serving_Correct.thy ===== *)
theory Serving_Correct
  imports Serving
begin

text \<open>
  Serving refines a reference that has no route tree and no caches: the raw route that wins the lookup, its
  middlewares one after the other, each expression with its tags substituted and its handler built on
  the spot, and then its service.
\<close>

subsection \<open>The reference\<close>

definition spec_expr :: "('m, 'w) env \<Rightarrow> string \<Rightarrow> 'w serving \<Rightarrow> string \<times> 'w serving" where
  "spec_expr env e sv =
     (if Analyze e = [] then (e, sv)
      else let ip = (case sv_ip sv of Some ip \<Rightarrow> ip | None \<Rightarrow> New_interpolator (ParseAddr (e_out env)) (sv_r sv))
           in (interpolated (context_of ip (sv_r sv)) e, sv\<lparr>sv_ip := Some ip\<rparr>))"

definition spec_middleware :: "('m, 'w) env \<Rightarrow> string \<Rightarrow> 'm option \<Rightarrow> 'w serving \<Rightarrow> ('m, 'w) outcome" where
  "spec_middleware env e mr sv =
     (let (expr, sv) = spec_expr env e sv; sv = sv\<lparr>sv_temp := Setup (inner (sv_w sv)) (sv_temp sv)\<rparr>;
          g = new_generation empty_tree
      in if has_prefix expr DirectivePrefix then run_mmfg env expr mr sv
         else if has_prefix expr ''$'' then run_builtin env g expr False mr sv
         else run_external env g expr False mr sv)"

fun spec_chain :: "('m, 'w) env \<Rightarrow> string list \<Rightarrow> 'm option \<Rightarrow> 'w serving \<Rightarrow> (bool \<times> 'w serving) option" where
  "spec_chain env [] mr sv = run_chain env (new_generation empty_tree) 0 [] mr sv"
| "spec_chain env (e # es) mr sv = do {
     (done, mr, sv) \<leftarrow> spec_middleware env e mr sv;
     if done then Some (True, sv) else spec_chain env es mr sv
   }"

definition spec_serve :: "('m, 'w) env \<Rightarrow> raw_node \<Rightarrow> 'w serving \<Rightarrow> 'w serving option" where
  "spec_serve env raw sv =
     (if \<not> method_allowed (parseMethods (RawMethods raw)) (r_method (sv_r sv)) then sv_error ''Method Not Allowed'' 405 sv
      else do {
        (done, sv) \<leftarrow> spec_chain env (Middlewares raw) None sv;
        if done then Some sv
        else do {
          let (final, sv) = spec_expr env (Service raw) sv;
          let sv = sv\<lparr>sv_raw := Service raw, sv_final := final, sv_static := (Analyze (Service raw) = [])\<rparr>;
          (served, sv) \<leftarrow> serveVirtualService env
             (new_generation empty_tree\<lparr>g_virtuals := buildVirtualHandler (e_out env) (e_names env)\<rparr>) sv;
          if served then Some sv else forward_request env sv
        }
      })"

subsection \<open>Expressions and caches\<close>

lemma replace_tags_spec: "replace_tags env (e, Analyze e) sv = Some (spec_expr env e sv)"
proof -
  have "Analyze e \<noteq> [] \<Longrightarrow> Replace rc e (Analyze e) = Some (interpolated rc e)" for rc
    using replace_analyzed [of 0 "[]" rc e] by (simp add: Replace_def Analyze_def)
  then show ?thesis by (simp add: replace_tags_def spec_expr_def Let_def)
qed

lemma spec_expr_static: "Analyze e = [] \<Longrightarrow> spec_expr env e sv = (e, sv)"
  by (simp add: spec_expr_def)

lemma fresh_builtin: "run_builtin env g expr False mr sv = run_builtin env g' expr False mr sv"
  by (simp add: run_builtin_def)

lemma fresh_external: "run_external env g expr False mr sv = run_external env g' expr False mr sv"
  by (simp add: run_external_def)

lemma cached_builtin:
  assumes "gen_sound (e_out env) names t g" and "mw_cached (e_out env) (e, []) g" and "has_prefix e ''$''"
  shows "run_builtin env g e True mr sv = run_builtin env g e False mr sv"
proof -
  have "g_builtins g e = buildBuiltinHandler (e_out env) e"
  proof (cases "g_builtins g e")
    case None
    with assms(2,3) show ?thesis by (cases "buildBuiltinHandler (e_out env) e :: 'a handler option") (auto simp: mw_cached_def)
  qed (use assms(1) in \<open>simp add: gen_sound_def\<close>)
  then show ?thesis by (simp add: run_builtin_def)
qed

lemma cached_external:
  assumes "gen_sound (e_out env) names t g" and "mw_cached (e_out env) (e, []) g" and "\<not> has_prefix e ''$''"
  shows "run_external env g e True mr sv = run_external env g e False mr sv"
proof -
  from assms(2,3) obtain x where "g_externals g e = Some x" by (auto simp: mw_cached_def)
  with assms(1) show ?thesis by (simp add: run_external_def gen_sound_def)
qed

lemma run_middleware_spec:
  assumes "gen_sound (e_out env) names t g" and "mw_cached (e_out env) (e, Analyze e) g"
  shows "run_middleware env g (e, Analyze e) mr sv = spec_middleware env e mr sv"
proof (cases "Analyze e = []")
  case True
  with assms(2) have c: "mw_cached (e_out env) (e, []) g" by simp
  show ?thesis
    using True cached_builtin [OF assms(1) c] cached_external [OF assms(1) c]
      fresh_builtin [of env g _ _ _ "new_generation empty_tree"] fresh_external [of env g _ _ _ "new_generation empty_tree"]
    by (simp add: run_middleware_def spec_middleware_def replace_tags_def spec_expr_static Let_def)
next
  case False
  then show ?thesis
    using fresh_builtin [of env g _ _ _ "new_generation empty_tree"] fresh_external [of env g _ _ _ "new_generation empty_tree"]
    by (simp add: run_middleware_def spec_middleware_def replace_tags_spec Let_def split: prod.splits)
qed

lemma run_chain_spec:
  assumes "list_all2 (\<lambda>i e. \<exists>mi. idx (ActionMetadata (g_tree g)) (base + i) = Some mi \<and>
      read_action (g_tree g) mi = Some (e, Analyze e)) is es"
    and "gen_sound (e_out env) names t g" and "\<forall>e \<in> set es. mw_cached (e_out env) (e, Analyze e) g"
  shows "run_chain env g base is mr sv = spec_chain env es mr sv"
  using assms(1,3)
proof (induction "is" es arbitrary: mr sv rule: list_all2_induct)
  case (Cons i "is" e es)
  from Cons.prems have "mw_cached (e_out env) (e, Analyze e) g" by simp
  note m = run_middleware_spec [OF assms(2) this]
  have "run_chain env g base is mr sv = spec_chain env es mr sv" for mr sv using Cons by simp
  with Cons.hyps(1) show ?case by (cases "spec_middleware env e mr sv") (auto simp: m)
qed (simp split: option.splits)

lemma runMiddlewareChain_spec:
  assumes "serves t n raw" and "g_tree g = t" and "gen_sound (e_out env) (e_names env) t g"
    and "node_cached (e_out env) (e_names env) t n g" and "Methods n \<noteq> 0"
  shows "runMiddlewareChain env g n sv = spec_chain env (Middlewares raw) None sv"
proof -
  let ?mws = "map (\<lambda>a. (a, Analyze a)) (Middlewares raw)"
  have r: "read_route t (ActionIndex n) = Some ((Service raw, Analyze (Service raw)), ?mws)"
    using assms(1) by (simp add: serves_def)
  then obtain svcID mwIDs where "idx (ActionMetadata t) (ActionIndex n) = Some svcID"
    and p: "idx (ActionMetadata t) (ActionIndex n + 1) = Some (length mwIDs)"
      "\<forall>j < length mwIDs. idx (ActionMetadata t) (ActionIndex n + 2 + j) = Some (mwIDs ! j)"
    and "read_action t svcID = Some (Service raw, Analyze (Service raw))" and q: "map (read_action t) mwIDs = map Some ?mws"
    by (rule read_route_parts)
  have l: "length mwIDs = length (Middlewares raw)" using q by (metis length_map)
  have a: "read_action t (mwIDs ! j) = Some (Middlewares raw ! j, Analyze (Middlewares raw ! j))" if "j < length mwIDs" for j
  proof -
    have "map (read_action t) mwIDs ! j = map Some ?mws ! j" using q by simp
    with that l show ?thesis by simp
  qed
  have "list_all2 (\<lambda>i e. \<exists>mi. idx (ActionMetadata t) (ActionIndex n + 2 + i) = Some mi \<and> read_action t mi = Some (e, Analyze e))
      [0..<length mwIDs] (Middlewares raw)"
    using p(2) a l by (intro list_all2_all_nthI) auto
  moreover have "\<forall>e \<in> set (Middlewares raw). mw_cached (e_out env) (e, Analyze e) g"
    using assms(4,5) r by (auto simp: node_cached_def)
  ultimately have "run_chain env g (ActionIndex n + 2) [0..<length mwIDs] None sv = spec_chain env (Middlewares raw) None sv"
    using run_chain_spec [OF _ assms(3)] assms(2) by blast
  moreover have "length mwIDs = 0 \<Longrightarrow> spec_chain env (Middlewares raw) None sv = Some (False, sv)" using l by simp
  ultimately show ?thesis using p(1) assms(2) by (auto simp: runMiddlewareChain_def)
qed

lemma serveVirtualService_spec:
  assumes "gen_sound (e_out env) (e_names env) t g" and "sv_static sv \<Longrightarrow> svc_cached (e_out env) (e_names env) (sv_final sv, []) g"
  shows "serveVirtualService env g sv = serveVirtualService env
      (new_generation empty_tree\<lparr>g_virtuals := buildVirtualHandler (e_out env) (e_names env)\<rparr>) sv"
proof -
  have "g_virtuals g (sv_final sv) = buildVirtualHandler (e_out env) (e_names env) (sv_final sv)"
    if "sv_static sv" "has_prefix (sv_final sv) ''$''"
  proof (cases "g_virtuals g (sv_final sv)")
    case None
    with assms(2) that show ?thesis by (auto simp: svc_cached_def)
  qed (use assms(1) in \<open>simp add: gen_sound_def\<close>)
  then show ?thesis
    by (cases "sv_static sv \<and> has_prefix (sv_final sv) ''$''") (auto simp: serveVirtualService_def split: option.splits)
qed

subsection \<open>Serving a request\<close>

lemma resolveServiceName_spec:
  assumes "serves t n raw"
  shows "resolveServiceName env t n sv = (let (final, sv) = spec_expr env (Service raw) sv
    in Some (sv\<lparr>sv_raw := Service raw, sv_final := final, sv_static := (Analyze (Service raw) = [])\<rparr>))"
proof -
  have r: "read_route t (ActionIndex n) = Some ((Service raw, Analyze (Service raw)), map (\<lambda>a. (a, Analyze a)) (Middlewares raw))"
    using assms by (simp add: serves_def)
  then obtain svcID mwIDs where p: "idx (ActionMetadata t) (ActionIndex n) = Some svcID"
    and "idx (ActionMetadata t) (ActionIndex n + 1) = Some (length mwIDs)"
      "\<forall>j < length mwIDs. idx (ActionMetadata t) (ActionIndex n + 2 + j) = Some (mwIDs ! j)"
    and q: "read_action t svcID = Some (Service raw, Analyze (Service raw))"
    and "map (read_action t) mwIDs = map Some (map (\<lambda>a. (a, Analyze a)) (Middlewares raw))"
    by (rule read_route_parts)
  from p q show ?thesis by (simp add: resolveServiceName_def replace_tags_spec Let_def split: prod.splits)
qed

lemma serve_node_spec:
  assumes "serves t n raw" and "g_tree g = t" and "gen_sound (e_out env) (e_names env) t g"
    and "node_cached (e_out env) (e_names env) t n g" and "parseMethods (RawMethods raw) \<noteq> 0"
  shows "serve_node env g n sv = spec_serve env raw sv"
proof -
  have n: "Methods n = parseMethods (RawMethods raw)" using assms(1) by (simp add: serves_def)
  then have n0: "Methods n \<noteq> 0" using assms(5) by simp
  have c: "svc_cached (e_out env) (e_names env) (Service raw, Analyze (Service raw)) g"
    using assms(1,4) n0 by (simp add: serves_def node_cached_def)
  let ?g = "new_generation empty_tree\<lparr>g_virtuals := buildVirtualHandler (e_out env) (e_names env)\<rparr>"
  have v: "serveVirtualService env g (sv\<lparr>sv_raw := Service raw, sv_final := final, sv_static := (Analyze (Service raw) = [])\<rparr>) =
      serveVirtualService env ?g (sv\<lparr>sv_raw := Service raw, sv_final := final, sv_static := (Analyze (Service raw) = [])\<rparr>)"
    if "spec_expr env (Service raw) sv0 = (final, sv)" for sv0 sv final
    by (rule serveVirtualService_spec [OF assms(3)]) (use that c in \<open>auto simp: spec_expr_def\<close>)
  have s: "do {
       sv \<leftarrow> resolveServiceName env t n sv;
       (served, sv) \<leftarrow> serveVirtualService env g sv;
       if served then Some sv else forward_request env sv
     } = do {
       let (final, sv) = spec_expr env (Service raw) sv;
       let sv = sv\<lparr>sv_raw := Service raw, sv_final := final, sv_static := (Analyze (Service raw) = [])\<rparr>;
       (served, sv) \<leftarrow> serveVirtualService env ?g sv;
       if served then Some sv else forward_request env sv
     }" for sv
    unfolding resolveServiceName_spec [OF assms(1)] using v by (auto split: prod.splits)
  show ?thesis
  proof (cases "method_allowed (parseMethods (RawMethods raw)) (r_method (sv_r sv))")
    case True
    then have "serve_node env g n sv = do {
        (done, sv) \<leftarrow> runMiddlewareChain env g n sv;
        if done then Some sv
        else do {
          sv \<leftarrow> resolveServiceName env t n sv;
          (served, sv) \<leftarrow> serveVirtualService env g sv;
          if served then Some sv else forward_request env sv
        }
      }" unfolding serve_node_def validateMethod_def assms(2) n by simp
    then show ?thesis
      unfolding runMiddlewareChain_spec [OF assms(1-4) n0] s using True by (simp add: spec_serve_def)
  next
    case False
    then show ?thesis
      using n by (cases "sv_error ''Method Not Allowed'' 405 sv") (auto simp: serve_node_def validateMethod_def spec_serve_def)
  qed
qed

lemma Build_methods: "Build raws = Some (Some t) \<Longrightarrow> text_routes raws \<Longrightarrow> raw \<in> set raws \<Longrightarrow> parseMethods (RawMethods raw) \<noteq> 0"
  by (rule Build_parts) auto

lemma serve_table:
  assumes "Build raws = Some (Some t)" and "text_routes raws" and "fits t" and "\<forall>raw \<in> set raws. URL raw \<noteq> []"
    and "InitCaches (e_out env) (e_names env) (new_generation t) = Some g"
    and "lookup_key r \<noteq> []" and "\<not> is_wild (hd (lookup_key r))"
  shows "ServeHTTP env g w r reg nodes = map_option (\<lambda>w'. (None, (new_serving w r reg nodes)\<lparr>sv_w := w'\<rparr>))
      (http_Error ''Resource Not Found'' 404 (newTrackedResponseWriter w)) \<or>
    (\<exists>n raw. winner raws (lookup_path raw) = Some raw \<and> matches (lookup_path raw) (lookup_key r) \<and>
      ServeHTTP env g w r reg nodes = map_option (Pair (Some n)) (spec_serve env raw (new_serving w r reg nodes)))"
proof -
  let ?sv = "new_serving w r reg nodes"
  have "g_tree (new_generation t) = t" by (simp add: new_generation_def)
  note ok = InitCaches_ok [OF assms(5) this]
  then have t: "g_tree g = t" by (simp add: gen_sound_def)
  have sv_r: "sv_r ?sv = r" "sv_w ?sv = newTrackedResponseWriter w" by (simp_all add: new_serving_def)
  have l: "lookupRoute t ?sv = (case Search t (lookup_key r) of Some (Found n) \<Rightarrow> Some (Some n, ?sv)
      | Some NotFound \<Rightarrow> map_option (Pair None) (sv_error ''Resource Not Found'' 404 ?sv) | _ \<Rightarrow> None)"
    by (simp add: lookupRoute_def sv_r)
  from Search_finds [OF assms(1-4,6,7)] consider "Search t (lookup_key r) = Some NotFound"
    | n raw where "Search t (lookup_key r) = Some (Found n)" "winner raws (lookup_path raw) = Some raw"
        "matches (lookup_path raw) (lookup_key r)" "serves t n raw"
    by blast
  then show ?thesis
  proof cases
    case 1
    then have "ServeHTTP env g w r reg nodes = map_option (\<lambda>w'. (None, ?sv\<lparr>sv_w := w'\<rparr>))
        (http_Error ''Resource Not Found'' 404 (newTrackedResponseWriter w))"
      using l t by (cases "http_Error ''Resource Not Found'' 404 (newTrackedResponseWriter w)")
        (auto simp: ServeHTTP_def sv_error_def sv_r)
    then show ?thesis by blast
  next
    case 2
    from 2(2) have "raw \<in> set raws" by (auto dest: winner_Some)
    then have m: "parseMethods (RawMethods raw) \<noteq> 0" using Build_methods [OF assms(1,2)] by blast
    have "node_cached (e_out env) (e_names env) t n g" using ok(2) Search_pool [OF 2(1)] by blast
    from serve_node_spec [OF 2(4) t ok(1) this m] 2(1) l t
    have "ServeHTTP env g w r reg nodes = map_option (Pair (Some n)) (spec_serve env raw ?sv)"
      by (simp add: ServeHTTP_def)
    with 2(2,3) show ?thesis by blast
  qed
qed

text \<open>C4. A table that builds and whose caches initialise serves every request as the reference does: with 404 when
  nothing is found, and otherwise by the methods, middlewares and service of a raw route that matches and
  that no later one replaced, every expression with its tags substituted and its handler built afresh.\<close>

theorem ServeHTTP_refines:
  assumes "Build raws = Some (Some t)" and "text_routes raws" and "fits t" and "\<forall>raw \<in> set raws. URL raw \<noteq> []"
    and "InitCaches (e_out env) (e_names env) (new_generation t) = Some g"
    and "lookup_key r \<noteq> []" and "\<not> is_wild (hd (lookup_key r))"
  shows "ServeHTTP env g w r reg nodes = map_option (\<lambda>w'. (None, (new_serving w r reg nodes)\<lparr>sv_w := w'\<rparr>))
      (http_Error ''Resource Not Found'' 404 (newTrackedResponseWriter w)) \<or>
    (\<exists>n raw. winner raws (lookup_path raw) = Some raw \<and> matches (lookup_path raw) (lookup_key r) \<and>
      ServeHTTP env g w r reg nodes = map_option (Pair (Some n)) (spec_serve env raw (new_serving w r reg nodes)))"
  using assms by (rule serve_table)

definition ok_route :: raw_node where
  "ok_route = \<lparr>URL = ''h/x'', Service = ''$ok'', Middlewares = [], RawMethods = ''GET'', RawTags = []\<rparr>"

definition plain_env :: "(unit, unit) env" where
  "plain_env = \<lparr>e_out = no_outside, e_names = (\<lambda>_. []),
     e_mmfg = \<lparr>m_URL = (\<lambda>_. None), m_SetURL = (\<lambda>_ m. (False, m)), m_Header = (\<lambda>_ _. None), m_UpdateHeader = (\<lambda>_ _ m. (False, m)),
       m_DeleteHeader = (\<lambda>_ m. (False, m)), m_CloneHeaders = (\<lambda>_. None), m_Next = (\<lambda>_ m. (None, m)), m_Apply = (\<lambda>_ r. (True, r)),
       m_AcceptSelfResponse = (\<lambda>_ w. (True, w))\<rparr>,
     e_hub = (\<lambda>_. None), e_net = two_nodes, e_load = (\<lambda>_. 0), e_random = (\<lambda>_ _. (0, 0)), e_order = (\<lambda>_. [])\<rparr>"

theorem ServeHTTP_refines_witness:
  "\<exists>t g n raw. Build [ok_route] = Some (Some t) \<and> InitCaches (e_out plain_env) (e_names plain_env) (new_generation t) = Some g \<and>
     winner [ok_route] (lookup_path raw) = Some raw \<and>
     ServeHTTP plain_env g fresh_writer (http_request (path_url ''/x'' []) no_headers) NewRegistry \<lparr>n_failed = {}, n_reports = [], n_world = ()\<rparr> =
       map_option (Pair (Some n)) (spec_serve plain_env raw (new_serving fresh_writer (http_request (path_url ''/x'' []) no_headers) NewRegistry
         \<lparr>n_failed = {}, n_reports = [], n_world = ()\<rparr>))"
proof -
  let ?r = "http_request (path_url ''/x'' []) no_headers" and ?n = "\<lparr>n_failed = {}, n_reports = [], n_world = ()\<rparr>"
  have e: "text_routes [ok_route]" "URL ok_route \<noteq> []" "sum_list (map (\<lambda>raw. length (URL raw)) [ok_route]) \<le> 21760"
    "\<not> is_wild CHR ''h''" by (simp_all add: text_routes_def ok_route_def, code_simp+)
  have a: "\<exists>L. trie_answer [ok_route] ''h/x'' = Some (Some L)" by (rule exI, code_simp)
  then obtain t m where t1: "Build [ok_route] = Some (Some t)" and f: "fits t" and m: "Search t ''h/x'' = Some (Found m)"
    using Build_answer [of "[ok_route]" "''h/x''"] e by (fastforce dest: gives_Some)
  have "node_readable t n" if n: "n \<in> set (NodePool t)" for n
  proof (cases "Methods n = 0")
    case False
    from pool_serves [OF t1 e(1) _ n False] e(2) obtain raw where "winner [ok_route] (lookup_path raw) = Some raw" "serves t n raw"
      by auto
    moreover from this(1) have "raw = ok_route" by (auto dest: winner_Some)
    ultimately show ?thesis by (simp add: node_readable_def serves_def ok_route_def)
  qed (simp add: node_readable_def)
  then have t: "Build [ok_route] = Some (Some t)" "list_all (node_readable t) (NodePool t)" using t1 by (simp_all add: list_all_iff)
  from InitCaches_total [OF t(2), of "e_out plain_env" "e_names plain_env"] obtain g :: "unit generation" where
    g: "InitCaches (e_out plain_env) (e_names plain_env) (new_generation t) = Some g" by blast
  have k: "lookup_key ?r = ''h/x''" by code_simp
  from g have tr: "g_tree g = t" using InitCaches_ok(1) [OF g] by (simp add: gen_sound_def new_generation_def)
  obtain w' where h: "http_Error ''Resource Not Found'' 404 (newTrackedResponseWriter fresh_writer) = Some w'"
    using answer_valid [of 404] unfolding http_Error_def by fastforce
  have "sv_r (new_serving fresh_writer ?r NewRegistry ?n) = ?r" by (simp add: new_serving_def)
  then have "ServeHTTP plain_env g fresh_writer ?r NewRegistry ?n =
      map_option (Pair (Some m)) (serve_node plain_env g m (new_serving fresh_writer ?r NewRegistry ?n))"
    by (simp add: ServeHTTP_def lookupRoute_def tr k m)
  then have "ServeHTTP plain_env g fresh_writer ?r NewRegistry ?n \<noteq>
      map_option (\<lambda>w'. (None, (new_serving fresh_writer ?r NewRegistry ?n)\<lparr>sv_w := w'\<rparr>)) (http_Error ''Resource Not Found'' 404 (newTrackedResponseWriter fresh_writer))"
    unfolding h by (cases "serve_node plain_env g m (new_serving fresh_writer ?r NewRegistry ?n)") auto
  with ServeHTTP_refines [OF t(1) e(1) f _ g, of ?r fresh_writer NewRegistry ?n] e(2,4) k t(1) g show ?thesis by auto
qed

end
