(* ===== verification/Compiler.thy ===== *)
theory Compiler
  imports Build Expand Tokenizer Builtin_Middlewares
begin

text \<open>
  \<open>internal/compiler\<close>: \<open>compiler.go\<close> with its line trackers \<open>commentline\<close>, \<open>tagline\<close>, \<open>middlewareline\<close> and \<open>ruleline\<close>.
  A route file is read line by line; a rule stays pending until the next one, collecting the tags and
  middlewares indented below it, and gives one raw route for every URL its field expands to.

  \<open>shlex.Split\<close> is the argument \<open>split\<close>, with \<^const>\<open>None\<close> for its error; the libraries the factories of builtins use are
  the record \<open>outside\<close>. An error is a value of \<open>compile_error\<close>; the warnings, which go to the standard output, are kept in
  the state.
\<close>

subsection \<open>Lines\<close>

text \<open>\<open>bufio.Scanner\<close> with \<open>ScanLines\<close>: the lines, and whether it stopped at one that does not fit the buffer.\<close>

definition MaxScanTokenSize :: nat where "MaxScanTokenSize = 65536"

definition dropCR :: "string \<Rightarrow> string" where
  "dropCR l = trim_suffix l [CHR 0x0D]"

fun scan_lines :: "string list \<Rightarrow> string list \<times> bool" where
  "scan_lines [] = ([], False)"
| "scan_lines (l # ls) =
     (if MaxScanTokenSize \<le> length l then ([], True)
      else if l = [] \<and> ls = [] then ([], False)
      else let (rest, long) = scan_lines ls in (dropCR l # rest, long))"

definition scan_text :: "string \<Rightarrow> string list \<times> bool" where
  "scan_text content = scan_lines (split_on (CHR 0x0A) content)"

text \<open>\<open>IsComment\<close>: the answer and the new \<open>skippingBlock\<close>.\<close>

definition IsComment :: "string \<Rightarrow> bool \<Rightarrow> bool \<times> bool" where
  "IsComment line skipping =
     (let trimmed = trim_space line
      in if trimmed = [] then (False, False)
         else if skipping then (True, True)
         else if has_prefix trimmed ''#*'' then (True, True)
         else (has_prefix trimmed ''#'', False))"

subsection \<open>Tags and middlewares of a rule\<close>

datatype line_error =
    UnknownTag string
  | EmptyMiddlewareName string
  | InvalidDirective string
  | InvalidMiddleware string
  | UnknownMiddleware string
  | InvalidExternal string
  | BadArguments string
  | MisplacedMiddleware string string
  | InvalidRuleSyntax string
  | InvalidRuleFields nat string
  | UnknownMethod string
  | MissingMethod string
  | EmptyService string
  | InvalidVirtual string
  | UnknownVirtual string

text \<open>\<^const>\<open>None\<close> when the part is not a tag.\<close>

definition tag_TryParse :: "part \<Rightarrow> string list \<Rightarrow> (line_error + string list) option" where
  "tag_TryParse p tags =
     (let v = part_String p
      in if Flag p \<noteq> Text \<or> \<not> has_prefix v ''@'' then None
         else if \<not> valid_tag v then Some (Inl (UnknownTag v))
         else Some (Inr (tags @ [v])))"

definition validateExternalMiddleware :: "string \<Rightarrow> line_error option" where
  "validateExternalMiddleware v =
     (if contains_sub v ''('' \<and> \<not> has_suffix v '')'' then Some (InvalidExternal v)
      else if ParseDirective v = None then Some (InvalidExternal v)
      else None)"

definition funcNamePrefix :: "string \<Rightarrow> string" where
  "funcNamePrefix expr = fst (cut_at expr (CHR ''(''))"

definition validateMiddlewareOrder :: "string list \<Rightarrow> string \<Rightarrow> line_error option" where
  "validateMiddlewareOrder existing newMw =
     (if existing = [] then None
      else if RequiresRealBody (funcNamePrefix (last existing))
      then Some (MisplacedMiddleware (funcNamePrefix (last existing)) newMw)
      else None)"

text \<open>Whether the factory of a builtin rejects the arguments; they are not checked when they do not parse.\<close>

definition rejects_arguments :: "(string \<Rightarrow> (string list \<Rightarrow> 'h option) option) \<Rightarrow> string \<Rightarrow> bool" where
  "rejects_arguments registry v =
     (case ParseDirective v of
        None \<Rightarrow> False
      | Some (funcName, args) \<Rightarrow> (case registry funcName of None \<Rightarrow> False | Some factory \<Rightarrow> factory args = None))"

definition check_middleware :: "outside \<Rightarrow> part \<Rightarrow> line_error option" where
  "check_middleware out p =
     (let v = part_String p
      in if Value p = ''$mmfg'' then (if ValidateDirective v then None else Some (InvalidDirective v))
         else if has_prefix (Value p) ''$'' then
           (if \<not> fst (middleware_IsValid v) then
              (if snd (middleware_IsValid v) = [] then Some (InvalidMiddleware v)
               else Some (UnknownMiddleware (snd (middleware_IsValid v))))
            else if rejects_arguments (middleware_factory out :: string \<Rightarrow> (string list \<Rightarrow> unit handler option) option) v
            then Some (BadArguments v)
            else None)
         else validateExternalMiddleware v)"

definition middleware_TryParse :: "outside \<Rightarrow> part \<Rightarrow> string list \<Rightarrow> line_error + string list" where
  "middleware_TryParse out p mws =
     (let v = part_String p
      in if Flag p \<noteq> Text \<and> Flag p \<noteq> Call then Inr mws
         else if Value p = [] then Inl (EmptyMiddlewareName v)
         else case check_middleware out p of
                Some e \<Rightarrow> Inl e
              | None \<Rightarrow>
                  (case validateMiddlewareOrder mws v of Some e \<Rightarrow> Inl e | None \<Rightarrow> Inr (mws @ [v])))"

subsection \<open>Rules\<close>

record raw_rule =
  rr_node :: raw_node
  rr_urls :: "string list"

definition IsRule :: "part \<Rightarrow> bool" where
  "IsRule p \<longleftrightarrow> \<not> Indented (Pos p) \<and> Depth p = 0 \<and> (Flag p = Text \<or> Flag p = Call)"

text \<open>Methods, URL and service.\<close>

definition rule_fields :: "string list \<Rightarrow> (string \<times> string \<times> string) option" where
  "rule_fields fs =
     (case fs of
        [s] \<Rightarrow> Some (''*'', ''**'', s)
      | [u, s] \<Rightarrow> Some (''*'', u, s)
      | [m, u, s] \<Rightarrow> Some (m, u, s)
      | _ \<Rightarrow> None)"

text \<open>The factories that are \<open>nil\<close> in the registry are not in \<^const>\<open>virtual_factory\<close>. The order in which \<open>$echo\<close> lists
  headers does not matter here.\<close>

definition check_service :: "outside \<Rightarrow> string \<Rightarrow> string \<Rightarrow> line_error option" where
  "check_service out v service =
     (if service = [] then Some (EmptyService v)
      else if has_prefix service ''$'' then
        (if \<not> fst (virtual_IsValid service) then
           (if snd (virtual_IsValid service) = [] then Some (InvalidVirtual service)
            else Some (UnknownVirtual (snd (virtual_IsValid service))))
         else if rejects_arguments (virtual_factory out (\<lambda>_. [])) service then Some (BadArguments service)
         else None)
      else None)"

definition check_methods :: "string \<Rightarrow> string \<Rightarrow> line_error option" where
  "check_methods v methods =
     (if \<not> fst (ValidateMethods methods) then Some (UnknownMethod (snd (ValidateMethods methods)))
      else if methods_missing methods then Some (MissingMethod v)
      else None)"

definition rule_Parse :: "outside \<Rightarrow> (string \<Rightarrow> string list option) \<Rightarrow> part \<Rightarrow> raw_rule option \<Rightarrow> line_error + raw_rule option" where
  "rule_Parse out split p current =
     (let v = part_String p
      in case split v of
           None \<Rightarrow> Inl (InvalidRuleSyntax v)
         | Some fs \<Rightarrow>
             if fs = [] then Inr current
             else case rule_fields fs of
               None \<Rightarrow> Inl (InvalidRuleFields (length fs) v)
             | Some (methods, rawURL, service) \<Rightarrow>
                 (case check_methods v methods of
                    Some e \<Rightarrow> Inl e
                  | None \<Rightarrow>
                      (case check_service out v service of
                         Some e \<Rightarrow> Inl e
                       | None \<Rightarrow>
                           (case expandField rawURL of
                              None \<Rightarrow> Inl (InvalidRuleSyntax rawURL)
                            | Some urls \<Rightarrow>
                                Inr (Some \<lparr>rr_node = \<lparr>URL = [], Service = service, Middlewares = [], RawMethods = methods,
                                    RawTags = []\<rparr>, rr_urls = map normalizeURL urls\<rparr>)))))"

text \<open>Its warning.\<close>

datatype warning = EmptyQuoted nat string | EmptyRuleField nat string | UnexpectedIndent nat string

definition rule_warnings :: "(string \<Rightarrow> string list option) \<Rightarrow> part \<Rightarrow> warning list" where
  "rule_warnings split p =
     (case split (part_String p) of
        None \<Rightarrow> []
      | Some fs \<Rightarrow> if [] \<in> set fs then [EmptyRuleField (Line (Pos p)) (part_String p)] else [])"

subsection \<open>The compiler\<close>

record compiler =
  lineCount :: nat
  co_lines :: "string list"
  skippingBlock :: bool
  co_rule :: "raw_rule option"
  co_tags :: "string list"
  co_middlewares :: "string list"
  co_tk :: tokenizer
  co_warnings :: "warning list"
  rawNodes :: "raw_node list"

definition new_compiler :: compiler where
  "new_compiler = \<lparr>lineCount = 0, co_lines = [], skippingBlock = False, co_rule = None, co_tags = [], co_middlewares = [],
     co_tk = new_tokenizer, co_warnings = [], rawNodes = []\<rparr>"

text \<open>\<open>parseRule\<close>, after \<open>rule.Flush\<close>; both trackers are flushed.\<close>

definition parseRule :: "raw_rule \<Rightarrow> compiler \<Rightarrow> compiler" where
  "parseRule r c =
     (let node = (rr_node r)\<lparr>RawTags := co_tags c, Middlewares := co_middlewares c\<rparr>
      in c\<lparr>co_tags := [], co_middlewares := [], rawNodes := rawNodes c @ map (\<lambda>u. node\<lparr>URL := u\<rparr>) (rr_urls r)\<rparr>)"

definition flush_rule :: "compiler \<Rightarrow> compiler" where
  "flush_rule c =
     (case co_rule c of
        Some r \<Rightarrow> parseRule r (c\<lparr>co_rule := None\<rparr>)
      | None \<Rightarrow> c\<lparr>co_tags := [], co_middlewares := []\<rparr>)"

definition warn :: "warning list \<Rightarrow> compiler \<Rightarrow> compiler" where
  "warn ws c = c\<lparr>co_warnings := co_warnings c @ ws\<rparr>"

definition warn_empty :: "part \<Rightarrow> compiler \<Rightarrow> compiler" where
  "warn_empty p c =
     (if Flag p = Quoted \<and> Value p = [] then warn [EmptyQuoted (lineCount c) (last (co_lines c))] c else c)"

text \<open>The loop over the parts of a line, which a part without a rule breaks off.\<close>

fun parts_loop :: "outside \<Rightarrow> (string \<Rightarrow> string list option) \<Rightarrow> part list \<Rightarrow> compiler \<Rightarrow> line_error + compiler" where
  "parts_loop out split [] c = Inr c"
| "parts_loop out split (p # ps) c0 =
     (let c = warn_empty p c0
      in if IsRule p then
           let c = flush_rule c
           in case rule_Parse out split p (co_rule c) of
                Inl e \<Rightarrow> Inl e
              | Inr r \<Rightarrow> parts_loop out split ps ((warn (rule_warnings split p) c)\<lparr>co_rule := r\<rparr>)
         else if co_rule c = None then Inr (warn [UnexpectedIndent (lineCount c) (last (co_lines c))] c)
         else case tag_TryParse p (co_tags c) of
           Some (Inl e) \<Rightarrow> Inl e
         | Some (Inr ts) \<Rightarrow> parts_loop out split ps (c\<lparr>co_tags := ts\<rparr>)
         | None \<Rightarrow>
             (case middleware_TryParse out p (co_middlewares c) of
                Inl e \<Rightarrow> Inl e
              | Inr ms \<Rightarrow> parts_loop out split ps (c\<lparr>co_middlewares := ms\<rparr>)))"

datatype compile_error =
    TokenError nat tok_error "string option"
  | LineError nat line_error
  | ScannerError nat

text \<open>The source line an unterminated part starts on.\<close>

definition error_line :: "tok_error \<Rightarrow> nat option" where
  "error_line e =
     (case e of
        UnterminatedParentheses q \<Rightarrow> Some (Line q)
      | UnterminatedRaw q \<Rightarrow> Some (Line q)
      | UnclosedBlock q \<Rightarrow> Some (Line q)
      | _ \<Rightarrow> None)"

definition wrapTokenizeErr :: "nat \<Rightarrow> string list \<Rightarrow> tok_error \<Rightarrow> compile_error" where
  "wrapTokenizeErr n ls e =
     TokenError n e
       (case error_line e of
          None \<Rightarrow> None
        | Some l \<Rightarrow> if 1 \<le> l \<and> l - 1 < length ls then Some (trim_space (ls ! (l - 1))) else None)"

definition line_step :: "outside \<Rightarrow> (string \<Rightarrow> string list option) \<Rightarrow> string \<Rightarrow> compiler \<Rightarrow> compile_error + compiler" where
  "line_step out split line c =
     (let c = c\<lparr>lineCount := lineCount c + 1, co_lines := co_lines c @ [line]\<rparr>;
          (comment, skipping) = IsComment line (skippingBlock c);
          c = c\<lparr>skippingBlock := skipping\<rparr>
      in if comment then Inr c
         else case Tokenize (lineCount c) line (co_tk c) of
           Inl e \<Rightarrow> Inl (wrapTokenizeErr (lineCount c) (co_lines c) e)
         | Inr (ps, tk) \<Rightarrow>
             (case parts_loop out split ps (c\<lparr>co_tk := tk\<rparr>) of
                Inl e \<Rightarrow> Inl (LineError (lineCount c) e)
              | Inr c \<Rightarrow> Inr c))"

fun lines_loop :: "outside \<Rightarrow> (string \<Rightarrow> string list option) \<Rightarrow> string list \<Rightarrow> compiler \<Rightarrow> compile_error + compiler" where
  "lines_loop out split [] c = Inr c"
| "lines_loop out split (l # ls) c =
     (case line_step out split l c of Inl e \<Rightarrow> Inl e | Inr c \<Rightarrow> lines_loop out split ls c)"

text \<open>The part of \<open>Parse\<close> after the loop: the last rule, the error of the scanner, what is left open.\<close>

definition finish_parse :: "bool \<Rightarrow> compiler \<Rightarrow> compile_error + compiler" where
  "finish_parse failed c =
     (let c = (case co_rule c of Some r \<Rightarrow> parseRule r (c\<lparr>co_rule := None\<rparr>) | None \<Rightarrow> c)
      in if failed then Inl (ScannerError (lineCount c))
         else case Close (co_tk c) of
           Some e \<Rightarrow> Inl (wrapTokenizeErr (lineCount c) (co_lines c) e)
         | None \<Rightarrow> Inr c)"

text \<open>The reader holds \<open>content\<close> and then ends, or fails when \<open>broken\<close> is set.\<close>

definition compile_run :: "outside \<Rightarrow> (string \<Rightarrow> string list option) \<Rightarrow> string \<Rightarrow> bool \<Rightarrow> compile_error + compiler" where
  "compile_run out split content broken =
     (case scan_text content of (ls, long) \<Rightarrow>
        (case lines_loop out split ls new_compiler of
           Inl e \<Rightarrow> Inl e
         | Inr c \<Rightarrow> finish_parse (long \<or> broken) c))"

text \<open>What it hands to \<open>Build\<close>.\<close>

definition compile_text :: "outside \<Rightarrow> (string \<Rightarrow> string list option) \<Rightarrow> string \<Rightarrow> bool \<Rightarrow> compile_error + raw_node list" where
  "compile_text out split content broken = map_sum id rawNodes (compile_run out split content broken)"

text \<open>The whole of \<open>Parse\<close>; \<^const>\<open>None\<close> is a panic. A file without routes gives no tree and no error.\<close>

definition Parse :: "outside \<Rightarrow> (string \<Rightarrow> string list option) \<Rightarrow> string \<Rightarrow> bool \<Rightarrow> (compile_error + route_tree option) option" where
  "Parse out split content broken =
     (case compile_text out split content broken of
        Inl (TokenError n SlicePanic ctx) \<Rightarrow> None
      | Inl e \<Rightarrow> Some (Inl e)
      | Inr raws \<Rightarrow> map_option Inr (Build raws))"

definition ParseString :: "outside \<Rightarrow> (string \<Rightarrow> string list option) \<Rightarrow> string \<Rightarrow> (compile_error + route_tree option) option" where
  "ParseString out split content = Parse out split content False"

end
