(* ===== verification/Compiler_Correct.thy ===== *)
theory Compiler_Correct
  imports Compiler Generation
begin

text \<open>
  What the compiler promises of its raw routes: an invariant of its state, kept by every line, from which every
  compiled route has the checked shape, \<open>Parse\<close> panics on two kinds of routes only, and the table
  of a compiled file loads.
\<close>

subsection \<open>Checked routes\<close>

text \<open>A builtin whose arguments parse has a handler; the arguments of an external middleware parse.\<close>

definition valid_middleware :: "outside \<Rightarrow> string \<Rightarrow> bool" where
  "valid_middleware out v \<longleftrightarrow> ValidateDirective v \<or>
     has_prefix v ''$'' \<and> fst (middleware_IsValid v) \<and>
       (ParseDirective v \<noteq> None \<longrightarrow> (buildBuiltinHandler out v :: unit handler option) \<noteq> None) \<or>
     \<not> has_prefix v ''$'' \<and> v \<noteq> [] \<and> ParseDirective v \<noteq> None"

definition valid_service :: "outside \<Rightarrow> string \<Rightarrow> bool" where
  "valid_service out v \<longleftrightarrow> v \<noteq> [] \<and> (has_prefix v ''$'' \<longrightarrow> fst (virtual_IsValid v) \<and>
     (\<forall>f args. ParseDirective v = Some (f, args) \<longrightarrow> virtual_factory out (\<lambda>_. []) f \<noteq> None \<longrightarrow>
        buildVirtualHandler out (\<lambda>_. []) v \<noteq> None))"

definition valid_methods :: "string \<Rightarrow> bool" where
  "valid_methods methods \<longleftrightarrow> fst (ValidateMethods methods) \<and> \<not> methods_missing methods"

text \<open>A middleware that needs the real body has none after it.\<close>

definition real_body_last :: "string list \<Rightarrow> bool" where
  "real_body_last ms \<longleftrightarrow> list_all (\<lambda>m. \<not> RequiresRealBody (funcNamePrefix m)) (butlast ms)"

definition valid_route :: "outside \<Rightarrow> raw_node \<Rightarrow> bool" where
  "valid_route out raw \<longleftrightarrow> valid_service out (Service raw) \<and> valid_methods (RawMethods raw) \<and> normal_url (URL raw) \<and>
     list_all valid_tag (RawTags raw) \<and> list_all (valid_middleware out) (Middlewares raw) \<and> real_body_last (Middlewares raw)"

definition valid_rule :: "outside \<Rightarrow> raw_rule \<Rightarrow> bool" where
  "valid_rule out r \<longleftrightarrow> valid_service out (Service (rr_node r)) \<and> valid_methods (RawMethods (rr_node r)) \<and>
     list_all normal_url (rr_urls r)"

subsection \<open>What the checks establish\<close>

lemma middleware_factory_known:
  "f \<in> set middleware_names \<Longrightarrow> (middleware_factory out f :: (string list \<Rightarrow> 'm handler option) option) \<noteq> None"
  by (auto simp: middleware_factory_def middleware_names_def)

lemma last_index_neq: "last_index s c = Some e \<Longrightarrow> index_sub s [d] = Some i \<Longrightarrow> c \<noteq> d \<Longrightarrow> e \<noteq> i"
  using last_index_Some [of s c e] index_sub_Some [of s "[d]" i] by (cases "drop i s") (auto simp: nth_via_drop)

lemma valid_expr_name:
  assumes "fst (valid_expr known v)" and "ParseDirective v = Some (f, args)"
  shows "f \<in> set known"
  using assms
  by (auto simp: valid_expr_def ParseDirective_def Let_def dest: last_index_neq split: if_splits option.splits)

lemma check_middleware_valid:
  assumes "check_middleware out p = None" and "Value p \<noteq> []" and "Flag p = Text \<or> Flag p = Call"
  shows "valid_middleware out (part_String p)"
proof -
  let ?v = "part_String p"
  have pre: "has_prefix ?v ''$'' \<longleftrightarrow> has_prefix (Value p) ''$''" "?v \<noteq> []"
    using assms(2,3) by (cases "Value p"; auto simp: part_String_def)+
  show ?thesis
  proof (cases "has_prefix (Value p) ''$'' \<and> Value p \<noteq> ''$mmfg''")
    case True
    then have v: "fst (middleware_IsValid ?v)"
      and r: "\<not> rejects_arguments (middleware_factory out :: string \<Rightarrow> (string list \<Rightarrow> unit handler option) option) ?v"
      using assms(1) by (auto simp: check_middleware_def Let_def split: if_splits)
    have "(buildBuiltinHandler out ?v :: unit handler option) \<noteq> None" if "ParseDirective ?v \<noteq> None"
    proof -
      from that obtain f args where p: "ParseDirective ?v = Some (f, args)" by auto
      from valid_expr_name [OF v [unfolded middleware_IsValid_def] p]
      have "(middleware_factory out f :: (string list \<Rightarrow> unit handler option) option) \<noteq> None" by (rule middleware_factory_known)
      with r p show ?thesis by (cases "middleware_factory out f :: (string list \<Rightarrow> unit handler option) option")
        (simp_all add: rejects_arguments_def buildBuiltinHandler_def)
    qed
    with True v pre show ?thesis by (simp add: valid_middleware_def)
  next
    case False
    show ?thesis
    proof (cases "Value p = ''$mmfg''")
      case True
      with assms(1) show ?thesis by (simp add: check_middleware_def valid_middleware_def Let_def split: if_splits)
    next
      case no: False
      with False assms(1) have "validateExternalMiddleware ?v = None" by (simp add: check_middleware_def Let_def)
      with False no pre show ?thesis by (simp add: valid_middleware_def validateExternalMiddleware_def split: if_splits)
    qed
  qed
qed

lemma check_service_valid: "check_service out v s = None \<Longrightarrow> valid_service out s"
  by (auto simp: check_service_def valid_service_def rejects_arguments_def buildVirtualHandler_def split: if_splits option.splits)

lemma check_methods_valid: "check_methods v methods = None \<Longrightarrow> valid_methods methods"
  by (auto simp: check_methods_def valid_methods_def split: if_splits)

lemma rule_Parse_valid:
  assumes "rule_Parse out split p current = Inr r" and "\<forall>r. current = Some r \<longrightarrow> valid_rule out r"
  shows "\<forall>r'. r = Some r' \<longrightarrow> valid_rule out r'"
  using assms
  by (auto simp: rule_Parse_def valid_rule_def Let_def list_all_iff normalize_normal
      dest: check_service_valid check_methods_valid split: if_splits option.splits prod.splits)

lemma tag_TryParse_valid: "tag_TryParse p ts = Some (Inr ts') \<Longrightarrow> list_all valid_tag ts \<Longrightarrow> list_all valid_tag ts'"
  by (auto simp: tag_TryParse_def Let_def split: if_splits)

lemma middleware_TryParse_valid:
  assumes "middleware_TryParse out p ms = Inr ms'" and "list_all (valid_middleware out) ms" and "real_body_last ms"
  shows "list_all (valid_middleware out) ms' \<and> real_body_last ms'"
proof (cases "ms' = ms")
  case False
  with assms(1) have c: "check_middleware out p = None" "Value p \<noteq> []" "Flag p = Text \<or> Flag p = Call"
    and o: "validateMiddlewareOrder ms (part_String p) = None" and ms': "ms' = ms @ [part_String p]"
    by (auto simp: middleware_TryParse_def Let_def split: if_splits option.splits)
  have "real_body_last ms'"
    using o assms(3) unfolding ms' real_body_last_def validateMiddlewareOrder_def
    by (cases ms rule: rev_cases) (auto simp: butlast_append split: if_splits)
  with check_middleware_valid [OF c] assms(2) ms' show ?thesis by simp
qed (use assms in simp)

subsection \<open>The invariant of the compiler\<close>

definition compiler_inv :: "outside \<Rightarrow> compiler \<Rightarrow> bool" where
  "compiler_inv out c \<longleftrightarrow> list_all (valid_route out) (rawNodes c) \<and> (\<forall>r. co_rule c = Some r \<longrightarrow> valid_rule out r) \<and>
     list_all valid_tag (co_tags c) \<and> list_all (valid_middleware out) (co_middlewares c) \<and>
     real_body_last (co_middlewares c) \<and> tok_inv (co_tk c)"

lemma compiler_inv_simps [simp]:
  "compiler_inv out (c\<lparr>lineCount := n\<rparr>) = compiler_inv out c" "compiler_inv out (c\<lparr>co_lines := ls\<rparr>) = compiler_inv out c"
  "compiler_inv out (c\<lparr>skippingBlock := b\<rparr>) = compiler_inv out c" "compiler_inv out (warn ws c) = compiler_inv out c"
  "compiler_inv out (warn_empty p c) = compiler_inv out c"
  by (simp_all add: compiler_inv_def warn_def warn_empty_def)

lemma warn_simps [simp]:
  "co_rule (warn ws c) = co_rule c" "co_tags (warn ws c) = co_tags c" "co_middlewares (warn ws c) = co_middlewares c"
  "rawNodes (warn ws c) = rawNodes c" "co_tk (warn ws c) = co_tk c" "skippingBlock (warn ws c) = skippingBlock c"
  "co_rule (warn_empty p c) = co_rule c" "co_tags (warn_empty p c) = co_tags c" "co_middlewares (warn_empty p c) = co_middlewares c"
  by (simp_all add: warn_def warn_empty_def)

lemma new_compiler_inv: "compiler_inv out new_compiler"
  by (simp add: compiler_inv_def new_compiler_def tok_inv_new real_body_last_def)

lemma parseRule_inv:
  assumes "compiler_inv out c" and "co_rule c = Some r"
  shows "compiler_inv out (parseRule r (c\<lparr>co_rule := None\<rparr>))"
  using assms
  by (auto simp: compiler_inv_def parseRule_def valid_rule_def valid_route_def Let_def list_all_iff real_body_last_def)

lemma flush_rule_inv: "compiler_inv out c \<Longrightarrow> compiler_inv out (flush_rule c)"
  using parseRule_inv by (auto simp: flush_rule_def compiler_inv_def real_body_last_def split: option.splits)

lemma flush_rule_rule [simp]: "co_rule (flush_rule c) = None"
  by (simp add: flush_rule_def parseRule_def Let_def split: option.splits)

lemma parts_loop_inv: "parts_loop out split ps c = Inr c' \<Longrightarrow> compiler_inv out c \<Longrightarrow> compiler_inv out c'"
proof (induction out split ps c rule: parts_loop.induct)
  case (2 out split p ps c0)
  let ?c = "warn_empty p c0"
  have c: "compiler_inv out ?c" using "2.prems"(2) by simp
  consider (rule) r where "IsRule p" "rule_Parse out split p None = Inr r"
      "parts_loop out split ps ((warn (rule_warnings split p) (flush_rule ?c))\<lparr>co_rule := r\<rparr>) = Inr c'"
    | (skip) ws where "c' = warn ws ?c"
    | (tag) ts where "tag_TryParse p (co_tags ?c) = Some (Inr ts)" "\<not> IsRule p" "co_rule ?c \<noteq> None"
      "parts_loop out split ps (?c\<lparr>co_tags := ts\<rparr>) = Inr c'"
    | (mw) ms where "tag_TryParse p (co_tags ?c) = None" "middleware_TryParse out p (co_middlewares ?c) = Inr ms"
      "\<not> IsRule p" "co_rule ?c \<noteq> None" "parts_loop out split ps (?c\<lparr>co_middlewares := ms\<rparr>) = Inr c'"
    using "2.prems"(1) by (auto simp: Let_def split: if_splits sum.splits option.splits)
  then show ?case
  proof cases
    case rule
    have "compiler_inv out ((warn (rule_warnings split p) (flush_rule ?c))\<lparr>co_rule := r\<rparr>)"
      using flush_rule_inv [OF c] rule_Parse_valid [OF rule(2)] by (simp add: compiler_inv_def)
    with "2.IH"(1) [OF refl rule(1) refl _ rule(3)] rule(2) show ?thesis by simp
  next
    case tag
    have "compiler_inv out (?c\<lparr>co_tags := ts\<rparr>)"
      using c tag_TryParse_valid [OF tag(1)] by (simp add: compiler_inv_def)
    with "2.IH"(3) [OF refl tag(2,3,1) refl tag(4)] show ?thesis by simp
  next
    case mw
    have "compiler_inv out (?c\<lparr>co_middlewares := ms\<rparr>)"
      using c middleware_TryParse_valid [OF mw(2)] by (simp add: compiler_inv_def)
    with "2.IH"(2) [OF refl mw(3,4,1,2,5)] show ?thesis by simp
  qed (use c in simp)
qed simp

lemma line_step_inv:
  assumes "compiler_inv out c"
  shows "case line_step out split l c of Inl e \<Rightarrow> \<forall>n ctx. e \<noteq> TokenError n SlicePanic ctx | Inr c' \<Rightarrow> compiler_inv out c'"
proof -
  have "case Tokenize n l (co_tk c) of Inl e \<Rightarrow> e \<noteq> SlicePanic | Inr (ps, tk) \<Rightarrow> tok_inv tk" for n
    by (rule Tokenize_inv) (use assms in \<open>simp add: compiler_inv_def\<close>)
  from this [of "lineCount c + 1"] show ?thesis
    using assms parts_loop_inv [of out split]
    by (auto simp: line_step_def wrapTokenizeErr_def Let_def compiler_inv_def split: sum.splits prod.splits if_splits)
qed

lemma lines_loop_inv:
  "compiler_inv out c \<Longrightarrow>
    case lines_loop out split ls c of Inl e \<Rightarrow> \<forall>n ctx. e \<noteq> TokenError n SlicePanic ctx | Inr c' \<Rightarrow> compiler_inv out c'"
proof (induction ls arbitrary: c)
  case (Cons l ls)
  show ?case
  proof (cases "line_step out split l c")
    case (Inr c')
    with line_step_inv [OF Cons.prems, of split l] Cons.IH [of c'] show ?thesis by simp
  qed (use line_step_inv [OF Cons.prems, of split l] in simp)
qed simp

lemma Close_no_panic: "Close t \<noteq> Some SlicePanic"
  by (simp add: Close_def split: option.splits)

lemma compile_text_ok:
  "case compile_text out split content broken of
     Inl e \<Rightarrow> \<forall>n ctx. e \<noteq> TokenError n SlicePanic ctx
   | Inr raws \<Rightarrow> list_all (valid_route out) raws"
proof -
  obtain ls long where l: "scan_text content = (ls, long)" by fastforce
  show ?thesis
  proof (cases "lines_loop out split ls new_compiler")
    case (Inl e)
    with lines_loop_inv [OF new_compiler_inv, of out split ls] show ?thesis by (simp add: compile_text_def compile_run_def l)
  next
    case (Inr c)
    with lines_loop_inv [OF new_compiler_inv, of out split ls] have c: "compiler_inv out c" by simp
    let ?c = "case co_rule c of Some r \<Rightarrow> parseRule r (c\<lparr>co_rule := None\<rparr>) | None \<Rightarrow> c"
    have "compiler_inv out ?c" using c parseRule_inv [OF c] by (auto split: option.split)
    then have "list_all (valid_route out) (rawNodes ?c)" by (simp only: compiler_inv_def)
    moreover have "compile_text out split content broken = map_sum id rawNodes (finish_parse (long \<or> broken) c)"
      using Inr by (simp add: compile_text_def compile_run_def l)
    ultimately show ?thesis using Close_no_panic [of "co_tk ?c"]
      by (auto simp: finish_parse_def wrapTokenizeErr_def Let_def split: option.split)
  qed
qed

text \<open>C12. Whatever the file holds, every raw route the compiler hands to \<open>Build\<close> is well formed: a nonempty service,
  methods that were checked, a URL in normal form, known tags, middlewares that were checked, and one that
  needs the real body only in the last place. A builtin whose arguments parse has a handler.\<close>

theorem compiled_routes_ok:
  assumes "compile_text out split content broken = Inr raws"
  shows "list_all (valid_route out) raws"
  using compile_text_ok [of out split content broken] assms by simp

subsection \<open>Panics\<close>

lemma Build_checked:
  assumes "Build raws = Some x"
  shows "\<forall>raw \<in> set raws. parseMethods (RawMethods raw) \<noteq> 0 \<and> count_wilds (star_bytes (URL raw)) \<le> MaxWildcardsPerRoute"
proof (cases "raws = []")
  case False
  with assms obtain roots t m where "add_routes raws (no_roots, empty_tree, Map.empty) = Some (roots, t, m)"
    by (auto simp: Build_def bind_eq_Some_conv split: if_splits)
  from add_routes_leaves [OF this map_ok_empty] show ?thesis by blast
qed simp

lemma Parse_None:
  "Parse out split content broken = None \<longleftrightarrow> (\<exists>raws. compile_text out split content broken = Inr raws \<and> Build raws = None)"
proof (cases "compile_text out split content broken")
  case (Inl e)
  with compile_text_ok [of out split content broken] have "\<forall>n ctx. e \<noteq> TokenError n SlicePanic ctx" by simp
  then have "Parse out split content broken = Some (Inl e)"
    using Inl by (auto simp: Parse_def split: compile_error.splits tok_error.splits)
  with Inl show ?thesis by simp
qed (simp add: Parse_def)

text \<open>C14. Compiling always ends with a tree or a reported error, except for a file one of whose routes has
  more than 32 wildcards or methods without a bit (a vertical tab between commas): there \<open>Parse\<close> panics.\<close>

theorem Parse_panics_iff:
  assumes "\<And>raws. compile_text out split content broken = Inr raws \<Longrightarrow> text_routes raws"
  shows "Parse out split content broken = None \<longleftrightarrow>
    (\<exists>raws raw. compile_text out split content broken = Inr raws \<and> raw \<in> set raws \<and>
       (parseMethods (RawMethods raw) = 0 \<or> MaxWildcardsPerRoute < count_wilds (star_bytes (URL raw))))"
proof -
  have "Build raws = None \<longleftrightarrow>
      (\<exists>raw \<in> set raws. parseMethods (RawMethods raw) = 0 \<or> MaxWildcardsPerRoute < count_wilds (star_bytes (URL raw)))"
    if "compile_text out split content broken = Inr raws" for raws
  proof (cases "raws = []")
    case False
    show ?thesis
    proof (cases "Build raws")
      case None
      with Build_exists [OF False assms [OF that]]
      have "\<not> ((\<forall>raw \<in> set raws. parseMethods (RawMethods raw) \<noteq> 0) \<and>
          (\<forall>raw \<in> set raws. count_wilds (star_bytes (URL raw)) \<le> MaxWildcardsPerRoute))" by auto
      with None show ?thesis by (auto simp: not_le)
    next
      case (Some x)
      with Build_checked [OF Some] show ?thesis by (auto simp: not_less)
    qed
  qed (simp add: Build_def)
  then show ?thesis unfolding Parse_None by blast
qed

text \<open>C13. From the file to the search: on the table of a compiled file with at most 21760 bytes of URLs every
  search ends without a panic, and what it finds is a route the compiler has checked, the last one written
  for its path.\<close>

theorem compiled_search_ends:
  assumes "Parse out split content broken = Some (Inr (Some t))" and "compile_text out split content broken = Inr raws"
    and "text_routes raws" and "sum_list (map (\<lambda>raw. length (URL raw)) raws) \<le> 21760" and "\<forall>raw \<in> set raws. URL raw \<noteq> []"
    and "req \<noteq> []" and "\<not> is_wild (hd req)"
  shows "Search t req = Some NotFound \<or>
    (\<exists>n raw. Search t req = Some (Found n) \<and> winner raws (lookup_path raw) = Some raw \<and> matches (lookup_path raw) req \<and>
       serves t n raw \<and> valid_route out raw)"
proof -
  have b: "Build raws = Some (Some t)" using assms(1,2) by (simp add: Parse_def)
  have v: "list_all (valid_route out) raws" using compile_text_ok [of out split content broken] assms(2) by simp
  have "raw \<in> set raws" if "winner raws u = Some raw" for u raw
    using that by (auto simp: winner_def dest!: map_of_SomeD)
  with Search_finds [OF b assms(3) built_fits [OF b assms(4)] assms(5-7)] v show ?thesis
    by (force simp: list_all_iff)
qed

text \<open>\<open>shlex.Split\<close> on a text without quotes, escapes and comments.\<close>

definition split_words :: "string \<Rightarrow> string list option" where
  "split_words s = Some (filter (\<lambda>w. w \<noteq> []) (split_on (CHR '' '') s))"

definition unlines :: "string list \<Rightarrow> string" where
  "unlines ls = concat (map (\<lambda>l. l @ [CHR 0x0A]) ls)"

lemma scan_unlines:
  assumes "\<forall>l \<in> set ls. CHR 0x0A \<notin> set l \<and> CHR 0x0D \<notin> set l \<and> length l < MaxScanTokenSize"
  shows "scan_text (unlines ls) = (ls, False)"
proof -
  have "split_on (CHR 0x0A) (unlines ls) = ls @ [[]]"
    using assms by (induction ls) (auto simp: unlines_def split_on_append_sep split_on_single)
  moreover have "scan_lines (ls @ [[]]) = (ls, False)"
    using assms by (induction ls) (auto simp: MaxScanTokenSize_def dropCR_def trim_suffix_def has_suffix_iff)
  ultimately show ?thesis by (simp add: scan_text_def)
qed

lemma compile_unlines:
  assumes "\<forall>l \<in> set ls. CHR 0x0A \<notin> set l \<and> CHR 0x0D \<notin> set l \<and> length l < MaxScanTokenSize"
  shows "compile_run out split (unlines ls) False =
    (case lines_loop out split ls new_compiler of Inl e \<Rightarrow> Inl e | Inr c \<Rightarrow> finish_parse False c)"
  by (simp add: compile_run_def scan_unlines [OF assms] split: sum.split)

definition tagged_lines :: "string list" where
  "tagged_lines = [''h/x s'', CHR 0x09 # ''@no-metrics'', CHR 0x09 # ''$Log(m)'']"

theorem compiled_routes_ok_witness:
  "list_all (valid_route no_outside) [\<lparr>URL = ''h/x'', Service = ''s'', Middlewares = [''$Log(m)''], RawMethods = ''*'', RawTags = [''@no-metrics'']\<rparr>]"
proof (rule compiled_routes_ok [where split = split_words and broken = False and content = "unlines tagged_lines"])
  show "compile_text no_outside split_words (unlines tagged_lines) False =
      Inr [\<lparr>URL = ''h/x'', Service = ''s'', Middlewares = [''$Log(m)''], RawMethods = ''*'', RawTags = [''@no-metrics'']\<rparr>]"
    unfolding compile_text_def by (subst compile_unlines) (simp add: tagged_lines_def MaxScanTokenSize_def, code_simp)
qed

definition wild_line :: string where
  "wild_line = ''h/'' @ concat (replicate 33 ''*/'') @ '' s''"

theorem Parse_panics_iff_witness: "Parse no_outside split_words (unlines [wild_line]) False = None"
proof -
  let ?raw = "\<lparr>URL = ''h/'' @ concat (replicate 33 ''*/''), Service = ''s'', Middlewares = [], RawMethods = ''*'', RawTags = []\<rparr>"
  have c: "compile_text no_outside split_words (unlines [wild_line]) False = Inr [?raw]"
    unfolding compile_text_def by (subst compile_unlines) (simp add: wild_line_def MaxScanTokenSize_def length_concat sum_list_replicate, code_simp)
  have w: "MaxWildcardsPerRoute < count_wilds (star_bytes (URL ?raw))" "list_all is_text (URL ?raw)" by code_simp+
  show ?thesis
    by (subst Parse_panics_iff) (use c w in \<open>auto simp: text_routes_def\<close>)
qed

theorem compiled_search_ends_witness:
  "\<exists>t. Parse no_outside split_words (unlines [''h/x s'']) False = Some (Inr (Some t)) \<and>
     (\<exists>n. Search t ''h/x'' = Some NotFound \<or> Search t ''h/x'' = Some (Found n))"
proof -
  let ?raw = "\<lparr>URL = ''h/x'', Service = ''s'', Middlewares = [], RawMethods = ''*'', RawTags = []\<rparr>"
  have c: "compile_text no_outside split_words (unlines [''h/x s'']) False = Inr [?raw]"
    unfolding compile_text_def by (subst compile_unlines) (simp add: MaxScanTokenSize_def, code_simp)
  have w: "parseMethods (RawMethods ?raw) \<noteq> 0" "count_wilds (star_bytes (URL ?raw)) \<le> MaxWildcardsPerRoute"
    "list_all is_text (URL ?raw)" "\<not> is_wild (CHR ''h'')" by code_simp+
  from Build_exists [of "[?raw]"] w obtain t where "Build [?raw] = Some (Some t)" by (auto simp: text_routes_def)
  then have p: "Parse no_outside split_words (unlines [''h/x s'']) False = Some (Inr (Some t))" using c by (simp add: Parse_def)
  from compiled_search_ends [OF p c, of "''h/x''"] w(3,4) p show ?thesis by (auto simp: text_routes_def)
qed

end
