(* ===== verification/Compiler_Print.thy ===== *)
theory Compiler_Print
  imports Compiler_Correct
begin

text \<open>
  The functional specification of the compiler: a list of rules, each with tags and middlewares, printed as
  a route file and compiled, gives the raw routes the rules stand for, one for every URL of their field.
\<close>

subsection \<open>Rules and their text\<close>

text \<open>A name with the text between its parentheses, if it has any.\<close>

type_synonym call = "string \<times> string option"

fun print_call :: "call \<Rightarrow> string" where
  "print_call (v, None) = v"
| "print_call (v, Some a) = v @ CHR ''('' # a @ [CHR '')'']"

record rule_block =
  rb_methods :: string
  rb_url :: string
  rb_service :: call
  rb_tags :: "string list"
  rb_middlewares :: "call list"

definition head_line :: "rule_block \<Rightarrow> string" where
  "head_line r = join_with (CHR '' '') [rb_methods r, rb_url r, print_call (rb_service r)]"

definition tabbed :: "string \<Rightarrow> string" where
  "tabbed l = CHR 0x09 # l"

definition block_lines :: "rule_block \<Rightarrow> string list" where
  "block_lines r = head_line r # map tabbed (rb_tags r @ map print_call (rb_middlewares r))"

definition print_file :: "rule_block list \<Rightarrow> string" where
  "print_file rs = unlines (concat (map block_lines rs))"

definition block_rule :: "rule_block \<Rightarrow> raw_rule" where
  "block_rule r = \<lparr>rr_node = \<lparr>URL = [], Service = print_call (rb_service r), Middlewares = [], RawMethods = rb_methods r,
     RawTags = []\<rparr>, rr_urls = map normalizeURL (the (expandField (rb_url r)))\<rparr>"

definition block_routes :: "rule_block \<Rightarrow> raw_node list" where
  "block_routes r = map (\<lambda>u. \<lparr>URL = normalizeURL u, Service = print_call (rb_service r),
     Middlewares = map print_call (rb_middlewares r), RawMethods = rb_methods r, RawTags = rb_tags r\<rparr>) (the (expandField (rb_url r)))"

subsection \<open>Texts without special characters\<close>

definition special :: "char \<Rightarrow> bool" where
  "special c \<longleftrightarrow> c \<in> {CHR 0x5C, CHR 0x22, CHR 0x60, CHR ''('', CHR '')'', CHR ''{'', CHR ''}'', CHR '';'', CHR 0x0A, CHR 0x0D}"

definition plain_text :: "string \<Rightarrow> bool" where
  "plain_text s \<longleftrightarrow> list_all (\<lambda>c. \<not> special c) s"

text \<open>A text that is not blank and has no blanks around it.\<close>

definition trimmed :: "string \<Rightarrow> bool" where
  "trimmed s \<longleftrightarrow> s \<noteq> [] \<and> \<not> is_space (hd s) \<and> \<not> is_space (last s)"

text \<open>A word: no blanks either, no single quote and no hash, which \<open>shlex\<close> would read.\<close>

definition word_text :: "string \<Rightarrow> bool" where
  "word_text s \<longleftrightarrow> list_all (\<lambda>c. \<not> special c \<and> \<not> is_space c \<and> c \<noteq> CHR 0x27 \<and> c \<noteq> CHR ''#'') s"

text \<open>What \<open>shlex.Split\<close> does with words: they are the fields between blanks.\<close>

definition shlex_word :: "string \<Rightarrow> bool" where
  "shlex_word s \<longleftrightarrow> s \<noteq> [] \<and> list_all (\<lambda>c. \<not> is_space c \<and> c \<notin> {CHR 0x22, CHR 0x27, CHR 0x5C, CHR ''#''}) s"

definition splits_words :: "(string \<Rightarrow> string list option) \<Rightarrow> bool" where
  "splits_words split \<longleftrightarrow> (\<forall>ws. list_all shlex_word ws \<longrightarrow> split (join_with (CHR '' '') ws) = Some ws)"

text \<open>The part a call becomes.\<close>

fun call_part :: "nat \<Rightarrow> position \<Rightarrow> call \<Rightarrow> part" where
  "call_part d p (v, None) = new_part v Text [] d p"
| "call_part d p (v, Some a) = new_part v Call a d p"

definition plain_call :: "call \<Rightarrow> bool" where
  "plain_call c \<longleftrightarrow> trimmed (fst c) \<and> plain_text (fst c) \<and> (case snd c of None \<Rightarrow> True | Some a \<Rightarrow> plain_text a)"

definition rule_ok :: "outside \<Rightarrow> rule_block \<Rightarrow> bool" where
  "rule_ok out r \<longleftrightarrow>
     rb_methods r \<noteq> [] \<and> word_text (rb_methods r) \<and> rb_url r \<noteq> [] \<and> word_text (rb_url r) \<and>
     fst (rb_service r) \<noteq> [] \<and> word_text (fst (rb_service r)) \<and>
     (case snd (rb_service r) of None \<Rightarrow> True | Some a \<Rightarrow> word_text a) \<and>
     check_methods [] (rb_methods r) = None \<and> check_service out [] (print_call (rb_service r)) = None \<and>
     expandField (rb_url r) \<noteq> None \<and>
     list_all (\<lambda>t. has_prefix t ''@'' \<and> trimmed t \<and> plain_text t \<and> valid_tag t) (rb_tags r) \<and>
     list_all (\<lambda>m. plain_call m \<and> hd (fst m) \<noteq> CHR ''@'' \<and> hd (fst m) \<noteq> CHR ''#'' \<and>
       check_middleware out (call_part 0 (pos_at 0 0 True) m) = None) (rb_middlewares r) \<and>
     real_body_last (map print_call (rb_middlewares r))"

definition block_ok :: "outside \<Rightarrow> rule_block \<Rightarrow> bool" where
  "block_ok out r \<longleftrightarrow> rule_ok out r \<and> list_all (\<lambda>l. length l < MaxScanTokenSize) (block_lines r)"

subsection \<open>The tokenizer on plain lines\<close>

lemma scan_line_append:
  "scan_line n d i (a @ b) s =
    (case scan_line n d i a s of Inl e \<Rightarrow> Inl e | Inr s' \<Rightarrow> scan_line n d (i + length a) b s')"
  by (induction a arbitrary: i s) (auto split: sum.split)

lemma scan_plain:
  assumes "plain_text v" and "rawPart s = None" and "parenStack s = []" and "\<not> inQuote s"
  shows "\<exists>k. scan_line n d i v s = Inr (s\<lparr>sc_buf := sc_buf s @ v, bufStart := k\<rparr>)"
  using assms
proof (induction v arbitrary: i s)
  case Nil
  show ?case by (intro exI [of _ "bufStart s"]) simp
next
  case (Cons c v)
  let ?k = "if trim_space (sc_buf s) = [] then i else bufStart s"
  let ?s = "s\<lparr>bufStart := ?k, sc_buf := sc_buf s @ [c]\<rparr>"
  have c: "scan_char n d i c s = Inr ?s"
    using Cons.prems by (simp add: scan_char_def scan_switch_def write_rune_def plain_text_def special_def)
  from Cons.IH [of ?s "i + 1"] Cons.prems obtain k where
    "scan_line n d (i + 1) v ?s = Inr (?s\<lparr>sc_buf := sc_buf ?s @ v, bufStart := k\<rparr>)" by (auto simp: plain_text_def)
  with c show ?case by (intro exI [of _ k]) simp
qed

lemma scan_args:
  assumes "plain_text a" and "rawPart s = None" and "parenStack s \<noteq> []" and "\<not> inQuote s"
  shows "scan_line n d i a s = Inr (s\<lparr>tk_args := tk_args s @ a\<rparr>)"
  using assms
proof (induction a arbitrary: i s)
  case (Cons c a)
  have "scan_char n d i c s = Inr (s\<lparr>tk_args := tk_args s @ [c]\<rparr>)"
    using Cons.prems by (simp add: scan_char_def scan_switch_def write_rune_def plain_text_def special_def)
  with Cons show ?case by (simp add: plain_text_def)
qed simp

lemma trim_space_trimmed:
  assumes "trimmed v"
  shows "trim_space v = v"
proof -
  have "trim_left is_space v = v" using assms by (cases v) (auto simp: trim_left_def trimmed_def)
  moreover have "trim_right is_space v = v" using assms by (cases v rule: rev_cases) (auto simp: trim_right_def trimmed_def)
  ultimately show ?thesis by (simp add: trim_space_def trim_def)
qed

lemma trim_tabbed [simp]: "trim_space (tabbed v) = trim_space v"
  by (simp add: tabbed_def trim_space_def trim_def trim_left_def is_space_def byte_def)

definition rest_scan :: scan where
  "rest_scan = start_scan [] new_tokenizer"

lemma start_rest: "start_scan line new_tokenizer = rest_scan"
  by (simp add: rest_scan_def start_scan_def new_tokenizer_def)

lemma rest_scan_eq:
  "rest_scan = \<lparr>rawPart = None, tk_raw = [], parenStack = [], braceStack = [], tk_args = [], paddingParts = [],
     sc_parts = [], sc_buf = [], inQuote = False, escaped = False, bufStart = 0\<rparr>"
  by (simp add: rest_scan_def start_scan_def new_tokenizer_def tokenizer.defs scan.defs)

lemma rest_scan_simps [simp]:
  "rawPart rest_scan = None" "parenStack rest_scan = []" "\<not> inQuote rest_scan" "sc_buf rest_scan = []"
  "braceStack rest_scan = []" "paddingParts rest_scan = []" "tk_args rest_scan = []" "sc_parts rest_scan = []"
  "tokenizer.truncate rest_scan = new_tokenizer"
  by (simp_all add: rest_scan_def start_scan_def new_tokenizer_def tokenizer.defs scan.defs)

lemma truncate_simps [simp]:
  "tokenizer.truncate (s\<lparr>sc_parts := x\<rparr>) = tokenizer.truncate s" "tokenizer.truncate (s\<lparr>sc_buf := y\<rparr>) = tokenizer.truncate s"
  "tokenizer.truncate (s\<lparr>bufStart := k\<rparr>) = tokenizer.truncate s"
  by (simp_all add: tokenizer.defs)

lemma Tokenize_line:
  assumes "plain_call c" and "indent = [] \<or> indent = [CHR 0x09]"
    and "hasSpacePrefix (indent @ print_call c) \<longleftrightarrow> indent \<noteq> []"
  shows "\<exists>k. Tokenize n (indent @ print_call c) new_tokenizer = Inr ([call_part 0 (pos_at n k (indent \<noteq> [])) c], new_tokenizer)"
proof -
  obtain v a where c: "c = (v, a)" by (cases c)
  let ?d = "indent \<noteq> []"
  have v: "trimmed v" "plain_text v" using assms(1) by (simp_all add: plain_call_def c)
  have pt: "plain_text (indent @ v)" using v(2) assms(2) by (auto simp: plain_text_def special_def)
  have ts: "trim_space (indent @ v) = v"
    using assms(2) trim_space_trimmed [OF v(1)] trim_tabbed [of v] by (auto simp: tabbed_def)
  have ne: "v \<noteq> []" "indent @ v \<noteq> []" using v(1) by (auto simp: trimmed_def)
  from scan_plain [OF pt, of rest_scan n ?d 0] obtain k where
    k: "scan_line n ?d 0 (indent @ v) rest_scan = Inr (rest_scan\<lparr>sc_buf := indent @ v, bufStart := k\<rparr>)" by auto
  have empty: "parenStack new_tokenizer = []" by (simp add: new_tokenizer_def)
  show ?thesis
  proof (cases a)
    case None
    have "Tokenize n (indent @ v) new_tokenizer = Inr ([new_part v Text [] 0 (pos_at n k ?d)], new_tokenizer)"
      using assms(3) k ts ne by (simp add: Tokenize_def empty start_rest c None flush_text_def Let_def)
    then show ?thesis by (auto simp: c None)
  next
    case (Some x)
    have x: "plain_text x" using assms(1) by (simp add: plain_call_def c Some)
    let ?p = "pos_at n (length (indent @ v)) ?d" and ?part = "new_part v Call [] 0 (pos_at n k ?d)"
    let ?s = "rest_scan\<lparr>sc_buf := [], bufStart := k, paddingParts := [?part], parenStack := [?p]\<rparr>"
    have o: "scan_char n ?d (length (indent @ v)) (CHR ''('') (rest_scan\<lparr>sc_buf := indent @ v, bufStart := k\<rparr>) = Inr ?s"
      using ts ne by (simp add: scan_char_def scan_switch_def open_paren_def Let_def)
    have m: "scan_line n ?d i x ?s = Inr (?s\<lparr>tk_args := x\<rparr>)" for i
      using scan_args [OF x, of ?s] by simp
    have e: "scan_char n ?d i (CHR '')'') (?s\<lparr>tk_args := x\<rparr>) =
        Inr (rest_scan\<lparr>bufStart := k, sc_parts := [?part\<lparr>PartArgs := x\<rparr>]\<rparr>)" for i
      by (simp add: scan_char_def scan_switch_def close_paren_def Let_def rest_scan_eq)
    have "scan_line n ?d 0 (indent @ v @ CHR ''('' # x @ [CHR '')'']) rest_scan =
        Inr (rest_scan\<lparr>bufStart := k, sc_parts := [?part\<lparr>PartArgs := x\<rparr>]\<rparr>)"
      using scan_line_append [of n ?d 0 "indent @ v" "CHR ''('' # x @ [CHR '')'']" rest_scan] k o m e
      by (simp add: scan_line_append)
    with assms(3) show ?thesis
      by (intro exI [of _ k]) (simp add: Tokenize_def empty start_rest c Some flush_text_def Let_def new_part_def)
  qed
qed

subsection \<open>Lines of a rule\<close>

text \<open>The state without the count of lines and the lines themselves, which only errors use.\<close>

definition view :: "compiler \<Rightarrow> raw_node list \<times> raw_rule option \<times> string list \<times> string list" where
  "view c = (rawNodes c, co_rule c, co_tags c, co_middlewares c)"

definition ready :: "compiler \<Rightarrow> bool" where
  "ready c \<longleftrightarrow> co_tk c = new_tokenizer \<and> \<not> skippingBlock c \<and> co_warnings c = []"

text \<open>Reading the lines from a state between lines ends between lines, in a state that looks like \<open>v\<close>.\<close>

definition reads :: "outside \<Rightarrow> (string \<Rightarrow> string list option) \<Rightarrow> string list \<Rightarrow> compiler \<Rightarrow>
    raw_node list \<times> raw_rule option \<times> string list \<times> string list \<Rightarrow> bool" where
  "reads out split ls c v \<longleftrightarrow> (\<exists>c'. lines_loop out split ls c = Inr c' \<and> ready c' \<and> view c' = v)"

lemma reads_Nil: "ready c \<Longrightarrow> reads out split [] c (view c)"
  by (simp add: reads_def)

lemma reads_Cons:
  assumes "line_step out split l c = Inr c'" and "reads out split ls c' v"
  shows "reads out split (l # ls) c v"
  using assms by (simp add: reads_def)

lemma lines_loop_append:
  "lines_loop out split (ls @ ls') c = (case lines_loop out split ls c of Inl e \<Rightarrow> Inl e | Inr c \<Rightarrow> lines_loop out split ls' c)"
  by (induction ls arbitrary: c) (auto split: sum.split)

lemma reads_append:
  assumes "reads out split ls c v" and "\<And>c'. ready c' \<Longrightarrow> view c' = v \<Longrightarrow> reads out split ls' c' v'"
  shows "reads out split (ls @ ls') c v'"
  using assms by (auto simp: reads_def lines_loop_append)

lemma line_step_part:
  assumes "ready c" and "plain_call m" and "hd (fst m) \<noteq> CHR ''#''" and "indent = [] \<or> indent = [CHR 0x09]"
  obtains q n c1 where "Indented q \<longleftrightarrow> indent \<noteq> []" and "ready c1" and "view c1 = view c"
    and "line_step out split (indent @ print_call m) c =
      (case parts_loop out split [call_part 0 q m] c1 of Inl e \<Rightarrow> Inl (LineError n e) | Inr c \<Rightarrow> Inr c)"
proof -
  obtain v a where m: "m = (v, a)" by (cases m)
  let ?l = "indent @ print_call m" and ?n = "lineCount c + 1"
  obtain h t where v: "v = h # t" "\<not> is_space h" "h \<noteq> CHR ''#''"
    using assms(2,3) by (cases v) (auto simp: plain_call_def m trimmed_def)
  then obtain t' where pc: "print_call m = h # t'" by (cases a) (auto simp: m)
  have sp: "hasSpacePrefix ?l \<longleftrightarrow> indent \<noteq> []"
    using assms(4) v(2) pc by (auto simp: hasSpacePrefix_def is_space_def byte_def)
  have "\<exists>u. trim_space (h # t') = h # u"
  proof -
    obtain x y where xy: "h # t' = x @ trim_space (h # t') @ y" "list_all is_space x"
      using trim_decomp [of "h # t'" is_space] unfolding trim_space_def by blast
    moreover have "trim_space (h # t') \<noteq> []" using v(2) by (simp add: trim_space_eq_Nil)
    moreover have "x = []" using xy v(2) by (cases x) auto
    ultimately show ?thesis by (cases "trim_space (h # t')") auto
  qed
  moreover have "trim_space ?l = trim_space (h # t')"
    using assms(4) trim_tabbed [of "h # t'"] pc by (auto simp: tabbed_def)
  ultimately obtain u where ts: "trim_space ?l = h # u" by metis
  have com: "IsComment ?l False = (False, False)" using v(3) by (simp add: IsComment_def ts Let_def)
  from Tokenize_line [OF assms(2,4) sp, of ?n] obtain k where
    k: "Tokenize ?n ?l new_tokenizer = Inr ([call_part 0 (pos_at ?n k (indent \<noteq> [])) m], new_tokenizer)" by blast
  let ?c = "c\<lparr>lineCount := ?n, co_lines := co_lines c @ [?l], skippingBlock := False, co_tk := new_tokenizer\<rparr>"
  have step: "line_step out split ?l c =
      (case parts_loop out split [call_part 0 (pos_at ?n k (indent \<noteq> [])) m] ?c of Inl e \<Rightarrow> Inl (LineError ?n e) | Inr c \<Rightarrow> Inr c)"
    using assms(1) com k by (simp add: line_step_def ready_def Let_def del: parts_loop.simps split: sum.split)
  show thesis
    by (rule that [OF _ _ _ step]) (use assms(1) in \<open>simp_all add: pos_at_def ready_def view_def\<close>)
qed

lemma call_part_simps [simp]:
  "part_String (call_part d q m) = print_call m" "Value (call_part d q m) = fst m" "Pos (call_part d q m) = q"
  "Depth (call_part d q m) = d" "Flag (call_part d q m) = (if snd m = None then Text else Call)"
  by (cases m rule: print_call.cases; simp add: part_String_def new_part_def)+

lemma pos_at_simps [simp]: "Indented (pos_at n k d) = d"
  by (simp add: pos_at_def)

lemma warn_call_part [simp]: "warn_empty (call_part d q m) c = c"
  by (simp add: warn_empty_def)

lemma check_middleware_part: "check_middleware out (call_part d q m) = check_middleware out (call_part d' q' m)"
  by (simp add: check_middleware_def Let_def cong: if_cong)

lemma check_methods_any: "check_methods v ms = None \<longleftrightarrow> check_methods v' ms = None"
  by (simp add: check_methods_def)

lemma check_service_any: "check_service out v s = None \<longleftrightarrow> check_service out v' s = None"
  by (simp add: check_service_def)

subsection \<open>The three kinds of lines\<close>

lemma word_plain: "word_text s \<Longrightarrow> plain_text s"
  by (auto simp: word_text_def plain_text_def list_all_iff)

lemma word_trimmed: "word_text s \<Longrightarrow> s \<noteq> [] \<Longrightarrow> trimmed s"
  by (auto simp: word_text_def trimmed_def list_all_iff)

lemma space_char: "is_space CHR '' ''" "\<not> special CHR '' ''"
  by (simp_all add: is_space_def special_def byte_def)

definition head_call :: "rule_block \<Rightarrow> call" where
  "head_call r = (join_with (CHR '' '') [rb_methods r, rb_url r, fst (rb_service r)], snd (rb_service r))"

lemma head_call_line: "print_call (head_call r) = head_line r"
  by (cases "rb_service r" rule: print_call.cases) (simp_all add: head_call_def head_line_def)

lemma head_call_plain:
  assumes "block_ok out r"
  shows "plain_call (head_call r)" and "hd (fst (head_call r)) \<noteq> CHR ''#''"
proof -
  have w: "rb_methods r \<noteq> []" "word_text (rb_methods r)" "word_text (rb_url r)" "fst (rb_service r) \<noteq> []"
    "word_text (fst (rb_service r))" and a: "case snd (rb_service r) of None \<Rightarrow> True | Some a \<Rightarrow> word_text a"
    using assms by (simp_all add: block_ok_def rule_ok_def)
  show "plain_call (head_call r)"
    using w a word_plain [OF w(2)] word_plain [OF w(3)] word_plain [OF w(5)] word_trimmed [OF w(2,1)] word_trimmed [OF w(5,4)]
    by (auto simp: plain_call_def head_call_def trimmed_def plain_text_def space_char word_plain [unfolded plain_text_def] split: option.splits)
  show "hd (fst (head_call r)) \<noteq> CHR ''#''"
    using w by (auto simp: head_call_def word_text_def list_all_iff)
qed

lemma head_split:
  assumes "block_ok out r" and "splits_words split"
  shows "split (head_line r) = Some [rb_methods r, rb_url r, print_call (rb_service r)]"
proof -
  have "shlex_word (print_call (rb_service r))"
    using assms(1)
    by (cases "rb_service r" rule: print_call.cases)
      (auto simp: block_ok_def rule_ok_def shlex_word_def word_text_def list_all_iff special_def is_space_def byte_def)
  moreover have "shlex_word (rb_methods r)" "shlex_word (rb_url r)"
    using assms(1) by (auto simp: block_ok_def rule_ok_def shlex_word_def word_text_def list_all_iff special_def)
  ultimately have "list_all shlex_word [rb_methods r, rb_url r, print_call (rb_service r)]" by simp
  with assms(2) show ?thesis unfolding splits_words_def head_line_def by blast
qed

lemma flush_rule_simps [simp]:
  "co_tags (flush_rule c) = []" "co_middlewares (flush_rule c) = []" "co_tk (flush_rule c) = co_tk c"
  "skippingBlock (flush_rule c) = skippingBlock c" "co_warnings (flush_rule c) = co_warnings c"
  by (simp_all add: flush_rule_def parseRule_def Let_def split: option.split)

lemma read_head:
  assumes "block_ok out r" and "splits_words split" and "ready c"
  shows "\<exists>c'. line_step out split (head_line r) c = Inr c' \<and> ready c' \<and>
    view c' = (rawNodes (flush_rule c), Some (block_rule r), [], [])"
proof -
  obtain q n c1 where q0: "Indented q \<longleftrightarrow> ([] :: string) \<noteq> []" and q: "ready c1" "view c1 = view c"
    and st: "line_step out split ([] @ print_call (head_call r)) c =
      (case parts_loop out split [call_part 0 q (head_call r)] c1 of Inl e \<Rightarrow> Inl (LineError n e) | Inr c \<Rightarrow> Inr c)"
    by (rule line_step_part [OF assms(3) head_call_plain [OF assms(1)] disjI1 [OF refl]])
  have rule: "IsRule (call_part 0 q (head_call r))" using q0 by (simp add: IsRule_def)
  have "check_methods v (rb_methods r) = None" "check_service out v (print_call (rb_service r)) = None" for v
    using assms(1) check_methods_any check_service_any unfolding block_ok_def rule_ok_def by blast+
  then have "rule_Parse out split (call_part 0 q (head_call r)) None = Inr (Some (block_rule r))"
    using head_split [OF assms(1,2)] assms(1)
    by (auto simp: rule_Parse_def head_call_line rule_fields_def block_rule_def block_ok_def rule_ok_def)
  moreover have "warn (rule_warnings split (call_part 0 q (head_call r))) d = d" for d
    using head_split [OF assms(1,2)] assms(1)
    by (cases "rb_service r" rule: print_call.cases) (auto simp: rule_warnings_def head_call_line warn_def block_ok_def rule_ok_def)
  ultimately have "parts_loop out split [call_part 0 q (head_call r)] c1 = Inr ((flush_rule c1)\<lparr>co_rule := Some (block_rule r)\<rparr>)"
    using rule by (simp del: call_part.simps)
  moreover have "rawNodes (flush_rule c1) = rawNodes (flush_rule c)"
    using q(2) by (simp add: view_def flush_rule_def parseRule_def Let_def split: option.split)
  ultimately show ?thesis using q(1) st by (simp add: view_def ready_def head_call_line del: parts_loop.simps)
qed

lemma read_tag:
  assumes "has_prefix t ''@''" and "trimmed t" and "plain_text t" and "valid_tag t" and "ready c" and "view c = (raws, Some r, ts, ms)"
  shows "\<exists>c'. line_step out split (tabbed t) c = Inr c' \<and> ready c' \<and> view c' = (raws, Some r, ts @ [t], ms)"
proof -
  have p: "plain_call (t, None)" "hd (fst (t, None)) \<noteq> CHR ''#''"
    using assms by (auto simp: plain_call_def trimmed_def has_prefix_iff)
  obtain q n c1 where q: "Indented q \<longleftrightarrow> [CHR 0x09] \<noteq> []" "ready c1" "view c1 = view c"
    and st: "line_step out split ([CHR 0x09] @ print_call (t, None)) c =
      (case parts_loop out split [call_part 0 q (t, None)] c1 of Inl e \<Rightarrow> Inl (LineError n e) | Inr c \<Rightarrow> Inr c)"
    by (rule line_step_part [OF assms(5) p disjI2 [OF refl]])
  have "tag_TryParse (call_part 0 q (t, None)) ts = Some (Inr (ts @ [t]))"
    using assms(1,4) by (simp add: tag_TryParse_def del: call_part.simps)
  moreover have "\<not> IsRule (call_part 0 q (t, None))" using q(1) by (simp add: IsRule_def del: call_part.simps)
  ultimately show ?thesis using q(2,3) st assms(6)
    by (simp add: view_def ready_def tabbed_def del: call_part.simps)
qed

lemma read_middleware:
  assumes "plain_call m" and "hd (fst m) \<noteq> CHR ''@''" and "hd (fst m) \<noteq> CHR ''#''"
    and "check_middleware out (call_part 0 (pos_at 0 0 True) m) = None"
    and "ms = [] \<or> \<not> RequiresRealBody (funcNamePrefix (last ms))" and "ready c" and "view c = (raws, Some r, ts, ms)"
  shows "\<exists>c'. line_step out split (tabbed (print_call m)) c = Inr c' \<and> ready c' \<and> view c' = (raws, Some r, ts, ms @ [print_call m])"
proof -
  obtain q n c1 where q: "Indented q \<longleftrightarrow> [CHR 0x09] \<noteq> []" "ready c1" "view c1 = view c"
    and st: "line_step out split ([CHR 0x09] @ print_call m) c =
      (case parts_loop out split [call_part 0 q m] c1 of Inl e \<Rightarrow> Inl (LineError n e) | Inr c \<Rightarrow> Inr c)"
    by (rule line_step_part [OF assms(6,1,3) disjI2 [OF refl]])
  obtain h v where v: "fst m = h # v" using assms(1) by (cases "fst m") (auto simp: plain_call_def trimmed_def)
  then have "\<not> has_prefix (print_call m) ''@''" using assms(2) by (cases m rule: print_call.cases) auto
  then have "tag_TryParse (call_part 0 q m) ts = None" by (simp add: tag_TryParse_def)
  moreover have "middleware_TryParse out (call_part 0 q m) ms = Inr (ms @ [print_call m])"
  proof -
    have "validateMiddlewareOrder ms (print_call m) = None" using assms(5) by (auto simp: validateMiddlewareOrder_def)
    then show ?thesis using assms(4) check_middleware_part [of out 0 q m 0 "pos_at 0 0 True"] v
      by (simp add: middleware_TryParse_def Let_def)
  qed
  moreover have "\<not> IsRule (call_part 0 q m)" using q(1) by (simp add: IsRule_def)
  ultimately show ?thesis using q(2,3) st assms(7)
    by (simp add: view_def ready_def tabbed_def)
qed

subsection \<open>Blocks and files\<close>

lemma read_tags:
  assumes "list_all (\<lambda>t. has_prefix t ''@'' \<and> trimmed t \<and> plain_text t \<and> valid_tag t) us"
    and "ready c" and "view c = (raws, Some r, ts, ms)"
  shows "reads out split (map tabbed us) c (raws, Some r, ts @ us, ms)"
  using assms
proof (induction us arbitrary: c ts)
  case Nil
  with reads_Nil [of c] show ?case by simp
next
  case (Cons u us)
  from read_tag [of u c raws r ts ms out split] Cons.prems obtain c' where
    c': "line_step out split (tabbed u) c = Inr c'" "ready c'" "view c' = (raws, Some r, ts @ [u], ms)" by auto
  have "reads out split (map tabbed us) c' (raws, Some r, (ts @ [u]) @ us, ms)"
    by (rule Cons.IH) (use Cons.prems c' in auto)
  with c'(1) show ?case by (auto intro: reads_Cons)
qed

lemma real_body_last_mid:
  "real_body_last (ms @ m # rest) \<longleftrightarrow> list_all (\<lambda>m. \<not> RequiresRealBody (funcNamePrefix m)) ms \<and> real_body_last (m # rest)"
  by (auto simp: real_body_last_def butlast_append)

lemma read_middlewares:
  assumes "list_all (\<lambda>m. plain_call m \<and> hd (fst m) \<noteq> CHR ''@'' \<and> hd (fst m) \<noteq> CHR ''#'' \<and>
       check_middleware out (call_part 0 (pos_at 0 0 True) m) = None) us"
    and "real_body_last (ms @ map print_call us)" and "ready c" and "view c = (raws, Some r, ts, ms)"
  shows "reads out split (map (tabbed \<circ> print_call) us) c (raws, Some r, ts, ms @ map print_call us)"
  using assms
proof (induction us arbitrary: c ms)
  case Nil
  with reads_Nil [of c] show ?case by simp
next
  case (Cons u us)
  have "ms = [] \<or> \<not> RequiresRealBody (funcNamePrefix (last ms))"
    using Cons.prems(2) by (cases ms rule: rev_cases) (auto simp: real_body_last_def butlast_append)
  with read_middleware [of u out ms c raws r ts split] Cons.prems obtain c' where
    c': "line_step out split (tabbed (print_call u)) c = Inr c'" "ready c'" "view c' = (raws, Some r, ts, ms @ [print_call u])"
    by auto
  have "reads out split (map (tabbed \<circ> print_call) us) c' (raws, Some r, ts, (ms @ [print_call u]) @ map print_call us)"
    by (rule Cons.IH) (use Cons.prems c' in auto)
  with reads_Cons [OF c'(1)] show ?case by (simp add: comp_def)
qed

lemma read_block:
  assumes "block_ok out r" and "splits_words split" and "ready c"
  shows "reads out split (block_lines r) c
    (rawNodes (flush_rule c), Some (block_rule r), rb_tags r, map print_call (rb_middlewares r))"
proof -
  from read_head [OF assms] obtain c' where c': "line_step out split (head_line r) c = Inr c'" "ready c'"
    "view c' = (rawNodes (flush_rule c), Some (block_rule r), [], [])" by blast
  have "reads out split (map tabbed (rb_tags r) @ map (tabbed \<circ> print_call) (rb_middlewares r)) c'
      (rawNodes (flush_rule c), Some (block_rule r), rb_tags r, map print_call (rb_middlewares r))"
  proof (rule reads_append)
    show "reads out split (map tabbed (rb_tags r)) c' (rawNodes (flush_rule c), Some (block_rule r), [] @ rb_tags r, [])"
      by (rule read_tags) (use assms(1) c' in \<open>simp_all add: block_ok_def rule_ok_def\<close>)
    fix c2
    assume "ready c2" "view c2 = (rawNodes (flush_rule c), Some (block_rule r), [] @ rb_tags r, [])"
    with read_middlewares [of out "rb_middlewares r" "[]" c2 "rawNodes (flush_rule c)" "block_rule r" "rb_tags r" split] assms(1)
    show "reads out split (map (tabbed \<circ> print_call) (rb_middlewares r)) c2
        (rawNodes (flush_rule c), Some (block_rule r), rb_tags r, map print_call (rb_middlewares r))"
      by (simp add: block_ok_def rule_ok_def)
  qed
  with c'(1) show ?thesis by (auto simp: block_lines_def intro: reads_Cons)
qed

lemma flush_block:
  "view c = (raws, Some (block_rule r), rb_tags r, map print_call (rb_middlewares r)) \<Longrightarrow>
    rawNodes (flush_rule c) = raws @ block_routes r"
  by (auto simp: view_def flush_rule_def parseRule_def Let_def block_rule_def block_routes_def)

lemma read_file:
  assumes "\<forall>r \<in> set rs. block_ok out r" and "splits_words split" and "ready c"
  shows "\<exists>c'. lines_loop out split (concat (map block_lines rs)) c = Inr c' \<and> ready c' \<and>
    rawNodes (flush_rule c') = rawNodes (flush_rule c) @ concat (map block_routes rs)"
  using assms(1,3)
proof (induction rs arbitrary: c)
  case (Cons r rs)
  let ?v = "(rawNodes (flush_rule c), Some (block_rule r), rb_tags r, map print_call (rb_middlewares r))"
  from Cons.prems(1) have "block_ok out r" by simp
  from read_block [OF this assms(2) Cons.prems(2)] obtain c1 where
    c1: "lines_loop out split (block_lines r) c = Inr c1" "ready c1" "view c1 = ?v"
    by (auto simp: reads_def)
  from Cons.IH [OF _ c1(2)] Cons.prems(1) obtain c' where
    c': "lines_loop out split (concat (map block_lines rs)) c1 = Inr c'" "ready c'"
    "rawNodes (flush_rule c') = rawNodes (flush_rule c1) @ concat (map block_routes rs)" by auto
  with flush_block [OF c1(3)] c1(1) show ?case by (simp add: lines_loop_append)
qed auto

lemma compile_run_printed:
  assumes "\<forall>r \<in> set rs. block_ok out r" and "splits_words split"
  shows "\<exists>c. compile_run out split (print_file rs) False = Inr c \<and> rawNodes c = concat (map block_routes rs) \<and> co_warnings c = []"
proof -
  have clean: "CHR 0x0A \<notin> set (print_call m) \<and> CHR 0x0D \<notin> set (print_call m)" if "plain_call m" for m
    using that by (cases m rule: print_call.cases) (auto simp: plain_call_def plain_text_def list_all_iff special_def)
  have l: "CHR 0x0A \<notin> set l \<and> CHR 0x0D \<notin> set l \<and> length l < MaxScanTokenSize" if "r \<in> set rs" "l \<in> set (block_lines r)" for r l
  proof -
    from that assms(1) have ok: "block_ok out r" by simp
    then have "plain_call (t, None)" if "t \<in> set (rb_tags r)" for t
      using that by (simp add: block_ok_def rule_ok_def plain_call_def list_all_iff)
    moreover have "plain_call m" if "m \<in> set (rb_middlewares r)" for m
      using ok that by (simp add: block_ok_def rule_ok_def list_all_iff)
    moreover have "CHR 0x0A \<notin> set t \<and> CHR 0x0D \<notin> set t" if "plain_call (t, None)" for t
      using clean [OF that] by simp
    ultimately have "CHR 0x0A \<notin> set l \<and> CHR 0x0D \<notin> set l"
      using that(2) clean [OF head_call_plain(1) [OF ok]] clean
      by (auto simp: block_lines_def head_call_line tabbed_def)
    moreover have "length l < MaxScanTokenSize" using ok that(2) by (simp add: block_ok_def rule_ok_def list_all_iff)
    ultimately show ?thesis by blast
  qed
  have "ready new_compiler" "rawNodes (flush_rule new_compiler) = []"
    by (simp_all add: ready_def new_compiler_def flush_rule_def)
  with read_file [OF assms] obtain c where c: "lines_loop out split (concat (map block_lines rs)) new_compiler = Inr c" "ready c"
    "rawNodes (flush_rule c) = concat (map block_routes rs)" by fastforce
  let ?c = "case co_rule c of Some r \<Rightarrow> parseRule r (c\<lparr>co_rule := None\<rparr>) | None \<Rightarrow> c"
  have "rawNodes ?c = rawNodes (flush_rule c)" "co_tk ?c = new_tokenizer" "co_warnings ?c = []"
    using c(2) by (simp_all add: flush_rule_def parseRule_def ready_def Let_def split: option.split)
  moreover have "Close new_tokenizer = None" by (simp add: Close_def new_tokenizer_def)
  ultimately have "\<exists>d. finish_parse False c = Inr d \<and> rawNodes d = concat (map block_routes rs) \<and> co_warnings d = []"
    using c(3) by (simp add: finish_parse_def Let_def)
  moreover have "compile_run out split (print_file rs) False =
      (case lines_loop out split (concat (map block_lines rs)) new_compiler of Inl e \<Rightarrow> Inl e | Inr c \<Rightarrow> finish_parse False c)"
    unfolding print_file_def by (rule compile_unlines) (use l in auto)
  ultimately show ?thesis using c(1) by simp
qed


text \<open>A splitter with the stated behaviour.\<close>

lemma split_words_splits: "splits_words (\<lambda>s. Some (if s = [] then [] else split_on (CHR '' '') s))"
  unfolding splits_words_def
proof (intro allI impI)
  fix ws assume ws: "list_all shlex_word ws"
  then have "\<forall>w \<in> set ws. CHR '' '' \<notin> set w" using space_char by (auto simp: shlex_word_def list_all_iff)
  with split_join [where ls = ws and c = "CHR '' ''"] ws show "Some (if join_with (CHR '' '') ws = [] then [] else split_on (CHR '' '') (join_with (CHR '' '') ws)) = Some ws"
    by (cases ws; cases "tl ws") (auto simp: shlex_word_def)
qed

definition demo_rules :: "rule_block list" where
  "demo_rules =
    [\<lparr>rb_methods = ''GET,post'', rb_url = ''/[a|b]'', rb_service = (''svc'', None), rb_tags = [''@no-metrics''],
       rb_middlewares = [(''auth'', Some ''/p''), (''$SetHeader'', Some ''X,1'')]\<rparr>,
     \<lparr>rb_methods = ''*'', rb_url = ''h'', rb_service = (''$ok'', Some ''hi''), rb_tags = [], rb_middlewares = []\<rparr>]"

definition plain_split :: "string \<Rightarrow> string list option" where
  "plain_split s = Some (if s = [] then [] else split_on (CHR '' '') s)"


end
