(* ===== verification/Collector.thy ===== *)
theory Collector
  imports Virtual_Services
begin

text \<open>
  \<open>internal/core/metrics/collector.go\<close>: the frames a tentacle pushes over a socket and the updates they make. A
  connection is the string of bytes read from it until it ends. The CRC-16 and the decoder of the
  payload are arguments (\<open>crc\<close>, \<open>unmarshal\<close>); the Prometheus metrics are the sequence of the calls made on them, with
  \<^const>\<open>None\<close> for the documented panic of adding a negative number to a counter.
\<close>

subsection \<open>Payloads\<close>

text \<open>The kinds of the protocol; any other is \<open>OtherKind\<close>.\<close>

datatype metric_kind = GAUGE | COUNTER | HISTOGRAM | OtherKind

record bucket =
  Le :: float64
  BucketCount :: nat

record metric =
  MetricName :: string
  MetricKind :: metric_kind
  MetricValue :: float64
  Buckets :: "bucket list"

record payload =
  TentacleId :: string
  PayloadService :: string
  Metrics :: "metric list"

text \<open>A call on the metric of a name with the labels tentacle and service.\<close>

datatype update =
    SetGauge string string string float64
  | AddCounter string string string float64
  | Observe string string string float64

definition negative :: "float64 \<Rightarrow> bool" where
  "negative v = (case v of NaN \<Rightarrow> False | Infinite neg \<Rightarrow> neg | Finite q \<Rightarrow> q < 0)"

text \<open>Counts are cumulative: a bucket is observed as often as its count exceeds the one before.\<close>

fun bucket_observations :: "nat \<Rightarrow> bucket list \<Rightarrow> float64 list" where
  "bucket_observations prevCount [] = []"
| "bucket_observations prevCount (b # bs) =
     (if BucketCount b \<le> prevCount then bucket_observations prevCount bs
      else replicate (BucketCount b - prevCount) (Le b) @ bucket_observations (BucketCount b) bs)"

definition add_counter :: "payload \<Rightarrow> metric \<Rightarrow> update list option" where
  "add_counter msg m =
     (if MetricKind m \<noteq> COUNTER then Some []
      else if negative (MetricValue m) then None
      else Some [AddCounter (MetricName m) (TentacleId msg) (PayloadService msg) (MetricValue m)])"

definition process_metric :: "payload \<Rightarrow> metric \<Rightarrow> update list option" where
  "process_metric msg m =
     (if MetricName m = ''tentacle_active_connections'' then
        Some (if MetricKind m = GAUGE then [SetGauge (MetricName m) (TentacleId msg) (PayloadService msg) (MetricValue m)] else [])
      else if MetricName m = ''tentacle_connection_attempts_total'' then add_counter msg m
      else if MetricName m = ''tentacle_connection_failures_total'' then add_counter msg m
      else if MetricName m = ''tentacle_bytes_transmitted_total'' then add_counter msg m
      else if MetricName m = ''tentacle_transport_latency_seconds'' then
        Some (if MetricKind m = HISTOGRAM
          then map (Observe (MetricName m) (TentacleId msg) (PayloadService msg))
            (if Buckets m \<noteq> [] then bucket_observations 0 (Buckets m) else [MetricValue m])
          else [])
      else Some [])"

definition processPayload :: "(string \<Rightarrow> payload option) \<Rightarrow> string \<Rightarrow> update list option" where
  "processPayload unmarshal data =
     (case unmarshal data of
        None \<Rightarrow> Some []
      | Some msg \<Rightarrow> map_option concat (those (map (process_metric msg) (Metrics msg))))"

subsection \<open>Frames\<close>

definition MagicByte :: nat where "MagicByte = 0xBE"
definition ProtoVersion :: nat where "ProtoVersion = 1"
definition MaxFrameSize :: nat where "MaxFrameSize = 1024 * 1024"

text \<open>\<open>binary.BigEndian\<close>.\<close>

definition big_endian :: "string \<Rightarrow> nat" where
  "big_endian s = foldl (\<lambda>n c. 256 * n + byte c) 0 s"

datatype close_reason = ReadError | InvalidHeader | FrameTooLarge | ChecksumMismatch

text \<open>The loop, which returns the updates and why it closed the connection.\<close>

function handleConnection :: "(string \<Rightarrow> nat) \<Rightarrow> (string \<Rightarrow> payload option) \<Rightarrow> string \<Rightarrow> (update list \<times> close_reason) option" where
  "handleConnection crc unmarshal conn =
     (if length conn < 6 then Some ([], ReadError)
      else let header = take 6 conn; len = big_endian (drop 2 header); rest = drop 6 conn
        in if byte (header ! 0) \<noteq> MagicByte \<or> byte (header ! 1) \<noteq> ProtoVersion then Some ([], InvalidHeader)
           else if MaxFrameSize < len then Some ([], FrameTooLarge)
           else if length rest < len then Some ([], ReadError)
           else if length rest < len + 2 then Some ([], ReadError)
           else let payload = take len rest; receivedChecksum = big_endian (take 2 (drop len rest))
             in if crc (header @ payload) \<noteq> receivedChecksum then Some ([], ChecksumMismatch)
                else do {
                  us \<leftarrow> processPayload unmarshal payload;
                  (vs, reason) \<leftarrow> handleConnection crc unmarshal (drop (len + 2) rest);
                  Some (us @ vs, reason)
                })"
  by pat_completeness auto
termination by (relation "measure (\<lambda>(_, _, conn). length conn)") auto

declare handleConnection.simps [simp del]

subsection \<open>Frames that are written are read\<close>

fun be_bytes :: "nat \<Rightarrow> nat \<Rightarrow> string" where
  "be_bytes 0 n = []"
| "be_bytes (Suc k) n = be_bytes k (n div 256) @ [char_of (n mod 256)]"

definition frame :: "(string \<Rightarrow> nat) \<Rightarrow> string \<Rightarrow> string" where
  "frame crc data =
     (let header = [char_of MagicByte, char_of ProtoVersion] @ be_bytes 4 (length data)
      in header @ data @ be_bytes 2 (crc (header @ data)))"

lemma be_bytes_length [simp]: "length (be_bytes k n) = k"
  by (induction k arbitrary: n) auto

lemma big_endian_be_bytes: "big_endian (be_bytes k n) = n mod 256 ^ k"
proof (induction k arbitrary: n)
  case (Suc k)
  have "big_endian (be_bytes (Suc k) n) = 256 * big_endian (be_bytes k (n div 256)) + n mod 256"
    by (simp add: big_endian_def byte_char_of)
  with Suc show ?case by (simp add: mod_mult2_eq)
qed (simp add: big_endian_def)

text \<open>One frame in front of the rest of the connection.\<close>

lemma handle_frame:
  assumes "length data \<le> MaxFrameSize" and "\<And>s. crc s < 65536"
  shows "handleConnection crc unmarshal (frame crc data @ rest) =
    do { us \<leftarrow> processPayload unmarshal data; (vs, reason) \<leftarrow> handleConnection crc unmarshal rest; Some (us @ vs, reason) }"
proof -
  define h where "h = [char_of MagicByte, char_of ProtoVersion] @ be_bytes 4 (length data)"
  define sum where "sum = be_bytes 2 (crc (h @ data))"
  have c: "frame crc data @ rest = h @ data @ sum @ rest" by (simp add: frame_def Let_def h_def sum_def)
  have len: "length h = 6" "length sum = 2" by (simp_all add: h_def sum_def)
  have l: "big_endian (drop 2 h) = length data" using assms(1) by (simp add: h_def big_endian_be_bytes MaxFrameSize_def)
  have s: "big_endian sum = crc (h @ data)" using assms(2) by (simp add: sum_def big_endian_be_bytes)
  have b: "byte (h ! 0) = MagicByte" "byte (h ! Suc 0) = ProtoVersion"
    by (simp_all add: h_def byte_char_of MagicByte_def ProtoVersion_def)
  have p: "take 6 (h @ data @ sum @ rest) = h" "drop 6 (h @ data @ sum @ rest) = data @ sum @ rest"
    "take 2 (sum @ rest) = sum" "drop (length data + 2) (data @ sum @ rest) = rest" using len by simp_all
  show ?thesis
    unfolding c by (subst handleConnection.simps) (use assms(1) len in \<open>simp add: Let_def p l s b\<close>)
qed

text \<open>C34. Frames are read back: the payloads a tentacle sends on one connection, each at most 1 MB, are all processed
  in order before the connection ends, also when it is cut within the next header.\<close>

theorem frames_are_processed:
  assumes "\<forall>data \<in> set ps. length data \<le> MaxFrameSize" and "\<And>s. crc s < 65536" and "length tail_bytes < 6"
  shows "handleConnection crc unmarshal (concat (map (frame crc) ps) @ tail_bytes) =
    map_option (\<lambda>us. (concat us, ReadError)) (those (map (processPayload unmarshal) ps))"
  using assms(1)
proof (induction ps)
  case Nil
  show ?case using assms(3) by (simp add: handleConnection.simps)
next
  case (Cons p ps)
  with handle_frame [of p crc unmarshal "concat (map (frame crc) ps) @ tail_bytes"] assms(2) show ?case
    by (cases "those (map (processPayload unmarshal) ps)") (auto split: option.split)
qed

subsection \<open>What a payload does\<close>

text \<open>A histogram is observed as often as its largest cumulative count says, whatever the order of its buckets,
  and never for a bucket that adds nothing.\<close>

theorem histogram_total:
  "prevCount + length (bucket_observations prevCount bs) = foldl max prevCount (map BucketCount bs) \<and>
   set (bucket_observations prevCount bs) \<subseteq> Le ` {b \<in> set bs. prevCount < BucketCount b}"
proof (induction bs arbitrary: prevCount)
  case (Cons b bs)
  show ?case
  proof (cases "BucketCount b \<le> prevCount")
    case True
    with Cons [of prevCount] show ?thesis by (auto simp: max_def)
  next
    case False
    with Cons [of "BucketCount b"] show ?thesis by (auto simp: max_def)
  qed
qed simp

lemma those_None: "those xs = None \<longleftrightarrow> None \<in> set xs"
  by (induction xs) (auto split: option.split)

definition counter_names :: "string set" where
  "counter_names = {''tentacle_connection_attempts_total'', ''tentacle_connection_failures_total'', ''tentacle_bytes_transmitted_total''}"

text \<open>The collector passes what a tentacle reports to the counters unchecked: a payload makes the program panic exactly
  when one of its counters is negative.\<close>

theorem negative_counter_panics:
  "processPayload unmarshal data = None \<longleftrightarrow>
    (\<exists>msg. unmarshal data = Some msg \<and> (\<exists>m \<in> set (Metrics msg).
       MetricName m \<in> counter_names \<and> MetricKind m = COUNTER \<and> negative (MetricValue m)))"
proof -
  have "process_metric msg m = None \<longleftrightarrow> MetricName m \<in> counter_names \<and> MetricKind m = COUNTER \<and> negative (MetricValue m)" for msg m
    by (simp add: process_metric_def add_counter_def counter_names_def)
  then have "None \<in> process_metric msg ` S \<longleftrightarrow> (\<exists>m \<in> S. MetricName m \<in> counter_names \<and> MetricKind m = COUNTER \<and> negative (MetricValue m))"
    for msg S by (simp add: image_iff eq_commute [of None])
  then show ?thesis by (simp add: processPayload_def those_None split: option.splits)
qed

theorem frames_are_processed_witness:
  "handleConnection (\<lambda>_. 7) (\<lambda>_. None) (concat (map (frame (\<lambda>_. 7)) [''ab'', []]) @ ''x'') = Some ([], ReadError)"
  by (subst frames_are_processed) (simp_all add: MaxFrameSize_def processPayload_def)

end
