(* ===== verification/Metrics.thy ===== *)
theory Metrics
  imports Serving Collector
begin

text \<open>
  \<open>internal/core/metrics/metrics.go\<close>: the metrics the core declares, and the calls on them with label values, those of a
  request (\<open>internal/core/proxy/proxy.go\<close>) and those of the collector. What Prometheus accepts as the value of a label is
  an argument (\<open>legal\<close>): \<open>WithLabelValues\<close> panics when the number of values is not that of the declared
  labels or a value is not accepted, and \<open>MustRegister\<close> panics for a name it knows.
\<close>

subsection \<open>Declarations\<close>

datatype metric_type = CounterType | GaugeType | HistogramType

record metric_desc =
  md_name :: string
  md_type :: metric_type
  md_labels :: "string list"

definition desc :: "string \<Rightarrow> metric_type \<Rightarrow> string list \<Rightarrow> metric_desc" where
  "desc n t ls = \<lparr>md_name = n, md_type = t, md_labels = ls\<rparr>"

definition declared_metrics :: "metric_desc list" where
  "declared_metrics =
     [desc ''nautrouds_requests_total'' CounterType [],
      desc ''nautrouds_errors_total'' CounterType [],
      desc ''nautrouds_config_updates_total'' CounterType [],
      desc ''nautrouds_active_requests'' GaugeType [],
      desc ''nautrouds_uptime_seconds'' GaugeType [],
      desc ''nautrouds_request_duration_seconds'' HistogramType [''method'', ''route''],
      desc ''nautrouds_upstream_duration_seconds'' HistogramType [''service'', ''node''],
      desc ''nautrouds_own_duration_seconds'' HistogramType [''route''],
      desc ''nautrouds_http_requests_total'' CounterType [''service'', ''status'', ''method''],
      desc ''nautrouds_request_bytes_total'' CounterType [''service''],
      desc ''nautrouds_response_bytes_total'' CounterType [''service''],
      desc ''nautrouds_service_nodes_active'' GaugeType [''service''],
      desc ''nautrouds_node_failures_total'' CounterType [''service'', ''node''],
      desc ''nautrouds_registry_scan_duration_seconds'' HistogramType [],
      desc ''nautrouds_config_reload_duration_seconds'' HistogramType [],
      desc ''nautrouds_config_errors_total'' CounterType [''type''],
      desc ''tentacle_active_connections'' GaugeType [''tentacle_id'', ''service''],
      desc ''tentacle_connection_attempts_total'' CounterType [''tentacle_id'', ''service''],
      desc ''tentacle_connection_failures_total'' CounterType [''tentacle_id'', ''service''],
      desc ''tentacle_bytes_transmitted_total'' CounterType [''tentacle_id'', ''service''],
      desc ''tentacle_transport_latency_seconds'' HistogramType [''tentacle_id'', ''service'']]"

fun MustRegister :: "metric_desc list \<Rightarrow> (string \<rightharpoonup> metric_desc) \<Rightarrow> (string \<rightharpoonup> metric_desc) option" where
  "MustRegister [] reg = Some reg"
| "MustRegister (d # ds) reg = (if reg (md_name d) \<noteq> None then None else MustRegister ds (reg(md_name d \<mapsto> d)))"

definition NewMetrics :: "(string \<rightharpoonup> metric_desc) option" where
  "NewMetrics = MustRegister declared_metrics Map.empty"

subsection \<open>Calls\<close>

text \<open>A metric by its name and the values given for its labels.\<close>

type_synonym metric_call = "string \<times> string list"

definition WithLabelValues :: "(string \<Rightarrow> bool) \<Rightarrow> (string \<rightharpoonup> metric_desc) \<Rightarrow> metric_call \<Rightarrow> metric_call option" where
  "WithLabelValues legal reg c =
     (case reg (fst c) of
        None \<Rightarrow> None
      | Some d \<Rightarrow> if length (snd c) = length (md_labels d) \<and> list_all legal (snd c) then Some c else None)"

text \<open>The deferred functions of \<open>ServeHTTP\<close>, the last one deferred first.\<close>

definition request_calls :: "route_node option \<Rightarrow> 'w serving \<Rightarrow> metric_call list" where
  "request_calls found sv =
     (let final = sv_final sv; m = r_method (sv_r sv); route = metricsRouteLabel found sv
      in (if found \<noteq> None \<and> \<not> no_metrics found then
            [(''nautrouds_http_requests_total'', [final, Itoa (t_status (sv_w sv)), m]),
             (''nautrouds_response_bytes_total'', [final])] @
            (if 0 < r_contentLength (sv_r sv) then [(''nautrouds_request_bytes_total'', [final])] else [])
          else []) @
         (if hijacked (sv_w sv) \<or> no_metrics found then []
          else [(''nautrouds_request_duration_seconds'', [m, route]), (''nautrouds_own_duration_seconds'', [route])]))"

fun update_call :: "update \<Rightarrow> metric_call" where
  "update_call (SetGauge name tentacle svc v) = (name, [tentacle, svc])"
| "update_call (AddCounter name tentacle svc v) = (name, [tentacle, svc])"
| "update_call (Observe name tentacle svc v) = (name, [tentacle, svc])"

subsection \<open>The calls fit the declarations\<close>

lemma MustRegister_distinct:
  "distinct (map md_name ds) \<Longrightarrow> \<forall>d \<in> set ds. reg (md_name d) = None \<Longrightarrow>
    MustRegister ds reg = Some (reg ++ map_of (map (\<lambda>d. (md_name d, d)) (rev ds)))"
proof (induction ds reg rule: MustRegister.induct)
  case (2 d ds reg)
  then have new: "reg (md_name d) = None" and ds: "distinct (map md_name ds)" "\<forall>e \<in> set ds. (reg(md_name d \<mapsto> d)) (md_name e) = None"
    by (auto simp: image_iff)
  have "MustRegister (d # ds) reg = MustRegister ds (reg(md_name d \<mapsto> d))" using new by simp
  also have "\<dots> = Some (reg(md_name d \<mapsto> d) ++ map_of (map (\<lambda>d. (md_name d, d)) (rev ds)))"
    by (rule "2.IH" [OF _ ds]) (simp add: new)
  finally show ?case by simp
qed simp

definition declared :: "string \<rightharpoonup> metric_desc" where
  "declared = map_of (map (\<lambda>d. (md_name d, d)) (rev declared_metrics))"

lemma NewMetrics_declared: "NewMetrics = Some declared"
proof -
  have "distinct (map md_name declared_metrics)" by code_simp
  from MustRegister_distinct [OF this, of Map.empty] show ?thesis by (simp add: NewMetrics_def declared_def)
qed

lemma declared_labels:
  "map_option (length \<circ> md_labels) (declared ''nautrouds_http_requests_total'') = Some 3"
  "map_option (length \<circ> md_labels) (declared ''nautrouds_response_bytes_total'') = Some 1"
  "map_option (length \<circ> md_labels) (declared ''nautrouds_request_bytes_total'') = Some 1"
  "map_option (length \<circ> md_labels) (declared ''nautrouds_request_duration_seconds'') = Some 2"
  "map_option (length \<circ> md_labels) (declared ''nautrouds_own_duration_seconds'') = Some 1"
  "map_option (length \<circ> md_labels) (declared ''tentacle_active_connections'') = Some 2"
  "map_option (length \<circ> md_labels) (declared ''tentacle_connection_attempts_total'') = Some 2"
  "map_option (length \<circ> md_labels) (declared ''tentacle_connection_failures_total'') = Some 2"
  "map_option (length \<circ> md_labels) (declared ''tentacle_bytes_transmitted_total'') = Some 2"
  "map_option (length \<circ> md_labels) (declared ''tentacle_transport_latency_seconds'') = Some 2"
  by code_simp+

definition fits_declaration :: "metric_call \<Rightarrow> bool" where
  "fits_declaration c \<longleftrightarrow> map_option (length \<circ> md_labels) (declared (fst c)) = Some (length (snd c))"

lemma WithLabelValues_fits: "fits_declaration c \<Longrightarrow> WithLabelValues legal declared c = (if list_all legal (snd c) then Some c else None)"
  by (cases "declared (fst c)") (auto simp: fits_declaration_def WithLabelValues_def)

lemma request_calls_fit: "list_all fits_declaration (request_calls found sv)"
  by (simp add: request_calls_def Let_def fits_declaration_def declared_labels)

lemma tentacle_fits:
  "fits_declaration (''tentacle_active_connections'', [a, b])" "fits_declaration (''tentacle_connection_attempts_total'', [a, b])"
  "fits_declaration (''tentacle_connection_failures_total'', [a, b])" "fits_declaration (''tentacle_bytes_transmitted_total'', [a, b])"
  "fits_declaration (''tentacle_transport_latency_seconds'', [a, b])"
  by (simp_all add: fits_declaration_def declared_labels)

lemma process_metric_fits: "process_metric msg m = Some us \<Longrightarrow> list_all (fits_declaration \<circ> update_call) us"
  by (auto simp: process_metric_def add_counter_def tentacle_fits list_all_iff split: if_splits)

lemma processPayload_fits:
  assumes "processPayload unmarshal data = Some us"
  shows "list_all (fits_declaration \<circ> update_call) us"
proof (cases "unmarshal data")
  case (Some msg)
  with assms obtain uss where "those (map (process_metric msg) (Metrics msg)) = Some uss" and us: "us = concat uss"
    by (auto simp: processPayload_def)
  then have "map (process_metric msg) (Metrics msg) = map Some uss" by (simp add: those_Some)
  then have "\<exists>m. process_metric msg m = Some vs" if "vs \<in> set uss" for vs
    using that by (metis (no_types, lifting) image_iff list.set_map)
  then show ?thesis using process_metric_fits by (fastforce simp: us list_all_iff)
qed (use assms in \<open>simp add: processPayload_def\<close>)

text \<open>All metrics register under names of their own, and every call a request or a pushed payload makes on one gives
  as many values as it has labels.\<close>

theorem metric_calls_fit:
  assumes "processPayload unmarshal data = Some us" and "c \<in> set (request_calls found sv) \<union> update_call ` set us"
  shows "\<exists>reg d. NewMetrics = Some reg \<and> reg (fst c) = Some d \<and> length (snd c) = length (md_labels d)"
proof -
  have "fits_declaration c"
    using assms(2) request_calls_fit [of found sv] processPayload_fits [OF assms(1)] by (auto simp: list_all_iff)
  then show ?thesis by (auto simp: NewMetrics_declared fits_declaration_def)
qed


text \<open>A request that found a route and whose service name has a byte beyond ASCII, where only ASCII is legal.\<close>

definition ascii :: "string \<Rightarrow> bool" where
  "ascii s \<longleftrightarrow> list_all (\<lambda>c. byte c < 128) s"

definition served :: "string \<Rightarrow> unit serving" where
  "served svc = new_serving fresh_writer (http_request (path_url ''/'' []) no_headers) NewRegistry
     \<lparr>n_failed = {}, n_reports = [], n_world = ()\<rparr> \<lparr>sv_raw := ''{query.v}'', sv_final := svc\<rparr>"

definition tagless_node :: route_node where
  "tagless_node = \<lparr>ActionIndex = 0, EdgeOffset = 0, EdgeCount = 0, Methods = MethodAny, Tags = 0\<rparr>"

lemma ascii_Itoa: "ascii (Itoa n)"
proof -
  have "ascii (Utoa k)" for k using Utoa_digits [of k] by (auto simp: ascii_def list_all_iff is_digit_def)
  moreover have "byte CHR ''-'' < 128" by (simp add: byte_def)
  ultimately show ?thesis by (simp add: Itoa_def ascii_def)
qed

theorem metric_calls_fit_witness:
  "\<exists>reg d. NewMetrics = Some reg \<and> reg ''nautrouds_own_duration_seconds'' = Some d \<and> 1 = length (md_labels d)"
proof -
  have "processPayload (\<lambda>_. None) [] = Some []" by (simp add: processPayload_def)
  from metric_calls_fit [OF this, of "(''nautrouds_own_duration_seconds'', [''404''])" None "served []"]
  show ?thesis by (simp add: request_calls_def metricsRouteLabel_def no_metrics_def served_def new_serving_def
      newTrackedResponseWriter_def http_request_def Let_def)
qed



subsection \<open>Own time\<close>

text \<open>
  \<open>owntime.go\<close>: a request carries an accumulator of the time spent outside. \<open>ForwardMiddleware\<close> adds the whole call, whatever it
  returns; the reverse proxy notes the time in its director and adds the difference when a response has come
  (\<open>ModifyResponse\<close>), so an attempt without a response adds nothing. Times are readings of the monotonic clock.
\<close>

datatype upstream_use = Middleware_Call int int | Proxied int int bool

fun use_begin :: "upstream_use \<Rightarrow> int" where
  "use_begin (Middleware_Call b e) = b"
| "use_begin (Proxied b e answered) = b"

fun use_end :: "upstream_use \<Rightarrow> int" where
  "use_end (Middleware_Call b e) = e"
| "use_end (Proxied b e answered) = e"

fun upstream_duration :: "upstream_use \<Rightarrow> int option" where
  "upstream_duration (Middleware_Call b e) = Some (e - b)"
| "upstream_duration (Proxied b e answered) = (if answered then Some (e - b) else None)"

text \<open>A context without an accumulator is \<^const>\<open>None\<close>.\<close>

definition NewOwnTimeContext :: "int option" where
  "NewOwnTimeContext = Some 0"

definition AddExternalDuration :: "int option \<Rightarrow> int \<Rightarrow> int option" where
  "AddExternalDuration ctx d = map_option (\<lambda>acc. acc + d) ctx"

definition record_use :: "int option \<Rightarrow> upstream_use \<Rightarrow> int option" where
  "record_use ctx u = (case upstream_duration u of None \<Rightarrow> ctx | Some d \<Rightarrow> AddExternalDuration ctx d)"

text \<open>The two durations the deferred function of \<open>ServeHTTP\<close> observes, when it observes any.\<close>

definition request_durations :: "route_node option \<Rightarrow> 'w serving \<Rightarrow> int \<Rightarrow> upstream_use list \<Rightarrow> int \<Rightarrow> (int \<times> int) option" where
  "request_durations found sv start uses now =
     (if hijacked (sv_w sv) \<or> no_metrics found then None
      else let total = now - start in map_option (\<lambda>externalNs. (total, total - externalNs)) (foldl record_use NewOwnTimeContext uses))"

text \<open>\<open>Hijack\<close> of the tracked writer (\<open>internal/core/proxy/tracked_response.go\<close>): \<^const>\<open>None\<close> when the writer below cannot be
  hijacked, else whether it succeeds. The result says whether there is a connection.\<close>

definition Hijack :: "bool option \<Rightarrow> tracked \<Rightarrow> bool \<times> tracked" where
  "Hijack below w =
     (case below of
        Some True \<Rightarrow> (True, w\<lparr>hijacked := True\<rparr>)
      | _ \<Rightarrow> (False, w))"

lemma hijacked_unobserved: "fst (Hijack below w) \<Longrightarrow> sv_w sv = snd (Hijack below w) \<Longrightarrow> request_durations found sv start uses now = None"
  by (simp add: Hijack_def request_durations_def split: option.splits bool.splits)

text \<open>The calls of a request follow each other.\<close>

fun in_order :: "int \<Rightarrow> upstream_use list \<Rightarrow> int \<Rightarrow> bool" where
  "in_order t [] now \<longleftrightarrow> t \<le> now"
| "in_order t (u # uses) now \<longleftrightarrow> t \<le> use_begin u \<and> use_begin u \<le> use_end u \<and> in_order (use_end u) uses now"

definition measured :: "upstream_use \<Rightarrow> int" where
  "measured u = (case upstream_duration u of None \<Rightarrow> 0 | Some d \<Rightarrow> d)"

lemma record_uses: "foldl record_use (Some acc) uses = Some (acc + sum_list (map measured uses))"
  by (induction uses arbitrary: acc) (auto simp: record_use_def measured_def AddExternalDuration_def split: option.split)

lemma measured_bounds: "use_begin u \<le> use_end u \<Longrightarrow> 0 \<le> measured u \<and> measured u \<le> use_end u - use_begin u"
  by (cases u) (auto simp: measured_def)

lemma measured_fits: "in_order t uses now \<Longrightarrow> 0 \<le> sum_list (map measured uses) \<and> sum_list (map measured uses) \<le> now - t"
proof (induction uses arbitrary: t)
  case (Cons u uses)
  then have u: "t \<le> use_begin u" "use_begin u \<le> use_end u" and "in_order (use_end u) uses now" by simp_all
  from Cons.IH [OF this(3)] measured_bounds [OF u(2)] u show ?case by simp
qed simp

text \<open>The own time of a request lies between zero and its whole time, and what is missing is exactly the time of the
  middleware calls and of the answered attempts.\<close>

theorem own_time_bounds:
  assumes "in_order start uses now" and "request_durations found sv start uses now = Some (whole, own)"
  shows "0 \<le> own \<and> own \<le> whole \<and> whole = now - start \<and> whole - own = sum_list (map measured uses)"
  using assms measured_fits [OF assms(1)]
  by (auto simp: request_durations_def NewOwnTimeContext_def record_uses Let_def split: if_splits)

text \<open>An attempt that fails counts as own time, however long the node took to fail.\<close>

theorem own_time_bounds_witness:
  "\<exists>whole own. request_durations None (served []) 0 [Proxied 10 60 False, Proxied 60 80 True] 100 = Some (whole, own) \<and>
     0 \<le> own \<and> whole - own = 20"
proof -
  have r: "request_durations None (served []) 0 [Proxied 10 60 False, Proxied 60 80 True] 100 = Some (100, 80)"
    by (simp add: request_durations_def served_def no_metrics_def new_serving_def newTrackedResponseWriter_def http_request_def
        NewOwnTimeContext_def record_use_def AddExternalDuration_def)
  from own_time_bounds [OF _ r] r show ?thesis by (auto simp: measured_def)
qed

end
