(* ===== verification/Config_Watcher.thy ===== *)
theory Config_Watcher
  imports Compiler_Correct Go_Text
begin

text \<open>
  \<open>internal/core/configwatcher/watcher.go\<close>: where the first route table comes from, which file events cause a reload, and what
  a reload does. The gob decoder and what running \<open>ntuc\<close> gives are arguments; \<open>fsnotify\<close>, the directory it watches and
  the metrics are left out.
\<close>

subsection \<open>Loading\<close>

record config_watcher =
  configFileName :: string
  fullConfigPath :: string
  isSource :: bool
  defaultWelcome :: bool

text \<open>\<open>filepath.Abs\<close> is an argument, with \<^const>\<open>None\<close> for its error.\<close>

definition NewConfigWatcher :: "(string \<Rightarrow> string option) \<Rightarrow> string \<Rightarrow> bool \<Rightarrow> config_watcher" where
  "NewConfigWatcher abs_path configPath welcome =
     \<lparr>configFileName = path_Base configPath,
      fullConfigPath = (case abs_path configPath of Some p \<Rightarrow> p | None \<Rightarrow> configPath),
      isSource = (\<not> has_suffix configPath ''.ntu''),
      defaultWelcome = welcome\<rparr>"

text \<open>Running \<open>ntuc -i path -o -\<close>: no pipe, no start, or what it printed and whether it succeeded.\<close>

datatype ntuc_result = PipeError | StartError | Ran string bool

text \<open>What loading finds: whether \<open>os.Stat\<close> says the file does not exist, the text of a piped standard input, the
  file's text when it can be opened, and the run of \<open>ntuc\<close>.\<close>

record found =
  fo_missing :: bool
  fo_stdin :: "string option"
  fo_file :: "string option"
  fo_ntuc :: ntuc_result

definition loadStatic :: "(string \<Rightarrow> route_tree option) \<Rightarrow> found \<Rightarrow> route_tree option" where
  "loadStatic decode f = (case fo_file f of None \<Rightarrow> None | Some s \<Rightarrow> decode s)"

definition compileAndLoad :: "(string \<Rightarrow> route_tree option) \<Rightarrow> found \<Rightarrow> route_tree option" where
  "compileAndLoad decode f =
     (case fo_ntuc f of
        PipeError \<Rightarrow> None
      | StartError \<Rightarrow> None
      | Ran stdout success \<Rightarrow> (let tree = decode stdout in if \<not> success then None else tree))"

definition load_table :: "(string \<Rightarrow> route_tree option) \<Rightarrow> config_watcher \<Rightarrow> found \<Rightarrow> route_tree option" where
  "load_table decode cw f = (if isSource cw then compileAndLoad decode f else loadStatic decode f)"

text \<open>\<open>welcomeGeneration\<close>, which dereferences the tree; the outer \<^const>\<open>None\<close> is a panic.\<close>

definition welcomeGeneration :: "outside \<Rightarrow> (string \<Rightarrow> string list option) \<Rightarrow> route_tree option option" where
  "welcomeGeneration out split =
     (case ParseString out split ''$welcome'' of
        None \<Rightarrow> None
      | Some (Inl e) \<Rightarrow> Some None
      | Some (Inr None) \<Rightarrow> None
      | Some (Inr (Some t)) \<Rightarrow> Some (Some t))"

text \<open>The table \<open>LoadInitial\<close> decides for.\<close>

definition initial_table :: "outside \<Rightarrow> (string \<Rightarrow> string list option) \<Rightarrow> (string \<Rightarrow> route_tree option) \<Rightarrow> config_watcher \<Rightarrow> found \<Rightarrow>
    route_tree option option" where
  "initial_table out split decode cw f =
     (if defaultWelcome cw \<and> fo_missing f
      then case fo_stdin f of Some s \<Rightarrow> Some (decode s) | None \<Rightarrow> welcomeGeneration out split
      else Some (load_table decode cw f))"

text \<open>\<open>UpdateGeneration\<close> builds the caches and stores the generation; \<^const>\<open>None\<close> is a panic.\<close>

definition UpdateGeneration :: "outside \<Rightarrow> (request \<Rightarrow> string list) \<Rightarrow> route_tree \<Rightarrow> 'm generation option" where
  "UpdateGeneration out names t = InitCaches out names (new_generation t)"

text \<open>The generation in service, unless loading fails.\<close>

definition LoadInitial :: "outside \<Rightarrow> (request \<Rightarrow> string list) \<Rightarrow> (string \<Rightarrow> string list option) \<Rightarrow> (string \<Rightarrow> route_tree option) \<Rightarrow>
    config_watcher \<Rightarrow> found \<Rightarrow> 'm generation option option" where
  "LoadInitial out names split decode cw f =
     (case initial_table out split decode cw f of
        None \<Rightarrow> None
      | Some None \<Rightarrow> Some None
      | Some (Some t) \<Rightarrow> map_option Some (UpdateGeneration out names t))"

text \<open>A failed reload keeps the generation in service.\<close>

definition reload :: "outside \<Rightarrow> (request \<Rightarrow> string list) \<Rightarrow> (string \<Rightarrow> route_tree option) \<Rightarrow> config_watcher \<Rightarrow> found \<Rightarrow>
    'm generation \<Rightarrow> 'm generation option" where
  "reload out names decode cw f current =
     (case load_table decode cw f of None \<Rightarrow> Some current | Some t \<Rightarrow> UpdateGeneration out names t)"

subsection \<open>Events\<close>

datatype file_op = OpCreate | OpWrite | OpRemove | OpRename | OpChmod

text \<open>Whether an event of \<open>listen\<close> starts the timer anew.\<close>

definition starts_timer :: "config_watcher \<Rightarrow> string \<Rightarrow> file_op list \<Rightarrow> bool" where
  "starts_timer cw name ops \<longleftrightarrow> path_Base name = configFileName cw \<and> set ops \<inter> {OpWrite, OpCreate, OpRename} \<noteq> {}"

text \<open>
  The reloads over time. A timer that fires starts a reload in a goroutine of its own, which reads the file
  then and stores its generation later; \<open>timer.Stop\<close> does not wait for one that runs. \<open>'c\<close> is the contents of
  the file, and \<open>load\<close> gives the generation of a content, or \<^const>\<open>None\<close> when it does not load.
\<close>

record ('c, 'g) reloading =
  rl_file :: 'c
  rl_events :: nat
  rl_timer :: bool
  rl_running :: "'g option list"
  rl_current :: 'g

inductive reload_step :: "('c \<Rightarrow> 'g option) \<Rightarrow> ('c, 'g) reloading \<Rightarrow> ('c, 'g) reloading \<Rightarrow> bool"
  for load :: "'c \<Rightarrow> 'g option" where
  save: "reload_step load s (s\<lparr>rl_file := c, rl_events := rl_events s + 1\<rparr>)"
| event: "0 < rl_events s \<Longrightarrow> reload_step load s (s\<lparr>rl_events := rl_events s - 1, rl_timer := True\<rparr>)"
| fire: "rl_timer s \<Longrightarrow> reload_step load s (s\<lparr>rl_timer := False, rl_running := rl_running s @ [load (rl_file s)]\<rparr>)"
| finish: "rl_running s = before @ r # after \<Longrightarrow>
    reload_step load s (s\<lparr>rl_running := before @ after,
      rl_current := (case r of None \<Rightarrow> rl_current s | Some g \<Rightarrow> g)\<rparr>)"

definition start_reloading :: "'c \<Rightarrow> 'g \<Rightarrow> ('c, 'g) reloading" where
  "start_reloading c g = \<lparr>rl_file = c, rl_events = 0, rl_timer = False, rl_running = [], rl_current = g\<rparr>"

definition quiet :: "('c, 'g) reloading \<Rightarrow> bool" where
  "quiet s \<longleftrightarrow> rl_events s = 0 \<and> \<not> rl_timer s \<and> rl_running s = []"

text \<open>Runs in which no timer fires while a reload is running.\<close>

inductive serial_reloads :: "('c \<Rightarrow> 'g option) \<Rightarrow> ('c, 'g) reloading \<Rightarrow> ('c, 'g) reloading \<Rightarrow> bool"
  for load :: "'c \<Rightarrow> 'g option" where
  refl: "serial_reloads load s s"
| step: "serial_reloads load s t \<Longrightarrow> reload_step load t u \<Longrightarrow> length (rl_running u) \<le> 1 \<Longrightarrow> serial_reloads load s u"

subsection \<open>What is in service when all is quiet\<close>

definition reload_inv :: "('c \<Rightarrow> 'g option) \<Rightarrow> ('c, 'g) reloading \<Rightarrow> bool" where
  "reload_inv load s \<longleftrightarrow> length (rl_running s) \<le> 1 \<and>
     (rl_events s = 0 \<and> \<not> rl_timer s \<longrightarrow>
        (case rl_running s of
           [] \<Rightarrow> (\<forall>g. load (rl_file s) = Some g \<longrightarrow> rl_current s = g)
         | r # _ \<Rightarrow> r = load (rl_file s)))"

lemma reload_inv_step:
  assumes "reload_step load s t" and "reload_inv load s" and "length (rl_running t) \<le> 1"
  shows "reload_inv load t"
  using assms(1)
proof cases
  case fire
  with assms(3) have "rl_running s = []" by simp
  with fire show ?thesis by (simp add: reload_inv_def)
next
  case (finish before r after)
  with assms(2) have "before = []" "after = []" by (auto simp: reload_inv_def)
  with finish assms(2) show ?thesis by (auto simp: reload_inv_def)
qed (use assms(2) in \<open>auto simp: reload_inv_def split: list.splits\<close>)

lemma serial_reloads_inv: "serial_reloads load s t \<Longrightarrow> reload_inv load s \<Longrightarrow> reload_inv load t"
  by (induction rule: serial_reloads.induct) (auto intro: reload_inv_step)


text \<open>C20. Two reloads that overlap can finish in the wrong order: an old table stays in service although everything is
  quiet and the file loads.\<close>

theorem stale_reload_stays:
  assumes "load c1 = Some g1" and "load c2 = Some g2"
  shows "\<exists>s. (reload_step load)\<^sup>*\<^sup>* (start_reloading c0 g0) s \<and> quiet s \<and> rl_file s = c2 \<and> rl_current s = g1"
proof -
  let ?s = "\<lambda>c e t r g. \<lparr>rl_file = c, rl_events = e, rl_timer = t, rl_running = r, rl_current = g\<rparr>"
  have "reload_step load (?s c0 0 False [] g0) (?s c1 1 False [] g0)"
    using reload_step.save [of load "?s c0 0 False [] g0" c1] by simp
  moreover have "reload_step load (?s c1 1 False [] g0) (?s c1 0 True [] g0)"
    using reload_step.event [of "?s c1 1 False [] g0" load] by simp
  moreover have "reload_step load (?s c1 0 True [] g0) (?s c1 0 False [Some g1] g0)"
    using reload_step.fire [of "?s c1 0 True [] g0" load] assms(1) by simp
  moreover have "reload_step load (?s c1 0 False [Some g1] g0) (?s c2 1 False [Some g1] g0)"
    using reload_step.save [of load "?s c1 0 False [Some g1] g0" c2] by simp
  moreover have "reload_step load (?s c2 1 False [Some g1] g0) (?s c2 0 True [Some g1] g0)"
    using reload_step.event [of "?s c2 1 False [Some g1] g0" load] by simp
  moreover have "reload_step load (?s c2 0 True [Some g1] g0) (?s c2 0 False [Some g1, Some g2] g0)"
    using reload_step.fire [of "?s c2 0 True [Some g1] g0" load] assms(2) by simp
  moreover have "reload_step load (?s c2 0 False [Some g1, Some g2] g0) (?s c2 0 False [Some g1] g2)"
    using reload_step.finish [of "?s c2 0 False [Some g1, Some g2] g0" "[Some g1]" "Some g2" "[]" load] by simp
  moreover have "reload_step load (?s c2 0 False [Some g1] g2) (?s c2 0 False [] g1)"
    using reload_step.finish [of "?s c2 0 False [Some g1] g2" "[]" "Some g1" "[]" load] by simp
  ultimately have "(reload_step load)\<^sup>*\<^sup>* (?s c0 0 False [] g0) (?s c2 0 False [] g1)"
    by (meson rtranclp.rtrancl_into_rtrancl rtranclp.rtrancl_refl)
  then show ?thesis by (intro exI [of _ "?s c2 0 False [] g1"]) (simp add: start_reloading_def quiet_def)
qed

theorem stale_reload_stays_witness:
  "\<exists>s. (reload_step (\<lambda>c :: nat. Some c))\<^sup>*\<^sup>* (start_reloading 0 0) s \<and> quiet s \<and> rl_file s = 2 \<and> rl_current s = 1"
  by (rule stale_reload_stays) simp_all


subsection \<open>The welcome page\<close>

definition welcome_route :: raw_node where
  "welcome_route = \<lparr>URL = ''**'', Service = ''$welcome'', Middlewares = [], RawMethods = ''*'', RawTags = []\<rparr>"

lemma compile_welcome:
  assumes "split ''$welcome'' = Some [''$welcome'']"
  shows "compile_text out split ''$welcome'' False = Inr [welcome_route]"
proof -
  have s: "scan_text ''$welcome'' = ([''$welcome''], False)"
    by (simp add: scan_text_def MaxScanTokenSize_def dropCR_def trim_suffix_def has_suffix_def)
  have t: "Tokenize 1 ''$welcome'' new_tokenizer = Inr ([new_part ''$welcome'' Text [] 0 (pos_at 1 0 False)], new_tokenizer)"
    and k: "IsComment ''$welcome'' False = (False, False)" and m: "check_methods ''$welcome'' ''*'' = None"
    and x: "expandField ''**'' = Some [''**'']" "normalizeURL ''**'' = ''**''" and c: "Close new_tokenizer = None"
    and d: "ParseDirective ''$welcome'' = Some (''$welcome'', [])" and v: "virtual_IsValid ''$welcome'' = (True, [])" by code_simp+
  have svc: "check_service out ''$welcome'' ''$welcome'' = None"
    by (simp add: check_service_def v rejects_arguments_def d virtual_factory_def Welcome_def CheckArgCount_def)
  let ?r = "\<lparr>rr_node = \<lparr>URL = [], Service = ''$welcome'', Middlewares = [], RawMethods = ''*'', RawTags = []\<rparr>, rr_urls = [''**'']\<rparr>"
  have "rule_Parse out split (new_part ''$welcome'' Text [] 0 (pos_at 1 0 False)) None = Inr (Some ?r)"
    using assms svc m x by (simp add: rule_Parse_def part_String_def new_part_def rule_fields_def)
  moreover have "rule_warnings split (new_part ''$welcome'' Text [] 0 (pos_at 1 0 False)) = []"
    using assms by (simp add: rule_warnings_def part_String_def new_part_def)
  moreover have "IsRule (new_part ''$welcome'' Text [] 0 (pos_at 1 0 False))" by (simp add: IsRule_def new_part_def pos_at_def)
  ultimately have "lines_loop out split [''$welcome''] new_compiler = Inr (new_compiler\<lparr>lineCount := 1, co_lines := [''$welcome''], co_rule := Some ?r\<rparr>)"
    using t k by (simp add: line_step_def new_compiler_def Let_def warn_empty_def new_part_def flush_rule_def warn_def)
  then show ?thesis
    by (simp add: compile_text_def compile_run_def s finish_parse_def c new_compiler_def parseRule_def welcome_route_def)
qed

lemma welcome_answer:
  assumes "req \<noteq> []" and "\<not> is_wild (hd req)"
  shows "\<exists>l. trie_answer [welcome_route] req = Some (Some l)"
proof -
  obtain c r where req: "req = c # r" using assms(1) by (cases req) auto
  have u: "star_bytes ''**'' = [WildcardGreedy]" "ReverseHost [WildcardGreedy] = [WildcardGreedy]"
    "parseMethods ''*'' = MethodAny" "countWildcards [WildcardGreedy] \<le> MaxWildcardsPerRoute" "MethodAny \<noteq> 0" by code_simp+
  obtain a t m where a: "add_actions welcome_route (empty_tree, Map.empty) = (a, t, m)" by (cases "add_actions welcome_route (empty_tree, Map.empty)")
  let ?l = "(a, MethodAny, analyze_tags [])"
  have "add_routes [welcome_route] (no_roots, empty_tree, Map.empty) = Some (insert_route no_roots [WildcardGreedy] ?l, t, m)"
    using u a by (simp add: add_route_def Let_def welcome_route_def)
  moreover have "spec_search (compress_roots (insert_route no_roots [WildcardGreedy] ?l)) req = Some ?l"
    using assms(2) u(5) by (simp add: req spec_search_def spec_root_def compress_roots_def insert_route_def no_roots_def is_wild_def new_build_node_def
        compress_node_def)
  ultimately show ?thesis by (auto simp: trie_answer_def)
qed

lemma missing_config_welcome:
  fixes out :: outside and names :: "request \<Rightarrow> string list"
  assumes "split ''$welcome'' = Some [''$welcome'']" and "defaultWelcome cw" and "fo_missing f" and "fo_stdin f = None"
  shows "\<exists>g :: 'm generation. LoadInitial out names split decode cw f = Some (Some g) \<and>
    (\<forall>req. req \<noteq> [] \<and> \<not> is_wild (hd req) \<longrightarrow>
       (\<exists>n. Search (g_tree g) req = Some (Found n) \<and> serves (g_tree g) n welcome_route))"
proof -
  have ok: "text_routes [welcome_route]" "length (URL welcome_route) \<le> 21760" "URL welcome_route \<noteq> []"
    "parseMethods (RawMethods welcome_route) \<noteq> 0" "count_wilds (star_bytes (URL welcome_route)) \<le> MaxWildcardsPerRoute"
    by (simp_all add: text_routes_def welcome_route_def, code_simp+)
  from Build_exists [of "[welcome_route]"] ok obtain t where t: "Build [welcome_route] = Some (Some t)" by auto
  have w: "winner [welcome_route] u = (if u = lookup_path welcome_route then Some welcome_route else None)" for u
    by (simp add: winner_def)
  have m: "Middlewares welcome_route = []" by (simp add: welcome_route_def)
  have "(InitCaches out names (new_generation t) :: 'm generation option) \<noteq> None"
    using loading_panics [OF t ok(1), of out names] ok(3) m w by (auto split: if_splits)
  then obtain g :: "'m generation" where g: "InitCaches out names (new_generation t) = Some g" by blast
  have "g_tree (new_generation t :: 'm generation) = t" by (simp add: new_generation_def)
  from InitCaches_ok(1) [OF g this] have gt: "g_tree g = t" by (simp add: gen_sound_def)
  have "ParseString out split ''$welcome'' = Some (Inr (Some t))"
    using compile_welcome [where split = split, OF assms(1)] t by (simp add: ParseString_def Parse_def)
  then have l: "LoadInitial out names split decode cw f = Some (Some g)"
    using assms(2-4) g by (simp add: LoadInitial_def initial_table_def welcomeGeneration_def UpdateGeneration_def)
  have "\<exists>n. Search t req = Some (Found n) \<and> serves t n welcome_route" if req: "req \<noteq> []" "\<not> is_wild (hd req)" for req
  proof -
    from welcome_answer [OF req] obtain l where "trie_answer [welcome_route] req = Some (Some l)" by blast
    with Build_answer [of "[welcome_route]" req] ok req(2) t have f: "fits t" "gives (Search t req) (Some l)" by auto
    then obtain n where n: "Search t req = Some (Found n)" by (auto dest: gives_Some)
    from Search_finds [OF t ok(1) f(1) _ req] n ok(3) w show ?thesis by (auto split: if_splits)
  qed
  with l gt show ?thesis by blast
qed



end
