(* ===== verification/Mmfg_Hub.thy ===== *)
theory Mmfg_Hub
  imports Node_Scan
begin

text \<open>
  \<open>internal/core/mmfg/mmfg_unix.go\<close>: the handler of \<open>.mmfg\<close> sockets, which dials every node once and
  forgets the nodes that are gone. Dialing is an operation of the library \<open>mmfghttp\<close>: \<open>dial\<close> says whether it
  succeeds for a node name, its socket and its control socket. The paths come from the walk and lie
  below the base directory, so \<open>filepath.Rel\<close> has no error.
\<close>

definition nodeSuffix :: string where "nodeSuffix = ''.mmfg''"
definition controlSuffix :: string where "controlSuffix = ''.ctl.mmfg''"

record hub =
  dialed :: "string \<Rightarrow> string option"

definition NewHub :: hub where
  "NewHub = \<lparr>dialed = Map.empty\<rparr>"

definition isControlSocket :: "string \<Rightarrow> bool" where
  "isControlSocket path \<longleftrightarrow> has_suffix path controlSuffix"

definition nodeKey :: "string \<Rightarrow> string \<Rightarrow> string" where
  "nodeKey baseDir path =
     (let rel = relative baseDir path
      in if has_suffix rel controlSuffix then trim_suffix rel controlSuffix else trim_suffix rel nodeSuffix)"

definition controls :: "string \<Rightarrow> string list \<Rightarrow> string \<Rightarrow> string option" where
  "controls baseDir paths = fold (\<lambda>p m. if isControlSocket p then m(nodeKey baseDir p \<mapsto> p) else m) paths Map.empty"

definition splitNodesAndControls :: "string \<Rightarrow> string list \<Rightarrow> string list \<times> (string \<Rightarrow> string option)" where
  "splitNodesAndControls baseDir paths = (filter (\<lambda>p. \<not> isControlSocket p) paths, controls baseDir paths)"

text \<open>Whether there was no error, and the hub.\<close>

definition dialNode :: "(string \<Rightarrow> string \<Rightarrow> string \<Rightarrow> bool) \<Rightarrow> string \<Rightarrow> string \<Rightarrow> string \<Rightarrow> string \<Rightarrow> hub \<Rightarrow> bool \<times> hub" where
  "dialNode dial baseDir svc mainPath controlPath h =
     (if dialed h mainPath \<noteq> None then (True, h)
      else if \<not> dial (nodeKey baseDir mainPath) mainPath controlPath then (False, h)
      else (True, h\<lparr>dialed := (dialed h)(mainPath \<mapsto> svc)\<rparr>))"

definition control_of :: "string \<Rightarrow> string list \<Rightarrow> string \<Rightarrow> string" where
  "control_of baseDir paths p = (case snd (splitNodesAndControls baseDir paths) (nodeKey baseDir p) of None \<Rightarrow> [] | Some c \<Rightarrow> c)"

definition dialDiscovered :: "(string \<Rightarrow> string \<Rightarrow> string \<Rightarrow> bool) \<Rightarrow> string \<Rightarrow> string \<Rightarrow> string list \<Rightarrow> hub \<Rightarrow> bool \<times> hub" where
  "dialDiscovered dial baseDir svc paths h =
     fold (\<lambda>p (ok, h). let (ok', h') = dialNode dial baseDir svc p (control_of baseDir paths p) h in (ok \<and> ok', h'))
       (fst (splitNodesAndControls baseDir paths)) (True, h)"

definition Hub_ApplyFullScan :: "(string \<Rightarrow> string \<Rightarrow> string \<Rightarrow> bool) \<Rightarrow> string \<Rightarrow> (string \<times> string list) list \<Rightarrow> hub \<Rightarrow> bool \<times> hub" where
  "Hub_ApplyFullScan dial baseDir byService h =
     (let current = {p \<in> found_paths byService. \<not> isControlSocket p};
          h = h\<lparr>dialed := (\<lambda>p. if p \<in> current then dialed h p else None)\<rparr>
      in fold (\<lambda>(svc, paths) (ok, h). let (ok', h') = dialDiscovered dial baseDir svc paths h in (ok \<and> ok', h'))
           byService (True, h))"

definition Hub_ApplyServiceScan :: "(string \<Rightarrow> string \<Rightarrow> string \<Rightarrow> bool) \<Rightarrow> string \<Rightarrow> string \<Rightarrow> string list \<Rightarrow> hub \<Rightarrow> bool \<times> hub" where
  "Hub_ApplyServiceScan dial baseDir svc discovered h =
     (let current = {p \<in> set discovered. \<not> isControlSocket p};
          h = h\<lparr>dialed := (\<lambda>p. if dialed h p = Some svc \<and> p \<notin> current then None else dialed h p)\<rparr>
      in dialDiscovered dial baseDir svc discovered h)"

subsection \<open>The control socket of a node\<close>

lemma controls_Some:
  "controls baseDir paths k = Some c \<Longrightarrow> c \<in> set paths \<and> isControlSocket c \<and> nodeKey baseDir c = k"
  "(\<exists>c \<in> set paths. isControlSocket c \<and> nodeKey baseDir c = k) \<Longrightarrow> controls baseDir paths k \<noteq> None"
proof -
  have "(controls baseDir paths k = Some c \<longrightarrow> c \<in> set paths \<and> isControlSocket c \<and> nodeKey baseDir c = k) \<and>
      ((\<exists>c \<in> set paths. isControlSocket c \<and> nodeKey baseDir c = k) \<longrightarrow> controls baseDir paths k \<noteq> None)"
    by (induction paths rule: rev_induct) (auto simp: controls_def)
  then show "controls baseDir paths k = Some c \<Longrightarrow> c \<in> set paths \<and> isControlSocket c \<and> nodeKey baseDir c = k"
    "(\<exists>c \<in> set paths. isControlSocket c \<and> nodeKey baseDir c = k) \<Longrightarrow> controls baseDir paths k \<noteq> None" by blast+
qed

lemma relative_append [simp]: "relative baseDir (baseDir @ CHR ''/'' # rel) = rel"
  by (simp add: relative_def)

lemma trim_suffix_append [simp]: "trim_suffix (a @ p) p = a"
  by (simp add: trim_suffix_def)

lemma nodeKey_control: "nodeKey baseDir (baseDir @ ''/'' @ k @ controlSuffix) = k"
  by (simp add: nodeKey_def Let_def)

lemma nodeKey_main:
  assumes "\<not> has_suffix (k @ nodeSuffix) controlSuffix"
  shows "nodeKey baseDir (baseDir @ CHR ''/'' # k @ nodeSuffix) = k"
proof -
  have "relative baseDir (baseDir @ CHR ''/'' # k @ nodeSuffix) = k @ nodeSuffix" by simp
  with assms show ?thesis by (simp only: nodeKey_def Let_def if_False trim_suffix_append)
qed

lemma nodeKey_inverse:
  assumes "has_suffix rel controlSuffix" and "nodeKey baseDir (baseDir @ ''/'' @ rel) = k"
  shows "rel = k @ controlSuffix"
  using assms by (auto simp: nodeKey_def Let_def has_suffix_iff)

text \<open>A node is dialed with the control socket beside it: for a socket \<open>k.mmfg\<close> the hub finds \<open>k.ctl.mmfg\<close>
  when the scan found it, and no control socket otherwise.\<close>

theorem control_socket_found:
  assumes "\<forall>p \<in> set paths. \<exists>rel. p = baseDir @ ''/'' @ rel \<and> (has_suffix p controlSuffix \<longrightarrow> has_suffix rel controlSuffix)"
    and "\<not> has_suffix (k @ nodeSuffix) controlSuffix"
  shows "control_of baseDir paths (baseDir @ ''/'' @ k @ nodeSuffix) =
    (if baseDir @ ''/'' @ k @ controlSuffix \<in> set paths then baseDir @ ''/'' @ k @ controlSuffix else [])"
proof (cases "controls baseDir paths k")
  case None
  have "isControlSocket (baseDir @ ''/'' @ k @ controlSuffix)"
    using has_suffix_append [of "baseDir @ ''/'' @ k" controlSuffix] by (simp add: isControlSocket_def)
  with None controls_Some(2) [of paths baseDir k] nodeKey_control [of baseDir k]
  have "baseDir @ ''/'' @ k @ controlSuffix \<notin> set paths" by blast
  with None assms(2) show ?thesis by (simp add: control_of_def splitNodesAndControls_def nodeKey_main)
next
  case (Some c)
  from controls_Some(1) [OF this] have c: "c \<in> set paths" "isControlSocket c" "nodeKey baseDir c = k" by auto
  from assms(1) c(1) obtain rel where rel: "c = baseDir @ ''/'' @ rel"
    "has_suffix c controlSuffix \<longrightarrow> has_suffix rel controlSuffix" by blast
  with c(2) have "has_suffix rel controlSuffix" by (simp add: isControlSocket_def)
  with c(3) rel(1) have "c = baseDir @ ''/'' @ k @ controlSuffix" using nodeKey_inverse [of rel baseDir k] by simp
  with Some c(1) assms(2) show ?thesis by (simp add: control_of_def splitNodesAndControls_def nodeKey_main)
qed

theorem control_socket_found_witness:
  "control_of ''d'' [''d/s/a.mmfg'', ''d/s/a.ctl.mmfg''] ''d/s/a.mmfg'' = ''d/s/a.ctl.mmfg''"
proof -
  have "\<exists>rel. p = ''d'' @ ''/'' @ rel \<and> (has_suffix p controlSuffix \<longrightarrow> has_suffix rel controlSuffix)"
    if "p \<in> set [''d/s/a.mmfg'', ''d/s/a.ctl.mmfg'']" for p
    using that by (intro exI [of _ "drop 2 p"]) (auto simp: has_suffix_def controlSuffix_def)
  with control_socket_found [of "[''d/s/a.mmfg'', ''d/s/a.ctl.mmfg'']" "''d''" "''s/a''"]
  show ?thesis by (simp add: nodeSuffix_def controlSuffix_def has_suffix_def)
qed

subsection \<open>The nodes the hub has dialed\<close>

lemma fold_dial:
  "dialed (snd (fold (\<lambda>p (ok, h). let (ok', h') = dialNode dial baseDir svc p (control_of baseDir paths p) h in (ok \<and> ok', h')) ps (b, h))) q =
     (if dialed h q \<noteq> None then dialed h q
      else if q \<in> set ps \<and> dial (nodeKey baseDir q) q (control_of baseDir paths q) then Some svc else None)"
proof (induction ps arbitrary: b h)
  case (Cons p ps)
  obtain b' h' where e: "dialNode dial baseDir svc p (control_of baseDir paths p) h = (b', h')" by fastforce
  then have "dialed h' q = (if q = p \<and> dialed h p = None \<and> dial (nodeKey baseDir p) p (control_of baseDir paths p) then Some svc else dialed h q)"
    by (auto simp: dialNode_def split: if_splits)
  with Cons.IH [of "b \<and> b'" h'] e show ?case by auto
qed simp

lemma dialDiscovered_dialed:
  "dialed (snd (dialDiscovered dial baseDir svc paths h)) q =
     (if dialed h q \<noteq> None then dialed h q
      else if q \<in> set paths \<and> \<not> isControlSocket q \<and> dial (nodeKey baseDir q) q (control_of baseDir paths q) then Some svc else None)"
  unfolding dialDiscovered_def fold_dial by (simp add: splitNodesAndControls_def)

text \<open>After a scan of a service the hub holds, for that service, exactly the node sockets the scan found
  that were dialed before or whose dial succeeds now; the nodes of other services stay as they are.\<close>

theorem service_scan_dials:
  "dialed (snd (Hub_ApplyServiceScan dial baseDir svc found h)) q =
     (if q \<in> set found \<and> \<not> isControlSocket q
      then if dialed h q \<noteq> None then dialed h q
           else if dial (nodeKey baseDir q) q (control_of baseDir found q) then Some svc else None
      else if dialed h q = Some svc then None else dialed h q)"
  by (auto simp: Hub_ApplyServiceScan_def Let_def dialDiscovered_dialed)

end
