(* ===== verification/Scanner.thy ===== *)
theory Scanner
  imports Mmfg_Hub "HOL-Library.List_Lexorder" "HOL-Library.Char_ord"
begin

text \<open>
  \<open>Scan\<close> of \<open>internal/core/watcher/nodescan/scanner.go\<close> with the three handlers of the core: the registry for the sockets of
  nodes, the strategy markers, and the hub of \<open>.mmfg\<close> sockets. A range over the map of handlers is a list of them in
  any order. The result is whether there was no error and the state; \<^const>\<open>None\<close> is a panic.
\<close>

subsection \<open>Handlers\<close>

text \<open>\<open>visit\<close> and \<open>names\<close> list the keys of the node map and of the services, in the order of the range over them.\<close>

datatype handler =
    Sockets "string \<Rightarrow> string \<Rightarrow> bool" "registry \<Rightarrow> string list"
  | Strategies "registry \<Rightarrow> string list"
  | Hub "string \<Rightarrow> string \<Rightarrow> string \<Rightarrow> bool"

type_synonym scan_state = "registry \<times> hub"

fun Extension :: "handler \<Rightarrow> string" where
  "Extension (Sockets stat visit) = ''.sock''"
| "Extension (Strategies names) = strategyFileSuffix"
| "Extension (Hub dial) = nodeSuffix"

fun apply_full :: "string \<Rightarrow> (string \<times> string list) list \<Rightarrow> handler \<Rightarrow> scan_state \<Rightarrow> (bool \<times> scan_state) option" where
  "apply_full baseDir g (Sockets stat visit) (r, h) = map_option (\<lambda>r. (True, r, h)) (ApplyFullScan stat (visit r) g r)"
| "apply_full baseDir g (Strategies names) (r, h) = map_option (\<lambda>r. (True, r, h)) (Strategy_ApplyFullScan (names r) g r)"
| "apply_full baseDir g (Hub dial) (r, h) = (case Hub_ApplyFullScan dial baseDir g h of (ok, h) \<Rightarrow> Some (ok, r, h))"

fun apply_service :: "string \<Rightarrow> string \<Rightarrow> string list \<Rightarrow> handler \<Rightarrow> scan_state \<Rightarrow> (bool \<times> scan_state) option" where
  "apply_service baseDir svc paths (Sockets stat visit) (r, h) = map_option (\<lambda>r. (True, r, h)) (ApplyServiceScan stat svc paths r)"
| "apply_service baseDir svc paths (Strategies names) (r, h) = map_option (\<lambda>r. (True, r, h)) (Strategy_ApplyServiceScan svc paths r)"
| "apply_service baseDir svc paths (Hub dial) (r, h) =
     (case Hub_ApplyServiceScan dial baseDir svc paths h of (ok, h) \<Rightarrow> Some (ok, r, h))"

text \<open>The loop over the handlers; an error of one does not keep the others from running.\<close>

fun run_handlers :: "('h \<Rightarrow> 's \<Rightarrow> (bool \<times> 's) option) \<Rightarrow> 'h list \<Rightarrow> 's \<Rightarrow> (bool \<times> 's) option" where
  "run_handlers f [] s = Some (True, s)"
| "run_handlers f (h # hs) s = do {
     (ok, s) \<leftarrow> f h s;
     (ok', s) \<leftarrow> run_handlers f hs s;
     Some (ok \<and> ok', s)
   }"

text \<open>The walk failed when it is \<^const>\<open>None\<close>; a directory that does not exist is an empty walk.\<close>

definition scanAll :: "string \<Rightarrow> handler list \<Rightarrow> walk option \<Rightarrow> scan_state \<Rightarrow> (bool \<times> scan_state) option" where
  "scanAll baseDir hs entries s =
     (case entries of
        None \<Rightarrow> Some (False, s)
      | Some es \<Rightarrow> run_handlers (\<lambda>h. apply_full baseDir (scan_groups baseDir (Extension h) es) h) hs s)"

definition scanService :: "string \<Rightarrow> string \<Rightarrow> handler list \<Rightarrow> walk option \<Rightarrow> scan_state \<Rightarrow> (bool \<times> scan_state) option" where
  "scanService baseDir svc hs entries s =
     (case entries of
        None \<Rightarrow> Some (False, s)
      | Some es \<Rightarrow> run_handlers (\<lambda>h. apply_service baseDir svc (service_paths (Extension h) es) h) hs s)"

text \<open>An empty target or the base directory is a full scan.\<close>

definition Scan :: "string \<Rightarrow> handler list \<Rightarrow> (string \<Rightarrow> walk option) \<Rightarrow> string \<Rightarrow> scan_state \<Rightarrow> (bool \<times> scan_state) option" where
  "Scan baseDir hs walk_of target s =
     (if target = [] \<or> target = baseDir then scanAll baseDir hs (walk_of baseDir) s
      else scanService baseDir target hs (walk_of (baseDir @ ''/'' @ target)) s)"

subsection \<open>What the scanner relies on\<close>

text \<open>
  The contract of a handler: it keeps an invariant, what it changes can be told from a view of the state, an error
  does not stop it, and repeating it finds nothing to do.
\<close>

locale scan_handlers =
  fixes run :: "'h \<Rightarrow> 's \<Rightarrow> (bool \<times> 's) option"
    and legal :: "'h \<Rightarrow> bool"
    and inv :: "'s \<Rightarrow> bool"
    and view :: "'s \<Rightarrow> 'v"
    and effect :: "'h \<Rightarrow> 'v \<Rightarrow> 'v"
    and fine :: "'h \<Rightarrow> 'v \<Rightarrow> bool"
  assumes run_ok: "legal h \<Longrightarrow> inv s \<Longrightarrow> \<exists>t. run h s = Some (fine h (view s), t) \<and> inv t \<and> view t = effect h (view s)"
    and effect_again: "legal h \<Longrightarrow> effect h (effect h v) = effect h v"
    and effects_commute: "legal h \<Longrightarrow> legal k \<Longrightarrow> effect h (effect k v) = effect k (effect h v)"
    and fine_after: "legal h \<Longrightarrow> legal k \<Longrightarrow> fine h (effect k v) \<longleftrightarrow> fine h v"
begin

lemma run_list:
  assumes "\<forall>h \<in> set hs. legal h" and "inv s"
  shows "\<exists>t. run_handlers run hs s = Some (\<forall>h \<in> set hs. fine h (view s), t) \<and> inv t \<and> view t = fold effect hs (view s)"
  using assms
proof (induction hs arbitrary: s)
  case (Cons h hs)
  from run_ok [of h s] Cons.prems obtain t where
    t: "run h s = Some (fine h (view s), t)" "inv t" "view t = effect h (view s)" by auto
  from Cons.IH [OF _ t(2)] Cons.prems obtain u where
    u: "run_handlers run hs t = Some (\<forall>k \<in> set hs. fine k (view t), u)" "inv u" "view u = fold effect hs (view t)" by auto
  have "fine k (view t) \<longleftrightarrow> fine k (view s)" if "k \<in> set hs" for k
    using fine_after [of k h] Cons.prems(1) that t(3) by auto
  with t u show ?case by auto
qed simp

lemma fold_swap:
  "legal h \<Longrightarrow> \<forall>k \<in> set hs. legal k \<Longrightarrow> fold effect hs (effect h v) = effect h (fold effect hs v)"
proof (induction hs arbitrary: v)
  case (Cons k hs)
  then show ?case using effects_commute [of k h v] by simp
qed simp

lemma fold_remove:
  "\<forall>k \<in> set hs. legal k \<Longrightarrow> h \<in> set hs \<Longrightarrow> fold effect hs v = effect h (fold effect (removeAll h hs) v)"
proof (induction hs arbitrary: v)
  case (Cons k hs)
  have k: "legal k" "legal h" "\<forall>k \<in> set hs. legal k" "\<forall>k \<in> set (removeAll h hs). legal k" using Cons.prems by auto
  show ?case
  proof (cases "h \<in> set hs")
    case True
    with Cons.IH k(3) show ?thesis
      using fold_swap [OF k(2,4)] effect_again [OF k(2)] by (cases "h = k") auto
  next
    case False
    with Cons.prems(2) k show ?thesis by (auto simp: fold_swap)
  qed
qed simp

text \<open>The order of the handlers, and how often each runs, does not matter for what is seen.\<close>

lemma fold_same_set:
  "\<forall>k \<in> set xs. legal k \<Longrightarrow> set xs = set ys \<Longrightarrow> fold effect xs v = fold effect ys v"
proof (induction "card (set xs)" arbitrary: xs ys)
  case 0
  then show ?case by simp
next
  case (Suc n)
  then obtain h where h: "h \<in> set xs" "h \<in> set ys" by (cases xs) auto
  have "set (removeAll h xs) = set xs - {h}" "set (removeAll h xs) = set (removeAll h ys)" using Suc.prems(2) by auto
  moreover from this(1) have "n = card (set (removeAll h xs))" using Suc.hyps(2) h(1) by simp
  ultimately have "fold effect (removeAll h xs) v = fold effect (removeAll h ys) v"
    using Suc.hyps(1) [of "removeAll h xs" "removeAll h ys"] Suc.prems(1) by auto
  with fold_remove [of xs h v] fold_remove [of ys h v] h Suc.prems show ?case by simp
qed

lemma run_order:
  assumes "\<forall>h \<in> set hs. legal h" and "inv s" and "set hs = set ks"
  shows "\<exists>ok t u. run_handlers run hs s = Some (ok, t) \<and> run_handlers run ks s = Some (ok, u) \<and> view t = view u"
  using run_list [OF assms(1,2)] run_list [of ks s] assms fold_same_set [OF assms(1,3)] by auto

end

subsection \<open>The handlers of the core\<close>

definition handler_legal :: "(string \<Rightarrow> string \<Rightarrow> string \<Rightarrow> bool) \<Rightarrow> handler \<Rightarrow> bool" where
  "handler_legal dial h \<longleftrightarrow>
     (case h of
        Sockets stat visit \<Rightarrow> \<forall>r. finite (dom (nodeMap r)) \<longrightarrow> dom (nodeMap r) \<subseteq> set (visit r)
      | Strategies names \<Rightarrow> True
      | Hub d \<Rightarrow> d = dial)"

definition scan_inv :: "string \<Rightarrow> scan_state \<Rightarrow> bool" where
  "scan_inv baseDir s \<longleftrightarrow> reg_inv (service_of baseDir) (fst s) \<and> finite (dom (nodeMap (fst s)))"

text \<open>The registered nodes, the unhealthy nodes, and the dialed nodes with their services.\<close>

type_synonym scan_view = "(string set \<times> string set) \<times> (string \<Rightarrow> string option)"

definition scan_view :: "scan_state \<Rightarrow> scan_view" where
  "scan_view s = (reg_abs (fst s), dialed (snd s))"

definition can_dial :: "(string \<Rightarrow> string \<Rightarrow> string \<Rightarrow> bool) \<Rightarrow> string \<Rightarrow> walk \<Rightarrow> string \<Rightarrow> bool" where
  "can_dial dial baseDir es p \<longleftrightarrow>
     dial (nodeKey baseDir p) p (control_of baseDir (found_in (scan_groups baseDir nodeSuffix es) (service_of baseDir p)) p)"

text \<open>The \<open>.mmfg\<close> sockets of a walk that are not control sockets.\<close>

definition hub_nodes :: "string \<Rightarrow> walk \<Rightarrow> string set" where
  "hub_nodes baseDir es = {p \<in> set (sockets_below baseDir nodeSuffix es). \<not> isControlSocket p}"

definition scan_effect :: "string \<Rightarrow> walk \<Rightarrow> handler \<Rightarrow> scan_view \<Rightarrow> scan_view" where
  "scan_effect baseDir es h v =
     (case h of
        Sockets stat visit \<Rightarrow> (full_spec (set (sockets_below baseDir sock_ext es)) (fst v), snd v)
      | Strategies names \<Rightarrow> v
      | Hub dial \<Rightarrow> (fst v, \<lambda>p. if p \<notin> hub_nodes baseDir es then None
            else if snd v p \<noteq> None then snd v p
            else if can_dial dial baseDir es p then Some (service_of baseDir p) else None))"

definition scan_fine :: "string \<Rightarrow> walk \<Rightarrow> handler \<Rightarrow> scan_view \<Rightarrow> bool" where
  "scan_fine baseDir es h v \<longleftrightarrow>
     (case h of Hub dial \<Rightarrow> \<forall>p \<in> hub_nodes baseDir es. snd v p \<noteq> None \<or> can_dial dial baseDir es p | _ \<Rightarrow> True)"

lemma fold_dial_ok:
  "fst (fold (\<lambda>p (ok, h). let (ok', h') = dialNode dial baseDir svc p (control_of baseDir paths p) h in (ok \<and> ok', h')) ps (b, h)) \<longleftrightarrow>
     b \<and> (\<forall>p \<in> set ps. dialed h p \<noteq> None \<or> dial (nodeKey baseDir p) p (control_of baseDir paths p))"
proof (induction ps arbitrary: b h)
  case (Cons p ps)
  obtain b' h' where e: "dialNode dial baseDir svc p (control_of baseDir paths p) h = (b', h')" by fastforce
  then have b: "b' \<longleftrightarrow> dialed h p \<noteq> None \<or> dial (nodeKey baseDir p) p (control_of baseDir paths p)"
    and d: "dialed h' q \<noteq> None \<longleftrightarrow> dialed h q \<noteq> None \<or> q = p \<and> b'" for q
    by (auto simp: dialNode_def split: if_splits)
  have "(dialed h' q \<noteq> None \<or> dial (nodeKey baseDir q) q (control_of baseDir paths q)) \<longleftrightarrow>
      dialed h q \<noteq> None \<or> dial (nodeKey baseDir q) q (control_of baseDir paths q)" for q
    using b d [of q] by auto
  with Cons.IH [of "b \<and> b'" h'] e b show ?case by auto
qed simp

lemma dialDiscovered_ok:
  "fst (dialDiscovered dial baseDir svc paths h) \<longleftrightarrow>
     (\<forall>p \<in> set paths. \<not> isControlSocket p \<longrightarrow> dialed h p \<noteq> None \<or> dial (nodeKey baseDir p) p (control_of baseDir paths p))"
  unfolding dialDiscovered_def fold_dial_ok by (auto simp: splitNodesAndControls_def)

text \<open>The groups of a full scan, one after the other.\<close>

definition dials :: "(string \<Rightarrow> string \<Rightarrow> string \<Rightarrow> bool) \<Rightarrow> string \<Rightarrow> (string \<times> string list) list \<Rightarrow> string \<Rightarrow> bool" where
  "dials dial baseDir g p \<longleftrightarrow> dial (nodeKey baseDir p) p (control_of baseDir (found_in g (service_of baseDir p)) p)"

definition hub_groups :: "(string \<Rightarrow> string \<Rightarrow> string \<Rightarrow> bool) \<Rightarrow> string \<Rightarrow> (string \<times> string list) list \<Rightarrow> bool \<times> hub \<Rightarrow> bool \<times> hub" where
  "hub_groups dial baseDir g =
     fold (\<lambda>(svc, paths) (ok, h). let (ok', h') = dialDiscovered dial baseDir svc paths h in (ok \<and> ok', h')) g"

lemma hub_groups_result:
  assumes "scan_ok (service_of baseDir) g"
  shows "dialed (snd (hub_groups dial baseDir g (b, h))) q =
      (if dialed h q \<noteq> None then dialed h q
       else if q \<in> found_paths g \<and> \<not> isControlSocket q \<and> dials dial baseDir g q then Some (service_of baseDir q) else None)"
    and "fst (hub_groups dial baseDir g (b, h)) \<longleftrightarrow>
      b \<and> (\<forall>p \<in> found_paths g. \<not> isControlSocket p \<longrightarrow> dialed h p \<noteq> None \<or> dials dial baseDir g p)"
proof -
  have "(\<forall>q. dialed (snd (hub_groups dial baseDir g (b, h))) q =
      (if dialed h q \<noteq> None then dialed h q
       else if q \<in> found_paths g \<and> \<not> isControlSocket q \<and> dials dial baseDir g q then Some (service_of baseDir q) else None)) \<and>
    (fst (hub_groups dial baseDir g (b, h)) \<longleftrightarrow>
      b \<and> (\<forall>p \<in> found_paths g. \<not> isControlSocket p \<longrightarrow> dialed h p \<noteq> None \<or> dials dial baseDir g p))"
    using assms
  proof (induction g arbitrary: b h)
    case Nil
    show ?case by (simp add: hub_groups_def found_paths_def)
  next
    case (Cons e g)
    obtain svc ps where e: "e = (svc, ps)" by fastforce
    obtain ok k where d: "dialDiscovered dial baseDir svc ps h = (ok, k)" by fastforce
    have g: "scan_ok (service_of baseDir) g" and ps: "\<forall>p \<in> set ps. service_of baseDir p = svc"
      and svc: "svc \<notin> fst ` set g" using Cons.prems by (simp_all add: e scan_ok_def)
    have other: "service_of baseDir p \<noteq> svc" if "p \<in> found_paths g" for p
    proof -
      from that obtain s ns where s: "(s, ns) \<in> set g" "p \<in> set ns" by (auto simp: found_paths_def)
      with g have "service_of baseDir p = s" by (auto simp: scan_ok_def)
      with s(1) svc show ?thesis by (metis fst_conv image_eqI)
    qed
    have fp: "found_paths (e # g) = set ps \<union> found_paths g" by (auto simp: e found_paths_def)
    have dp: "dials dial baseDir (e # g) p \<longleftrightarrow> dial (nodeKey baseDir p) p (control_of baseDir ps p)" if "p \<in> set ps" for p
      using ps that by (simp add: dials_def found_in_def e)
    have dg: "dials dial baseDir (e # g) p \<longleftrightarrow> dials dial baseDir g p" if "p \<in> found_paths g" for p
      using other that by (auto simp: dials_def found_in_def e)
    have k: "dialed k q = (if dialed h q \<noteq> None then dialed h q
        else if q \<in> set ps \<and> \<not> isControlSocket q \<and> dials dial baseDir (e # g) q then Some svc else None)" for q
      using dialDiscovered_dialed [of dial baseDir svc ps h q] d dp [of q] by auto
    have ok: "ok \<longleftrightarrow> (\<forall>p \<in> set ps. \<not> isControlSocket p \<longrightarrow> dialed h p \<noteq> None \<or> dials dial baseDir (e # g) p)"
      using dialDiscovered_ok [of dial baseDir svc ps h] d dp by auto
    have r: "hub_groups dial baseDir (e # g) (b, h) = hub_groups dial baseDir g (b \<and> ok, k)" by (simp add: hub_groups_def e d)
    have disj: "q \<notin> found_paths g" if "q \<in> set ps" for q using ps other that by blast
    note IH = Cons.IH [OF g, of "b \<and> ok" k]
    have "dialed (snd (hub_groups dial baseDir (e # g) (b, h))) q =
        (if dialed h q \<noteq> None then dialed h q
         else if q \<in> found_paths (e # g) \<and> \<not> isControlSocket q \<and> dials dial baseDir (e # g) q then Some (service_of baseDir q) else None)" for q
    proof (cases "q \<in> set ps")
      case True
      with k [of q] IH [THEN conjunct1, rule_format, of q] disj [OF True] ps show ?thesis unfolding r fp by simp
    next
      case False
      then have "dialed k q = dialed h q" using k [of q] by simp
      with False IH [THEN conjunct1, rule_format, of q] dg [of q] show ?thesis unfolding r fp by (cases "q \<in> found_paths g") simp_all
    qed
    moreover have "(dialed k p \<noteq> None \<or> dials dial baseDir g p) \<longleftrightarrow> (dialed h p \<noteq> None \<or> dials dial baseDir (e # g) p)"
      if "p \<in> found_paths g" for p
      using that k [of p] dg [OF that] disj [of p] by auto
    then have "fst (hub_groups dial baseDir (e # g) (b, h)) \<longleftrightarrow>
        b \<and> (\<forall>p \<in> found_paths (e # g). \<not> isControlSocket p \<longrightarrow> dialed h p \<noteq> None \<or> dials dial baseDir (e # g) p)"
      unfolding r IH [THEN conjunct2] fp using ok by blast
    ultimately show ?case by blast
  qed
  then show "dialed (snd (hub_groups dial baseDir g (b, h))) q =
      (if dialed h q \<noteq> None then dialed h q
       else if q \<in> found_paths g \<and> \<not> isControlSocket q \<and> dials dial baseDir g q then Some (service_of baseDir q) else None)"
    and "fst (hub_groups dial baseDir g (b, h)) \<longleftrightarrow>
      b \<and> (\<forall>p \<in> found_paths g. \<not> isControlSocket p \<longrightarrow> dialed h p \<noteq> None \<or> dials dial baseDir g p)" by blast+
qed

lemma handler_run:
  assumes "handler_legal dial h" and "scan_inv baseDir s"
  shows "\<exists>t. apply_full baseDir (scan_groups baseDir (Extension h) es) h s = Some (scan_fine baseDir es h (scan_view s), t) \<and>
    scan_inv baseDir t \<and> scan_view t = scan_effect baseDir es h (scan_view s)"
proof -
  obtain r k where s: "s = (r, k)" by fastforce
  have inv: "reg_inv (service_of baseDir) r" "finite (dom (nodeMap r))" using assms(2) by (simp_all add: s scan_inv_def)
  note g = scan_groups_ok [of baseDir _ es]
  show ?thesis
  proof (cases h)
    case (Sockets stat visit)
    with assms(1) inv(2) have "dom (nodeMap r) \<subseteq> set (visit r)" by (simp add: handler_legal_def)
    from ApplyFullScan_inv [where stat = stat, OF inv(1) conjunct1 [OF g [of sock_ext]] this] g [of sock_ext] obtain t where
      t: "ApplyFullScan stat (visit r) (scan_groups baseDir sock_ext es) r = Some t" "reg_inv (service_of baseDir) t"
        "reg_abs t = full_spec (set (sockets_below baseDir sock_ext es)) (reg_abs r)" by auto
    then have "finite (dom (nodeMap t))" by (simp add: reg_abs_def full_spec_def)
    with t show ?thesis
      by (simp add: s Sockets sock_ext_def scan_inv_def scan_view_def scan_effect_def scan_fine_def)
  next
    case (Strategies names)
    from Strategy_full_inv [OF inv(1), of "names r" "scan_groups baseDir strategyFileSuffix es"] obtain t where
      t: "Strategy_ApplyFullScan (names r) (scan_groups baseDir strategyFileSuffix es) r = Some t" "reg_inv (service_of baseDir) t"
        "reg_abs t = reg_abs r" by blast
    with inv(2) have "finite (dom (nodeMap t))" by (simp add: reg_abs_def)
    with t show ?thesis by (simp add: s Strategies scan_inv_def scan_view_def scan_effect_def scan_fine_def)
  next
    case (Hub d)
    with assms(1) have d: "d = dial" by (simp add: handler_legal_def)
    let ?g = "scan_groups baseDir nodeSuffix es"
    let ?k = "k\<lparr>dialed := (\<lambda>p. if p \<in> {p \<in> found_paths ?g. \<not> isControlSocket p} then dialed k p else None)\<rparr>"
    have run: "Hub_ApplyFullScan dial baseDir ?g k = hub_groups dial baseDir ?g (True, ?k)"
      by (simp add: Hub_ApplyFullScan_def hub_groups_def Let_def)
    have nodes: "hub_nodes baseDir es = {p \<in> found_paths ?g. \<not> isControlSocket p}"
      using g [of nodeSuffix] by (simp add: hub_nodes_def)
    have dials: "dials dial baseDir ?g p \<longleftrightarrow> can_dial dial baseDir es p" for p by (simp add: dials_def can_dial_def)
    obtain ok k' where r: "hub_groups dial baseDir ?g (True, ?k) = (ok, k')" by fastforce
    note res = hub_groups_result [where dial = dial, OF conjunct1 [OF g [of nodeSuffix]], of True ?k, unfolded r fst_conv snd_conv]
    have "dialed k' = snd (scan_effect baseDir es h (scan_view s))"
      using res(1) by (auto simp: fun_eq_iff Hub d scan_effect_def scan_view_def s nodes dials)
    moreover have "ok \<longleftrightarrow> scan_fine baseDir es h (scan_view s)"
      unfolding res(2) by (auto simp: Hub d scan_fine_def scan_view_def s nodes dials)
    moreover have "apply_full baseDir (scan_groups baseDir (Extension h) es) h s = Some (ok, r, k')"
      by (simp only: Hub d s Extension.simps apply_full.simps run r prod.case)
    moreover have "scan_inv baseDir (r, k')" "fst (scan_effect baseDir es h (scan_view s)) = reg_abs r"
      using assms(2) by (simp_all add: Hub s scan_inv_def scan_view_def scan_effect_def)
    ultimately show ?thesis by (intro exI [of _ "(r, k')"]) (simp add: scan_view_def prod_eq_iff)
  qed
qed

interpretation scan: scan_handlers "\<lambda>h. apply_full baseDir (scan_groups baseDir (Extension h) es) h" "handler_legal dial"
  "scan_inv baseDir" scan_view "scan_effect baseDir es" "scan_fine baseDir es"
  for baseDir es dial
proof unfold_locales
  show "\<exists>t. apply_full baseDir (scan_groups baseDir (Extension h) es) h s = Some (scan_fine baseDir es h (scan_view s), t) \<and>
      scan_inv baseDir t \<and> scan_view t = scan_effect baseDir es h (scan_view s)"
    if "handler_legal dial h" "scan_inv baseDir s" for h s using that by (rule handler_run)
  show "scan_effect baseDir es h (scan_effect baseDir es h v) = scan_effect baseDir es h v" for h v
    by (auto simp: scan_effect_def full_spec_def split: handler.split)
  show "scan_effect baseDir es h (scan_effect baseDir es k v) = scan_effect baseDir es k (scan_effect baseDir es h v)"
    if "handler_legal dial h" "handler_legal dial k" for h k v
    using that by (auto simp: handler_legal_def scan_effect_def full_spec_def split: handler.splits)
  show "scan_fine baseDir es h (scan_effect baseDir es k v) \<longleftrightarrow> scan_fine baseDir es h v"
    if "handler_legal dial h" "handler_legal dial k" for h k v
    using that by (auto simp: handler_legal_def scan_effect_def scan_fine_def split: handler.splits)
qed

lemma scan_result:
  assumes "\<forall>h \<in> set hs. handler_legal dial h" and "scan_inv baseDir s"
  shows "\<exists>t. scanAll baseDir hs (Some es) s = Some (\<forall>h \<in> set hs. scan_fine baseDir es h (scan_view s), t) \<and> scan_inv baseDir t \<and>
    scan_view t = fold (scan_effect baseDir es) hs (scan_view s)"
  using scan.run_list [OF assms, of es] by (simp add: scanAll_def)

lemma effect_registered:
  "fst (fold (scan_effect baseDir es) hs v) =
    (if \<exists>stat visit. Sockets stat visit \<in> set hs then full_spec (set (sockets_below baseDir sock_ext es)) (fst v) else fst v)"
proof (induction hs arbitrary: v)
  case (Cons h hs)
  have "full_spec F (full_spec F s) = full_spec F s" for F s by (auto simp: full_spec_def)
  with Cons show ?case by (cases h) (auto simp: scan_effect_def)
qed simp

lemma finite_registered:
  assumes "fold_opt exec es NewRegistry = Some r" and "events_ok so es ({}, {})"
  shows "reg_inv so r \<and> finite (dom (nodeMap r))"
proof -
  have "finite (fst (spec so e s))" if "finite (fst s)" for e s
    using that by (cases e) (auto simp: full_spec_def service_spec_def found_paths_def retry_all_spec_def)
  then have "finite (fst s) \<Longrightarrow> finite (fst (fold (spec so) es s))" for s by (induction es arbitrary: s) auto
  then have "finite (fst (fold (spec so) es ({}, {})))" by simp
  moreover from run_inv [OF NewRegistry_inv(1) [of so], of es] assms NewRegistry_inv(2)
  have "reg_inv so r" "reg_abs r = fold (spec so) es ({}, {})" by auto
  ultimately show ?thesis by (metis fst_conv reg_abs_def)
qed


text \<open>C32. The order in which Go's map gives the handlers does not matter: two scans of the same tree by the same handlers
  agree on success, on the registered and unhealthy nodes and on the dialed nodes.\<close>

theorem handler_order_irrelevant:
  assumes "events_ok (service_of baseDir) es ({}, {})" and "fold_opt exec es NewRegistry = Some r"
    and "\<forall>h \<in> set hs. handler_legal dial h" and "set hs = set ks"
  shows "\<exists>ok t u. scanAll baseDir hs (Some entries) (r, k) = Some (ok, t) \<and> scanAll baseDir ks (Some entries) (r, k) = Some (ok, u) \<and>
    scan_view t = scan_view u"
proof -
  have "scan_inv baseDir (r, k)" using finite_registered [OF assms(2,1)] by (simp add: scan_inv_def)
  from scan.run_order [OF assms(3) this assms(4)] show ?thesis by (simp add: scanAll_def)
qed

text \<open>A full scan fails exactly when the hub meets a node it has not dialed before and cannot dial now.\<close>

lemma scan_fails_iff:
  assumes "\<forall>h \<in> set hs. handler_legal dial h" and "scan_inv baseDir (r, k)"
  shows "\<exists>ok t. scanAll baseDir hs (Some es) (r, k) = Some (ok, t) \<and>
    (ok \<longleftrightarrow> Hub dial \<in> set hs \<longrightarrow> (\<forall>p \<in> hub_nodes baseDir es. dialed k p \<noteq> None \<or> can_dial dial baseDir es p))"
proof -
  have "(\<forall>h \<in> set hs. scan_fine baseDir es h (scan_view (r, k))) \<longleftrightarrow>
      (Hub dial \<in> set hs \<longrightarrow> (\<forall>p \<in> hub_nodes baseDir es. dialed k p \<noteq> None \<or> can_dial dial baseDir es p))"
    using assms(1) by (fastforce simp: scan_fine_def scan_view_def handler_legal_def split: handler.splits)
  with scan_result [OF assms, of es] show ?thesis by auto
qed

definition core_handlers :: "(string \<Rightarrow> string \<Rightarrow> bool) \<Rightarrow> (registry \<Rightarrow> string list) \<Rightarrow> (registry \<Rightarrow> string list) \<Rightarrow>
    (string \<Rightarrow> string \<Rightarrow> string \<Rightarrow> bool) \<Rightarrow> handler list" where
  "core_handlers stat visit names dial = [Sockets stat visit, Hub dial, Strategies names]"

lemma core_handlers_legal:
  "(\<And>r. finite (dom (nodeMap r)) \<Longrightarrow> dom (nodeMap r) \<subseteq> set (visit r)) \<Longrightarrow>
    \<forall>h \<in> set (core_handlers stat visit names dial). handler_legal dial h"
  by (auto simp: core_handlers_def handler_legal_def)

text \<open>One order of the keys.\<close>

definition sorted_keys :: "registry \<Rightarrow> string list" where
  "sorted_keys r = sorted_list_of_set (dom (nodeMap r))"

lemma sorted_handlers_legal: "\<forall>h \<in> set (core_handlers stat sorted_keys names dial). handler_legal dial h"
  by (rule core_handlers_legal) (simp add: sorted_keys_def)

definition small_tree :: walk where
  "small_tree = [(''d/s'', True), (''d/s/a.sock'', False), (''d/x.sock'', False)]"


theorem handler_order_irrelevant_witness:
  "\<exists>ok t u. scanAll ''d'' (core_handlers no_stat sorted_keys (\<lambda>_. []) (\<lambda>_ _ _. False)) (Some small_tree) (NewRegistry, NewHub) = Some (ok, t) \<and>
     scanAll ''d'' (rev (core_handlers no_stat sorted_keys (\<lambda>_. []) (\<lambda>_ _ _. False))) (Some small_tree) (NewRegistry, NewHub) = Some (ok, u) \<and>
     scan_view t = scan_view u"
  by (rule handler_order_irrelevant [where es = "[]" and r = NewRegistry, OF _ _ sorted_handlers_legal]) simp_all

text \<open>A scan of one service and a full scan disagree on nested services: the socket of the service
  \<open>a/b\<close> is also given to the service \<open>a\<close> by a scan of \<open>a\<close>, which the creation of the directory \<open>a/b\<close>
  starts.\<close>

theorem nested_service_scanned_twice:
  "\<exists>es hs r k t u. es = [(''d/a/b'', True), (''d/a/b/x.sock'', False)] \<and> hs = core_handlers no_stat (\<lambda>_. []) (\<lambda>_. []) (\<lambda>_ _ _. True) \<and>
     scanAll ''d'' hs (Some es) (NewRegistry, NewHub) = Some (True, r, k) \<and> GetNodes ''a'' r = [] \<and> GetNodes ''a/b'' r = [''d/a/b/x.sock''] \<and>
     scanService ''d'' ''a'' hs (Some (walk_below ''d'' ''a'' es)) (r, k) = Some (True, t, u) \<and>
     GetNodes ''a'' t = [''d/a/b/x.sock''] \<and> GetNodes ''a/b'' t = [''d/a/b/x.sock'']"
proof -
  let ?es = "[(''d/a/b'', True), (''d/a/b/x.sock'', False)]"
  let ?hs = "core_handlers no_stat (\<lambda>_. []) (\<lambda>_. []) (\<lambda>_ _ _. True)"
  have "case scanAll ''d'' ?hs (Some ?es) (NewRegistry, NewHub) of None \<Rightarrow> False
    | Some (ok, r, k) \<Rightarrow> ok \<and> GetNodes ''a'' r = [] \<and> GetNodes ''a/b'' r = [''d/a/b/x.sock''] \<and>
       (case scanService ''d'' ''a'' ?hs (Some (walk_below ''d'' ''a'' ?es)) (r, k) of None \<Rightarrow> False
        | Some (ok, t, u) \<Rightarrow> ok \<and> GetNodes ''a'' t = [''d/a/b/x.sock''] \<and> GetNodes ''a/b'' t = [''d/a/b/x.sock''])"
    by code_simp
  then show ?thesis by (auto split: option.splits)
qed

end
