(* ===== verification/Options.thy ===== *)
theory Options
  imports Go_Text "HOL-Library.Monad_Syntax"
begin

text \<open>
  \<open>internal/core/options/options.go\<close>, and the socket names and entry points of \<open>cmd/core\<close> (\<open>socketnamer.go\<close>, \<open>createEntrypoints\<close> and
  \<open>cleanLegacySockets\<close> of \<open>main.go\<close>). The environment and the flags of the command line are maps; \<open>time.ParseDuration\<close> is an
  argument; \<^const>\<open>None\<close> is the exit of the program. Texts are byte strings, so an instance id is read byte
  by byte.
\<close>

subsection \<open>Options\<close>

definition getEnv :: "(string \<Rightarrow> string option) \<Rightarrow> string \<Rightarrow> string \<Rightarrow> string" where
  "getEnv env key fallback = (case env key of Some value \<Rightarrow> value | None \<Rightarrow> fallback)"

definition EnvString :: "(string \<Rightarrow> string option) \<Rightarrow> (string \<Rightarrow> string option) \<Rightarrow> string \<Rightarrow> string \<Rightarrow> string \<Rightarrow> string" where
  "EnvString env flags name envKey fallback =
     (case flags name of Some value \<Rightarrow> value | None \<Rightarrow> getEnv env envKey fallback)"

text \<open>\<open>strconv.ParseBool\<close>.\<close>

definition ParseBool :: "string \<Rightarrow> bool option" where
  "ParseBool s =
     (if s \<in> {''1'', ''t'', ''T'', ''true'', ''TRUE'', ''True''} then Some True
      else if s \<in> {''0'', ''f'', ''F'', ''false'', ''FALSE'', ''False''} then Some False
      else None)"

text \<open>A flag that does not parse ends the program; a variable that does not parse is ignored.\<close>

definition EnvBool :: "(string \<Rightarrow> string option) \<Rightarrow> (string \<Rightarrow> string option) \<Rightarrow> string \<Rightarrow> string \<Rightarrow> bool \<Rightarrow> bool option" where
  "EnvBool env flags name envKey fallback =
     (let default = (case env envKey of
            None \<Rightarrow> fallback
          | Some s \<Rightarrow> (case ParseBool s of Some parsed \<Rightarrow> parsed | None \<Rightarrow> fallback))
      in case flags name of Some s \<Rightarrow> ParseBool s | None \<Rightarrow> Some default)"

text \<open>\<open>ParseUint(s, 8, 32)\<close>.\<close>

definition octal_value :: "string \<Rightarrow> nat" where
  "octal_value s = foldl (\<lambda>n c. 8 * n + (byte c - 48)) 0 s"

definition mustParseFileMode :: "string \<Rightarrow> nat option" where
  "mustParseFileMode s =
     (if s \<noteq> [] \<and> list_all (\<lambda>c. 48 \<le> byte c \<and> byte c \<le> 55) s \<and> octal_value s < 2 ^ 32 then Some (octal_value s) else None)"

definition mustParsePositiveInt :: "string \<Rightarrow> int option" where
  "mustParsePositiveInt s = (case Atoi s of None \<Rightarrow> None | Some n \<Rightarrow> if n < 1 then None else Some n)"

definition mustParsePositiveDuration :: "(string \<Rightarrow> int option) \<Rightarrow> string \<Rightarrow> int option" where
  "mustParsePositiveDuration parse s = (case parse s of None \<Rightarrow> None | Some d \<Rightarrow> if d \<le> 0 then None else Some d)"

text \<open>The class \<open>[^a-zA-Z0-9._-]\<close> is replaced.\<close>

definition id_char :: "char \<Rightarrow> bool" where
  "id_char c \<longleftrightarrow> 97 \<le> byte c \<and> byte c \<le> 122 \<or> 65 \<le> byte c \<and> byte c \<le> 90 \<or> is_digit c \<or> c \<in> {CHR ''.'', CHR ''_'', CHR ''-''}"

definition clean_id :: "string \<Rightarrow> string" where
  "clean_id s = map (\<lambda>c. if id_char c then c else CHR ''_'') s"

record options =
  ConfigPath :: string
  NtucPath :: string
  ServicesDir :: string
  ServicesDirMode :: nat
  EntrypointDir :: string
  EntrypointDirMode :: nat
  EntrypointCount :: int
  LogLevel :: string
  InstanceID :: string
  MetricsPath :: string
  MetricsSockMode :: nat
  DefaultWelcome :: bool
  MaxIdleConnsPerNode :: int
  IdleConnTimeout :: int

definition Load :: "(string \<Rightarrow> string option) \<Rightarrow> (string \<Rightarrow> string option) \<Rightarrow> (string \<Rightarrow> int option) \<Rightarrow> options option" where
  "Load env flags parseDuration =
     (let str = EnvString env flags
      in do {
        welcome \<leftarrow> EnvBool env flags ''default-welcome'' ''NAUTROUDS_DEFAULT_WELCOME'' True;
        servicesDirMode \<leftarrow> mustParseFileMode (str ''services-dir-mode'' ''NAUTROUDS_SERVICES_DIR_MODE'' ''1777'');
        entrypointDirMode \<leftarrow> mustParseFileMode (str ''entrypoint-dir-mode'' ''NAUTROUDS_ENTRYPOINT_DIR_MODE'' ''0755'');
        metricsSockMode \<leftarrow> mustParseFileMode (str ''metrics-socket-mode'' ''NAUTROUDS_METRICS_SOCKET_MODE'' ''0666'');
        maxIdleConns \<leftarrow> mustParsePositiveInt (str ''max-idle-conns-per-node'' ''NAUTROUDS_MAX_IDLE_CONNS_PER_NODE'' ''48'');
        idleConnTimeout \<leftarrow> mustParsePositiveDuration parseDuration (str ''idle-conn-timeout'' ''NAUTROUDS_IDLE_CONN_TIMEOUT'' ''60s'');
        Some \<lparr>ConfigPath = str ''config'' ''NAUTROUDS_CONFIG'' ''nautrouds.ntu'',
          NtucPath = str ''ntuc'' ''NAUTROUDS_NTUC'' ''ntuc'',
          ServicesDir = str ''services'' ''NAUTROUDS_SERVICES_DIR'' ''/var/run/nautrouds/services'',
          ServicesDirMode = servicesDirMode,
          EntrypointDir = str ''entrypoint-dir'' ''NAUTROUDS_ENTRYPOINT_DIR'' ''/var/run/nautrouds/entrypoints'',
          EntrypointDirMode = entrypointDirMode,
          EntrypointCount = (case Atoi (str ''entrypoint-count'' ''NAUTROUDS_ENTRYPOINT_COUNT'' ''1'') of None \<Rightarrow> 1 | Some n \<Rightarrow> n),
          LogLevel = str ''log-level'' ''NAUTROUDS_LOG_LEVEL'' ''info'',
          InstanceID = clean_id (str ''instance-id'' ''NAUTROUDS_INSTANCE_ID'' ''''),
          MetricsPath = str ''metrics-socket'' ''NAUTROUDS_METRICS_SOCKET'' '''',
          MetricsSockMode = metricsSockMode,
          DefaultWelcome = welcome,
          MaxIdleConnsPerNode = maxIdleConns,
          IdleConnTimeout = idleConnTimeout\<rparr>
      })"

subsection \<open>Socket names\<close>

text \<open>The pattern is fixed by the prefix.\<close>

record socketNamer =
  namer_prefix :: string

definition newSocketNamer :: "string \<Rightarrow> socketNamer" where
  "newSocketNamer instanceID =
     (let infx = (if instanceID \<noteq> [] then ''-'' @ instanceID else [])
      in \<lparr>namer_prefix = ''nautrouds'' @ infx @ ''-''\<rparr>)"

definition Format_name :: "socketNamer \<Rightarrow> nat \<Rightarrow> string" where
  "Format_name n index = namer_prefix n @ Utoa index @ ''.sock''"

definition Owns :: "socketNamer \<Rightarrow> string \<Rightarrow> bool" where
  "Owns n filename \<longleftrightarrow>
     (let rest = drop (length (namer_prefix n)) filename; digits = take (length rest - 5) rest
      in has_prefix filename (namer_prefix n) \<and> has_suffix rest ''.sock'' \<and> digits \<noteq> [] \<and> list_all is_digit digits)"

lemma Owns_iff: "Owns n f \<longleftrightarrow> (\<exists>d. f = namer_prefix n @ d @ ''.sock'' \<and> d \<noteq> [] \<and> list_all is_digit d)"
  by (auto simp: Owns_def has_prefix_iff has_suffix_iff Let_def)

lemma dash_not_digit: "\<not> is_digit CHR ''-''"
  by (simp add: is_digit_def byte_def)

text \<open>Text before the last dash.\<close>

lemma last_dash:
  assumes "a @ CHR ''-'' # d = b @ CHR ''-'' # e" and "CHR ''-'' \<notin> set d" and "CHR ''-'' \<notin> set e"
  shows "a = b \<and> d = e"
proof -
  have "rev d @ CHR ''-'' # rev a = rev e @ CHR ''-'' # rev b" using arg_cong [OF assms(1), of rev] by simp
  moreover have "takeWhile (\<lambda>c. c \<noteq> CHR ''-'') (rev x @ CHR ''-'' # y) = rev x" if "CHR ''-'' \<notin> set x" for x y
    using that by (subst takeWhile_append2) auto
  ultimately have "rev d = rev e" using assms(2,3) by metis
  with assms(1) show ?thesis by simp
qed

lemma digits_no_dash: "list_all is_digit d \<Longrightarrow> CHR ''-'' \<notin> set d"
  using dash_not_digit by (auto simp: list_all_iff)

lemma Format_owned: "Owns n (Format_name n i)"
  using Utoa_digits [of i] by (auto simp: Owns_iff Format_name_def)

lemma Format_inj: "Format_name n i = Format_name n j \<longleftrightarrow> i = j"
  using Utoa_digits by (auto simp: Format_name_def) metis

lemma Owns_Format: "Owns (newSocketNamer a) (Format_name (newSocketNamer b) i) \<longleftrightarrow> a = b"
proof
  assume "Owns (newSocketNamer a) (Format_name (newSocketNamer b) i)"
  then obtain d where d: "namer_prefix (newSocketNamer b) @ Utoa i = namer_prefix (newSocketNamer a) @ d" "list_all is_digit d"
    by (auto simp: Owns_iff Format_name_def)
  let ?p = "\<lambda>x. ''nautrouds'' @ (if x \<noteq> [] then ''-'' @ x else [])"
  have "?p b @ CHR ''-'' # Utoa i = ?p a @ CHR ''-'' # d" using d(1) by (simp add: newSocketNamer_def)
  from last_dash [OF this] have "?p b = ?p a" using digits_no_dash d(2) Utoa_digits by blast
  then show "a = b" by (auto split: if_splits)
qed (use Format_owned in blast)

subsection \<open>Entry points\<close>

text \<open>A directory is the list of its entries, each with whether it is a directory; removing an entry may fail.\<close>

type_synonym dir_entry = "string \<times> bool"

fun cleanLegacySockets :: "socketNamer \<Rightarrow> (string \<Rightarrow> bool) \<Rightarrow> dir_entry list \<Rightarrow> dir_entry list option" where
  "cleanLegacySockets namer fails [] = Some []"
| "cleanLegacySockets namer fails ((name, is_dir) # entries) =
     (if is_dir \<or> \<not> Owns namer name then map_option ((#) (name, is_dir)) (cleanLegacySockets namer fails entries)
      else if fails name then None
      else cleanLegacySockets namer fails entries)"

text \<open>The loop over \<open>i\<close> with its \<open>offset\<close>: a name that exists is skipped.\<close>

definition taken :: "socketNamer \<Rightarrow> string list \<Rightarrow> nat \<Rightarrow> nat set" where
  "taken namer existing k = {j. k \<le> j \<and> Format_name namer j \<in> set existing}"

lemma taken_finite: "finite (taken namer existing k)"
proof (rule finite_imageD)
  show "finite (Format_name namer ` taken namer existing k)"
    by (rule finite_subset [of _ "set existing"]) (auto simp: taken_def)
qed (simp add: inj_on_def Format_inj)

function pick_sockets :: "socketNamer \<Rightarrow> string list \<Rightarrow> nat \<Rightarrow> nat \<Rightarrow> nat \<Rightarrow> string list" where
  "pick_sockets namer existing wanted i offset =
     (if wanted \<le> i then []
      else if Format_name namer (i + offset) \<in> set existing then pick_sockets namer existing wanted i (offset + 1)
      else Format_name namer (i + offset) # pick_sockets namer existing wanted (i + 1) offset)"
  by pat_completeness auto
termination
proof (relation "measure (\<lambda>(namer, existing, wanted, i, offset). wanted - i + card (taken namer existing (i + offset)))")
  fix namer existing and wanted i offset :: nat
  assume "\<not> wanted \<le> i"
  have sub: "taken namer existing (Suc k) \<subseteq> taken namer existing k" for k by (auto simp: taken_def)
  {
    assume "Format_name namer (i + offset) \<in> set existing"
    then have "i + offset \<in> taken namer existing (i + offset) - taken namer existing (Suc (i + offset))"
      by (simp add: taken_def)
    then have "taken namer existing (Suc (i + offset)) \<subset> taken namer existing (i + offset)" using sub by blast
    from psubset_card_mono [OF taken_finite this]
    show "((namer, existing, wanted, i, offset + 1), namer, existing, wanted, i, offset)
        \<in> measure (\<lambda>(namer, existing, wanted, i, offset). wanted - i + card (taken namer existing (i + offset)))" by simp
  }
  show "((namer, existing, wanted, i + 1, offset), namer, existing, wanted, i, offset)
      \<in> measure (\<lambda>(namer, existing, wanted, i, offset). wanted - i + card (taken namer existing (i + offset)))"
    using card_mono [OF taken_finite sub [of "i + offset"]] \<open>\<not> wanted \<le> i\<close> by simp
qed simp

declare pick_sockets.simps [simp del]

definition createEntrypoints :: "options \<Rightarrow> (string \<Rightarrow> bool) \<Rightarrow> dir_entry list \<Rightarrow> string list option" where
  "createEntrypoints opts fails dir =
     (let namer = newSocketNamer (InstanceID opts)
      in map_option (\<lambda>dir. pick_sockets namer (map fst dir) (nat (EntrypointCount opts)) 0 0) (cleanLegacySockets namer fails dir))"

subsection \<open>Which sockets are made and which are removed\<close>

lemma pick_sockets_numbers:
  "\<exists>ks. pick_sockets namer existing wanted i offset = map (Format_name namer) ks \<and> length ks = wanted - i \<and>
     sorted_wrt (<) ks \<and> (\<forall>k \<in> set ks. i + offset \<le> k \<and> Format_name namer k \<notin> set existing) \<and>
     (\<forall>k \<in> set ks. \<forall>j. i + offset \<le> j \<and> j < k \<and> j \<notin> set ks \<longrightarrow> Format_name namer j \<in> set existing)"
proof (induction namer existing wanted i offset rule: pick_sockets.induct)
  case (1 namer existing wanted i offset)
  show ?case
  proof (cases "wanted \<le> i")
    case True
    then show ?thesis by (intro exI [of _ "[]"]) (simp add: pick_sockets.simps)
  next
    case False
    show ?thesis
    proof (cases "Format_name namer (i + offset) \<in> set existing")
      case True
      from "1.IH"(1) [OF False True] obtain ks where ks: "pick_sockets namer existing wanted i (offset + 1) = map (Format_name namer) ks"
        "length ks = wanted - i" "sorted_wrt (<) ks" "\<forall>k \<in> set ks. i + (offset + 1) \<le> k \<and> Format_name namer k \<notin> set existing"
        "\<forall>k \<in> set ks. \<forall>j. i + (offset + 1) \<le> j \<and> j < k \<and> j \<notin> set ks \<longrightarrow> Format_name namer j \<in> set existing" by blast
      have "Format_name namer j \<in> set existing" if "k \<in> set ks" "i + offset \<le> j" "j < k" "j \<notin> set ks" for j k
        using ks(5) that True by (cases "j = i + offset") auto
      moreover have "pick_sockets namer existing wanted i offset = pick_sockets namer existing wanted i (offset + 1)"
        by (subst pick_sockets.simps) (use True False in simp)
      ultimately show ?thesis using ks by (intro exI [of _ ks]) auto
    next
      case free: False
      from "1.IH"(2) [OF False free] obtain ks where ks: "pick_sockets namer existing wanted (i + 1) offset = map (Format_name namer) ks"
        "length ks = wanted - (i + 1)" "sorted_wrt (<) ks" "\<forall>k \<in> set ks. i + 1 + offset \<le> k \<and> Format_name namer k \<notin> set existing"
        "\<forall>k \<in> set ks. \<forall>j. i + 1 + offset \<le> j \<and> j < k \<and> j \<notin> set ks \<longrightarrow> Format_name namer j \<in> set existing" by blast
      let ?ks = "(i + offset) # ks"
      have "Format_name namer j \<in> set existing" if "k \<in> set ?ks" "i + offset \<le> j" "j < k" "j \<notin> set ?ks" for j k
        using ks(5) that by auto
      moreover have "pick_sockets namer existing wanted i offset =
          Format_name namer (i + offset) # pick_sockets namer existing wanted (i + 1) offset"
        by (subst pick_sockets.simps) (use free False in simp)
      ultimately show ?thesis using ks free False by (intro exI [of _ ?ks]) auto
    qed
  qed
qed

lemma cleanLegacySockets_set:
  "cleanLegacySockets namer fails dir = Some dir' \<Longrightarrow> set dir' = {(name, d) \<in> set dir. d \<or> \<not> Owns namer name}"
  by (induction dir arbitrary: dir') (auto split: if_splits)

lemma clean_id_chars: "c \<in> set (clean_id s) \<Longrightarrow> id_char c"
  by (auto simp: clean_id_def id_char_def)

lemma slash_not_id: "\<not> id_char CHR ''/''"
  by (simp add: id_char_def is_digit_def byte_def)

lemma Format_name_slash: "CHR ''/'' \<notin> set (Format_name (newSocketNamer (clean_id s)) i)"
proof -
  have "CHR ''/'' \<notin> set (Utoa i)" using Utoa_digits [of i] by (auto simp: list_all_iff is_digit_def byte_def)
  moreover have "CHR ''/'' \<notin> set (clean_id s)" using clean_id_chars slash_not_id by blast
  ultimately show ?thesis by (simp add: Format_name_def newSocketNamer_def)
qed

text \<open>C33. The search for free names ends: with options that loaded, the entry points are as many distinct names as
  asked for, numbered upwards, each in the entry point directory itself; a number is skipped only when a
  directory bears its name.\<close>

theorem entrypoints_numbered:
  assumes "Load env flags parseDuration = Some opts" and "createEntrypoints opts fails dir = Some names"
  shows "\<exists>ks. names = map (Format_name (newSocketNamer (InstanceID opts))) ks \<and> length names = nat (EntrypointCount opts) \<and>
    distinct names \<and> sorted_wrt (<) ks \<and> (\<forall>name \<in> set names. CHR ''/'' \<notin> set name) \<and>
    (\<forall>k \<in> set ks. \<forall>j < k. j \<notin> set ks \<longrightarrow> (Format_name (newSocketNamer (InstanceID opts)) j, True) \<in> set dir)"
proof -
  let ?n = "newSocketNamer (InstanceID opts)"
  from assms(2) obtain dir' where d: "cleanLegacySockets ?n fails dir = Some dir'"
    and names: "names = pick_sockets ?n (map fst dir') (nat (EntrypointCount opts)) 0 0"
    by (auto simp: createEntrypoints_def Let_def)
  obtain s where "InstanceID opts = clean_id s" using assms(1) by (auto simp: Load_def Let_def split: Option.bind_splits)
  then have slash: "CHR ''/'' \<notin> set (Format_name ?n i)" for i using Format_name_slash by simp
  from pick_sockets_numbers [of ?n "map fst dir'" "nat (EntrypointCount opts)" 0 0] obtain ks where
    ks: "names = map (Format_name ?n) ks" "length ks = nat (EntrypointCount opts)" "sorted_wrt (<) ks"
      "\<forall>k \<in> set ks. \<forall>j. j < k \<and> j \<notin> set ks \<longrightarrow> Format_name ?n j \<in> fst ` set dir'" unfolding names by auto
  have "(Format_name ?n j, True) \<in> set dir" if "Format_name ?n j \<in> fst ` set dir'" for j
    using that Format_owned [of ?n j] unfolding cleanLegacySockets_set [OF d] by auto
  moreover have "distinct names"
    using ks(3) by (simp add: ks(1) distinct_map inj_on_def Format_inj strict_sorted_iff)
  ultimately show ?thesis using ks slash by (intro exI [of _ ks]) auto
qed

text \<open>An instance that starts removes exactly its own left-over sockets: those of an instance with another id stay.\<close>

theorem other_instances_keep_their_sockets:
  assumes "cleanLegacySockets (newSocketNamer a) fails dir = Some dir'"
  shows "(Format_name (newSocketNamer b) i, False) \<in> set dir' \<longleftrightarrow> (Format_name (newSocketNamer b) i, False) \<in> set dir \<and> a \<noteq> b"
  unfolding cleanLegacySockets_set [OF assms] by (auto simp: Owns_Format)

definition default_options :: "options option" where
  "default_options = Load (\<lambda>_. None) (\<lambda>_. None) (\<lambda>_. Some 60000000000)"

lemma default_options_load:
  "\<exists>opts. default_options = Some opts \<and> InstanceID opts = [] \<and> EntrypointCount opts = 1 \<and> MaxIdleConnsPerNode opts = 48 \<and>
     ServicesDir opts = ''/var/run/nautrouds/services'' \<and> MetricsPath opts = [] \<and> DefaultWelcome opts"
proof -
  have "Atoi ''1'' = Some 1" "Atoi ''48'' = Some 48"
    by (simp_all add: Atoi_def ParseInt_def ParseUint_def digits_value_def is_digit_def byte_def has_prefix_def Let_def)
  moreover have "mustParseFileMode ''1777'' = Some 1023" "mustParseFileMode ''0755'' = Some 493" "mustParseFileMode ''0666'' = Some 438"
    by (simp_all add: mustParseFileMode_def octal_value_def byte_def)
  ultimately show ?thesis
    by (simp add: default_options_def Load_def Let_def EnvBool_def EnvString_def getEnv_def clean_id_def
        mustParsePositiveInt_def mustParsePositiveDuration_def)
qed

definition busy_dir :: "dir_entry list" where
  "busy_dir = [(''nautrouds-0.sock'', True), (''nautrouds-1.sock'', False)]"

theorem entrypoints_numbered_witness:
  "\<exists>opts ks. default_options = Some opts \<and> createEntrypoints opts (\<lambda>_. False) busy_dir = Some [''nautrouds-1.sock''] \<and>
     [''nautrouds-1.sock''] = map (Format_name (newSocketNamer (InstanceID opts))) ks"
proof -
  obtain opts where opts: "default_options = Some opts" and o: "InstanceID opts = []" "EntrypointCount opts = 1"
    using default_options_load by blast
  have f: "Format_name (newSocketNamer []) 0 = ''nautrouds-0.sock''" "Format_name (newSocketNamer []) 1 = ''nautrouds-1.sock''"
    "\<not> Owns (newSocketNamer []) ''x''" by code_simp+
  have "cleanLegacySockets (newSocketNamer []) (\<lambda>_. False) busy_dir = Some [(''nautrouds-0.sock'', True)]"
    using Format_owned [of "newSocketNamer []" 1] f by (simp add: busy_dir_def)
  moreover have "pick_sockets (newSocketNamer []) [''nautrouds-0.sock''] 1 0 0 = [''nautrouds-1.sock'']"
    using f by (simp add: pick_sockets.simps)
  ultimately have c: "createEntrypoints opts (\<lambda>_. False) busy_dir = Some [''nautrouds-1.sock'']"
    by (simp add: createEntrypoints_def o)
  from entrypoints_numbered [OF opts [unfolded default_options_def] c] obtain ks where
    "[''nautrouds-1.sock''] = map (Format_name (newSocketNamer (InstanceID opts))) ks" by (elim exE conjE)
  with opts c show ?thesis by (intro exI conjI)
qed

theorem other_instances_keep_their_sockets_witness:
  "(Format_name (newSocketNamer ''b'') 7, False) \<in> set [(Format_name (newSocketNamer ''b'') 7, False)]"
proof -
  have "cleanLegacySockets (newSocketNamer ''a'') (\<lambda>_. False) [(Format_name (newSocketNamer ''b'') 7, False)] =
      Some [(Format_name (newSocketNamer ''b'') 7, False)]" by (simp add: Owns_Format)
  from other_instances_keep_their_sockets [OF this, of "''b''" 7] show ?thesis by simp
qed

end
