(* ===== verification/Transport.thy ===== *)
theory Transport
  imports Options Forwarding "HOL-Library.Signed_Division"
begin

text \<open>
  How \<open>internal/core/registry/forwarder/forwarder.go\<close> sets up the transports of a node, the choice between them in
  \<open>dual_transport.go\<close>, the load of a node, and the buffers of \<open>buffer_pool.go\<close>. The transports themselves belong to \<open>net/http\<close>.
\<close>

subsection \<open>Options\<close>

definition DefaultMaxIdleConnsPerNode :: int where "DefaultMaxIdleConnsPerNode = 48"

text \<open>Durations are in nanoseconds.\<close>

definition DefaultIdleConnTimeout :: int where "DefaultIdleConnTimeout = 60 * 1000000000"

record forwarder_config =
  maxIdleConnsPerNode :: int
  idleConnTimeout :: int

type_synonym forwarder_option = "forwarder_config \<Rightarrow> forwarder_config"

definition WithMaxIdleConnsPerNode :: "int \<Rightarrow> forwarder_option" where
  "WithMaxIdleConnsPerNode n c = (if 0 < n then c\<lparr>maxIdleConnsPerNode := n\<rparr> else c)"

definition WithIdleConnTimeout :: "int \<Rightarrow> forwarder_option" where
  "WithIdleConnTimeout d c = (if 0 < d then c\<lparr>idleConnTimeout := d\<rparr> else c)"

subsection \<open>\<open>New\<close>\<close>

record transport =
  MaxIdleConnsPerHost :: int
  TransportIdleTimeout :: int
  DisableCompression :: bool
  DisableKeepAlives :: bool
  UnencryptedHTTP2 :: bool

record dual_transport =
  useHTTP2 :: bool
  h1 :: transport
  h2 :: transport

definition New_transport :: "forwarder_option list \<Rightarrow> dual_transport" where
  "New_transport opts =
     (let cfg = fold (\<lambda>opt c. opt c) opts \<lparr>maxIdleConnsPerNode = DefaultMaxIdleConnsPerNode, idleConnTimeout = DefaultIdleConnTimeout\<rparr>
      in \<lparr>useHTTP2 = False,
          h1 = \<lparr>MaxIdleConnsPerHost = maxIdleConnsPerNode cfg, TransportIdleTimeout = idleConnTimeout cfg,
                DisableCompression = True, DisableKeepAlives = False, UnencryptedHTTP2 = False\<rparr>,
          h2 = \<lparr>MaxIdleConnsPerHost = 1, TransportIdleTimeout = idleConnTimeout cfg,
                DisableCompression = True, DisableKeepAlives = False, UnencryptedHTTP2 = True\<rparr>\<rparr>)"

definition RoundTrip :: "dual_transport \<Rightarrow> transport" where
  "RoundTrip t = (if useHTTP2 t then h2 t else h1 t)"

text \<open>What the probe of a new node, or of one that is tried again, leaves.\<close>

definition probed :: "bool \<Rightarrow> dual_transport \<Rightarrow> dual_transport" where
  "probed useH2 t = t\<lparr>useHTTP2 := useH2\<rparr>"

text \<open>The options \<open>run\<close> of \<open>cmd/core/main.go\<close> gives the registry for every node.\<close>

definition node_options :: "options \<Rightarrow> forwarder_option list" where
  "node_options opts = [WithMaxIdleConnsPerNode (MaxIdleConnsPerNode opts), WithIdleConnTimeout (IdleConnTimeout opts)]"

text \<open>The limits of the command line reach the transports of every node: options that load are never replaced by the
  defaults of the forwarder, a node without HTTP/2 keeps as many idle connections as configured, one with
  HTTP/2 keeps one, and both for the configured time.\<close>

theorem configured_limits_reach_nodes:
  assumes "Load env flags parseDuration = Some opts"
  shows "MaxIdleConnsPerHost (RoundTrip (probed useH2 (New_transport (node_options opts)))) = (if useH2 then 1 else MaxIdleConnsPerNode opts) \<and>
    TransportIdleTimeout (RoundTrip (probed useH2 (New_transport (node_options opts)))) = IdleConnTimeout opts \<and>
    UnencryptedHTTP2 (RoundTrip (probed useH2 (New_transport (node_options opts)))) = useH2 \<and>
    0 < MaxIdleConnsPerNode opts \<and> 0 < IdleConnTimeout opts"
proof -
  have "0 < MaxIdleConnsPerNode opts \<and> 0 < IdleConnTimeout opts"
    using assms by (auto simp: Load_def Let_def mustParsePositiveInt_def mustParsePositiveDuration_def
        split: Option.bind_splits option.splits if_splits)
  then show ?thesis
    by (simp add: RoundTrip_def probed_def New_transport_def node_options_def WithMaxIdleConnsPerNode_def WithIdleConnTimeout_def Let_def)
qed

theorem configured_limits_reach_nodes_witness:
  "\<exists>opts. default_options = Some opts \<and> MaxIdleConnsPerHost (RoundTrip (probed False (New_transport (node_options opts)))) = 48"
proof -
  obtain opts where o: "default_options = Some opts" "MaxIdleConnsPerNode opts = 48" using default_options_load by blast
  from configured_limits_reach_nodes [OF o(1) [unfolded default_options_def], of False] o show ?thesis by (intro exI [of _ opts]) simp
qed

subsection \<open>The load of a node\<close>

text \<open>\<open>InFlightWeight\<close>: an integer division, which panics for a zero weight.\<close>

definition InFlightWeight :: "int \<Rightarrow> int \<Rightarrow> int option" where
  "InFlightWeight inFlight weight = (if weight = 0 then None else Some (inFlight sdiv weight))"

text \<open>Counters of requests in flight are not negative and weights come from \<open>ParseNodeWeight\<close>: the division never panics, is
  that of the integers, and a node with a higher weight never has a higher load for as many requests.\<close>

lemma node_load:
  assumes "0 \<le> inFlight"
  shows "InFlightWeight inFlight (Weight (newForwarder svc node)) = Some (inFlight div Weight (newForwarder svc node))"
proof -
  have "1 \<le> Weight (newForwarder svc node)" by (simp add: newForwarder_def ParseNodeWeight_range)
  with assms show ?thesis by (simp add: InFlightWeight_def signed_divide_int_def sgn_if)
qed

lemma node_load_antimono:
  assumes "0 \<le> inFlight" and "Weight f \<le> Weight f'" and "1 \<le> Weight f"
  shows "inFlight div Weight f' \<le> inFlight div Weight f"
  using assms by (intro zdiv_mono2) auto

end
