(* ===== verification/Print_Tree.thy ===== *)
theory Print_Tree
  imports Pool_Leaves Pool_Size Go_Text
begin

text \<open>
  \<open>PrintTree\<close> of \<open>internal/rtree/search.go\<close>. \<open>printEdge\<close> calls itself for every edge of the node it prints, and a graft edge
  leads back to a node above or beside: that it ends rests on the order in which \<open>flattenNode\<close> writes the pools. Every edge of
  a node leads to a node written before it (\<open>layered\<close>), and every node is the target of a root slot or of an edge
  (\<open>covered\<close>), so each one is printed.
\<close>

subsection \<open>Printing\<close>

text \<open>What has been printed so far, or that an index or slice was out of range.\<close>

datatype printing = Crash | Lines "string list"

fun print_each :: "('a \<Rightarrow> string list \<Rightarrow> printing option) \<Rightarrow> 'a list \<Rightarrow> string list \<Rightarrow> printing option" where
  "print_each f [] lines = Some (Lines lines)"
| "print_each f (x # xs) lines = do {
     r \<leftarrow> f x lines;
     case r of Crash \<Rightarrow> Some Crash | Lines lines' \<Rightarrow> print_each f xs lines'
   }"

lemma print_each_mono [partial_function_mono]:
  assumes "\<And>x lines. mono_option (\<lambda>f. B f x lines)"
  shows "mono_option (\<lambda>f. print_each (B f) xs lines)"
proof (induction xs arbitrary: lines)
  case Nil
  show ?case by (simp add: option.const_mono)
next
  case (Cons x xs)
  have "mono_option (\<lambda>f. case r of Crash \<Rightarrow> Some Crash | Lines lines' \<Rightarrow> print_each (B f) xs lines')" for r
    using Cons.IH by (cases r) (simp_all add: option.const_mono)
  then show ?case unfolding print_each.simps by (intro bind_mono assms)
qed

text \<open>The lines of a box, in UTF-8.\<close>

definition tee :: string where "tee = [CHR 0xE2, CHR 0x94, CHR 0x9C]"
definition corner :: string where "corner = [CHR 0xE2, CHR 0x94, CHR 0x94]"
definition dash :: string where "dash = [CHR 0xE2, CHR 0x94, CHR 0x80]"
definition bar :: string where "bar = [CHR 0xE2, CHR 0x94, CHR 0x82]"

definition connector :: "bool \<Rightarrow> string" where
  "connector isLast = (if isLast then corner else tee) @ dash @ dash @ '' ''"

definition new_prefix :: "string \<Rightarrow> bool \<Rightarrow> string" where
  "new_prefix indent isLast = indent @ (if isLast then ''    '' else bar @ ''   '')"

definition shown_fragment :: "string \<Rightarrow> string" where
  "shown_fragment f = replace_all (replace_all f [Wildcard] ''*'') [WildcardGreedy] ''**''"

text \<open>\<open>info\<close>: the first argument is the order in which the range over \<open>HTTPMethodMap\<close> meets its keys.\<close>

definition node_info :: "string list \<Rightarrow> nat \<Rightarrow> route_node \<Rightarrow> string" where
  "node_info order k n =
     (if Methods n = 0 then []
      else CHR 0x09 # ''--['' @ Utoa k @ '']-'' @
        (if Methods n = MethodAny then ''ANY''
         else join_with CHR '','' (filter (\<lambda>m. Methods n AND HTTPMethodMap m \<noteq> 0) order)))"

definition graft_info :: "edge \<Rightarrow> string" where
  "graft_info e = (if GraftRollback e = 0 then [] else CHR 0x09 # ''g:'' @ Itoa (GraftRollback e))"

definition edge_line :: "string list \<Rightarrow> route_node \<Rightarrow> string \<Rightarrow> edge \<Rightarrow> string \<Rightarrow> bool \<Rightarrow> string" where
  "edge_line order node f e indent isLast =
     indent @ connector isLast @ shown_fragment f @ node_info order (TargetID e) node @ graft_info e"

text \<open>The order of the map is a new one for every line: it is a function of the number of lines before it.\<close>

partial_function (option) printEdge ::
  "(nat \<Rightarrow> string list) \<Rightarrow> route_tree \<Rightarrow> edge \<Rightarrow> string \<Rightarrow> bool \<Rightarrow> string list \<Rightarrow> printing option" where
  "printEdge order t e indent isLast lines =
     (case (idx (NodePool t) (TargetID e), slice (FragmentPool t) (Offset e) (End e)) of
        (Some node, Some f) \<Rightarrow>
          print_each (\<lambda>i lines.
              case idx (EdgePool t) (u16_of (EdgeOffset node + i)) of
                None \<Rightarrow> Some Crash
              | Some child \<Rightarrow>
                  printEdge order t child (new_prefix indent isLast) (i = EdgeCount node - 1) lines)
            [0..<EdgeCount node] (lines @ [edge_line (order (length lines)) node f e indent isLast])
      | _ \<Rightarrow> Some Crash)"

definition validRoots :: "route_tree \<Rightarrow> nat list option" where
  "validRoots t =
     (if 256 \<le> length (EdgePool t) then Some (filter (\<lambda>i. TargetID (EdgePool t ! i) \<noteq> 0) [0..<256]) else None)"

definition PrintTree :: "(nat \<Rightarrow> string list) \<Rightarrow> route_tree \<Rightarrow> printing option" where
  "PrintTree order t =
     (case validRoots t of
        None \<Rightarrow> Some Crash
      | Some roots \<Rightarrow>
          print_each (\<lambda>i. printEdge order t (EdgePool t ! (roots ! i)) [] (i = length roots - 1))
            [0..<length roots] [''.''])"


subsection \<open>Children before their parents\<close>

definition edge_below :: "route_tree \<Rightarrow> nat \<Rightarrow> edge \<Rightarrow> bool" where
  "edge_below t n e \<longleftrightarrow> TargetID e < n \<and> Offset e \<le> End e \<and> End e \<le> length (FragmentPool t)"

definition graft_below :: "route_tree \<Rightarrow> nat \<Rightarrow> graft option \<Rightarrow> bool" where
  "graft_below t n fb \<longleftrightarrow> (\<forall>g. fb = Some g \<longrightarrow> edge_below t n (g_target g))"

definition node_edge :: "route_tree \<Rightarrow> nat \<Rightarrow> nat \<Rightarrow> edge" where
  "node_edge t k i = EdgePool t ! (EdgeOffset (NodePool t ! k) + i)"

definition layered :: "route_tree \<Rightarrow> bool" where
  "layered t \<longleftrightarrow> 256 \<le> length (EdgePool t) \<and> 2 \<le> length (FragmentPool t) \<and>
     (\<forall>k < length (NodePool t). \<forall>i < EdgeCount (NodePool t ! k).
        256 \<le> EdgeOffset (NodePool t ! k) + i \<and> EdgeOffset (NodePool t ! k) + i < min 65536 (length (EdgePool t)) \<and>
        edge_below t k (node_edge t k i))"

definition leads :: "route_tree \<Rightarrow> nat \<Rightarrow> nat \<Rightarrow> bool" where
  "leads t j k \<longleftrightarrow> j < length (NodePool t) \<and> (\<exists>i < EdgeCount (NodePool t ! j). TargetID (node_edge t j i) = k)"

definition covered :: "nat set \<Rightarrow> route_tree \<Rightarrow> bool" where
  "covered S t \<longleftrightarrow> (\<forall>k. 0 < k \<longrightarrow> k < length (NodePool t) \<longrightarrow> k \<in> S \<or> (\<exists>j. leads t j k))"

lemma edge_below_mono:
  "edge_below t n e \<Longrightarrow> length (FragmentPool t) \<le> length (FragmentPool t') \<Longrightarrow> n \<le> n' \<Longrightarrow> edge_below t' n' e"
  by (simp add: edge_below_def)

lemma graft_below_mono:
  "graft_below t n fb \<Longrightarrow> length (FragmentPool t) \<le> length (FragmentPool t') \<Longrightarrow> n \<le> n' \<Longrightarrow> graft_below t' n' fb"
  by (auto simp: graft_below_def intro: edge_below_mono)

lemma grows_lengths:
  assumes "grows t t'"
  shows "length (FragmentPool t) \<le> length (FragmentPool t')" "length (NodePool t) \<le> length (NodePool t')"
    "length (EdgePool t) \<le> length (EdgePool t')"
  using assms by (auto simp: grows_def dest: prefix_length_le)

lemma edge_below_grows: "edge_below t (length (NodePool t)) e \<Longrightarrow> grows t t' \<Longrightarrow> edge_below t' (length (NodePool t')) e"
  by (auto intro: edge_below_mono grows_lengths)

lemma graft_below_grows: "graft_below t (length (NodePool t)) fb \<Longrightarrow> grows t t' \<Longrightarrow> graft_below t' (length (NodePool t')) fb"
  by (auto intro: graft_below_mono grows_lengths)

lemma graft_below_through [simp]: "graft_below t n (map_option (through f d) fb) \<longleftrightarrow> graft_below t n fb"
  by (cases fb) (auto simp: graft_below_def through_def)

lemma graft_below_to [simp]: "graft_below t n (Some (graft_to e)) \<longleftrightarrow> edge_below t n e"
  by (simp add: graft_below_def graft_to_def)

text \<open>The own graft of a node: at most one edge, with the target of the graft.\<close>

lemma graft_edges_target:
  assumes "graft_edges fb = Some es"
  shows "TargetID ` set es = (case fb of None \<Rightarrow> {} | Some g \<Rightarrow> {TargetID (g_target g)})"
    and "graft_below t n fb \<Longrightarrow> e \<in> set es \<Longrightarrow> edge_below t n e"
  using assms by (auto simp: graft_edges_def graft_edge_def graft_below_def edge_below_def split: option.splits if_splits)

subsection \<open>One node\<close>

lemma node_edge_append:
  assumes "layered t" and "k < length (NodePool t)" and "i < EdgeCount (NodePool t ! k)"
  shows "node_edge (append_node edges l t) k i = node_edge t k i"
  using assms by (simp add: layered_def node_edge_def append_node_def nth_append)

lemma node_edge_new:
  assumes "256 \<le> length (EdgePool t)" and "length (EdgePool t) + length edges \<le> 65536" and "i < length edges"
  shows "node_edge (append_node edges l t) (length (NodePool t)) i = edges ! i"
  using assms by (simp add: node_edge_def append_node_def nth_append)

lemma layered_append:
  assumes "layered t" and "length (EdgePool t) + length edges \<le> 65536"
    and "\<forall>e \<in> set edges. edge_below t (length (NodePool t)) e"
  shows "layered (append_node edges l t)"
proof -
  let ?t = "append_node edges l t"
  have old: "edge_below ?t k (node_edge ?t k i) \<and> 256 \<le> EdgeOffset (NodePool ?t ! k) + i \<and>
      EdgeOffset (NodePool ?t ! k) + i < min 65536 (length (EdgePool ?t))"
    if "k < length (NodePool t)" "i < EdgeCount (NodePool ?t ! k)" for k i
  proof -
    have i: "i < EdgeCount (NodePool t ! k)" using that by (simp add: append_node_def nth_append)
    have "EdgeOffset (NodePool t ! k) + i < length (EdgePool t)" "EdgeOffset (NodePool t ! k) + i < 65536"
      "256 \<le> EdgeOffset (NodePool t ! k) + i" "edge_below t k (node_edge t k i)"
      using assms(1) that(1) i by (simp_all add: layered_def)
    then show ?thesis unfolding node_edge_append [OF assms(1) that(1) i]
      using that(1) by (simp add: append_node_def nth_append edge_below_def)
  qed
  have new: "edge_below ?t (length (NodePool t)) (node_edge ?t (length (NodePool t)) i) \<and>
      256 \<le> EdgeOffset (NodePool ?t ! length (NodePool t)) + i \<and>
      EdgeOffset (NodePool ?t ! length (NodePool t)) + i < min 65536 (length (EdgePool ?t))"
    if "i < EdgeCount (NodePool ?t ! length (NodePool t))" for i
  proof -
    have b: "256 \<le> length (EdgePool t)" using assms(1) by (simp add: layered_def)
    have i: "i < length edges" using that b assms(2) by (simp add: append_node_def)
    then have "edge_below t (length (NodePool t)) (edges ! i)" using assms(3) by simp
    with i b assms(2) show ?thesis
      by (simp add: node_edge_new [OF b assms(2) i]) (simp add: append_node_def edge_below_def)
  qed
  have "length (NodePool ?t) = Suc (length (NodePool t))" by (simp add: append_node_def)
  moreover have "256 \<le> length (EdgePool ?t)" "2 \<le> length (FragmentPool ?t)"
    using assms(1) by (simp_all add: layered_def append_node_def)
  ultimately show ?thesis using old new unfolding layered_def by (metis less_Suc_eq)
qed

lemma leads_append:
  assumes "layered t" and "leads t j k"
  shows "leads (append_node edges l t) j k"
  using assms node_edge_append [OF assms(1), of j _ edges l]
  by (auto simp: leads_def append_node_def nth_append)

lemma leads_new:
  assumes "256 \<le> length (EdgePool t)" and "length (EdgePool t) + length edges \<le> 65536" and "k \<in> TargetID ` set edges"
  shows "leads (append_node edges l t) (length (NodePool t)) k"
proof -
  from assms(3) obtain i where i: "i < length edges" "k = TargetID (edges ! i)" by (auto simp: in_set_conv_nth)
  moreover have "length edges < 65536" using assms(1,2) by linarith
  ultimately show ?thesis using node_edge_new [OF assms(1,2) i(1), of l]
    by (auto simp: leads_def append_node_def)
qed

lemma covered_append:
  assumes "layered t" and "length (EdgePool t) + length edges \<le> 65536" and "covered (S \<union> TargetID ` set edges) t"
  shows "covered (insert (length (NodePool t)) S) (append_node edges l t)"
proof -
  let ?t = "append_node edges l t"
  have "k \<in> insert (length (NodePool t)) S \<or> (\<exists>j. leads ?t j k)" if "0 < k" "k < Suc (length (NodePool t))" for k
  proof (cases "k = length (NodePool t)")
    case False
    with that assms(3) have "k \<in> S \<or> k \<in> TargetID ` set edges \<or> (\<exists>j. leads t j k)" by (auto simp: covered_def)
    moreover have "256 \<le> length (EdgePool t)" using assms(1) by (simp add: layered_def)
    ultimately show ?thesis using leads_append [OF assms(1)] leads_new [OF _ assms(2)] by blast
  qed simp
  then show ?thesis by (simp add: covered_def append_node_def)
qed


subsection \<open>The pools \<open>finalize\<close> writes\<close>

definition pools :: "nat set \<Rightarrow> route_tree \<Rightarrow> bool" where
  "pools S t \<longleftrightarrow> layered t \<and> covered S t"

lemma pools_mono: "pools S t \<Longrightarrow> S \<subseteq> insert 0 S' \<Longrightarrow> pools S' t"
  unfolding pools_def covered_def by (metis insertE less_numeral_extra(3) subsetD)

lemma pools_append:
  assumes "pools (S \<union> TargetID ` set edges) t" and "\<forall>e \<in> set edges. edge_below t (length (NodePool t)) e"
    and "length (EdgePool t) + length edges \<le> 65536"
  shows "pools (insert (length (NodePool t)) S) (append_node edges l t)"
  using assms layered_append covered_append unfolding pools_def by blast

lemma pools_fragment:
  assumes "pools S t"
  shows "pools S (t\<lparr>FragmentPool := FragmentPool t @ f\<rparr>)"
  using assms by (auto simp: pools_def layered_def covered_def leads_def node_edge_def edge_below_def intro: trans_le_add1)

lemma pools_finish:
  assumes "finish_node f l edges t = (e, t')" and "pools (S \<union> TargetID ` set edges) t"
    and "\<forall>e \<in> set edges. edge_below t (length (NodePool t)) e" and "length (EdgePool t') \<le> 65536"
  shows "pools (insert (TargetID e) S) t' \<and> edge_below t' (length (NodePool t')) e"
proof -
  have "length (EdgePool t) + length edges \<le> 65536"
    using assms(1,4) by (auto simp: finish_node_def append_node_def Let_def split: if_splits)
  from pools_append [OF assms(2,3) this]
  have p: "pools (insert (length (NodePool t)) S) (append_node edges l t)" .
  have "2 \<le> length (FragmentPool t)" using assms(2) by (simp add: pools_def layered_def)
  moreover have "byte (hd f) \<le> 2" if "is_wild (hd f)" using that by (auto simp: is_wild_def)
  ultimately show ?thesis
    using assms(1) p pools_fragment [OF p, of f]
    by (auto simp: finish_node_def Let_def edge_below_def append_node_def split: if_splits)
qed

lemma pools_clone:
  assumes "accept_clone c l own d t = Some (g, t')" and "is_wild c" and "pools S t"
    and "graft_below t (length (NodePool t)) own" and "length (EdgePool t') \<le> 65536"
  shows "\<exists>x. g = Some x \<and> pools (insert (TargetID (g_target x)) S) t' \<and> graft_below t' (length (NodePool t')) g"
proof -
  from assms(1) obtain es where es: "graft_edges own = Some es" and t': "t' = append_node es l t"
    and g: "g = Some \<lparr>g_target = \<lparr>TargetID = length (NodePool t), Offset = byte c - 1, End = byte c,
        GraftRollback = 0\<rparr>, g_checkpoint = int d - 1, g_length = 0\<rparr>"
    by (auto simp: accept_clone_def bind_eq_Some_conv)
  have "pools (insert (length (NodePool t)) S) t'" unfolding t'
  proof (rule pools_append)
    show "pools (S \<union> TargetID ` set es) t" by (rule pools_mono [OF assms(3)]) blast
    show "\<forall>e \<in> set es. edge_below t (length (NodePool t)) e" using graft_edges_target(2) [OF es assms(4)] by blast
    show "length (EdgePool t) + length es \<le> 65536" using assms(5) t' by (simp add: append_node_def)
  qed
  moreover have "byte c \<le> length (FragmentPool t)"
    using assms(2,3) by (auto simp: is_wild_def pools_def layered_def)
  ultimately show ?thesis by (simp add: g t' graft_below_def edge_below_def append_node_def)
qed

lemma flatten_pools:
  "flatten_edge be inh d t = Some (e, t') \<Longrightarrow> pools S t \<Longrightarrow> graft_below t (length (NodePool t)) inh \<Longrightarrow>
     length (EdgePool t') \<le> 65536 \<Longrightarrow>
     pools (insert (TargetID e) S) t' \<and> edge_below t' (length (NodePool t')) e"
  "flatten_children es fb d t = Some (edges, fb', t') \<Longrightarrow> pools S t \<Longrightarrow> graft_below t (length (NodePool t)) fb \<Longrightarrow>
     length (EdgePool t') \<le> 65536 \<Longrightarrow>
     pools (S \<union> TargetID ` set edges) t' \<and> (\<forall>e \<in> set edges. edge_below t' (length (NodePool t')) e) \<and>
     graft_below t' (length (NodePool t')) fb'"
proof (induction be inh d t and es fb d t arbitrary: e t' S and edges fb' t' S
    rule: flatten_edge_flatten_children.induct)
  case (1 f es a m tg inh d t)
  from "1.prems"(1) obtain own u edges fb u2 own' where
    s1: "(if is_wild (hd f) \<and> m \<noteq> 0 \<and> es \<noteq> []
      then accept_clone (hd f) (a, m, tg) (map_option (through f d) inh) d t
      else Some (map_option (through f d) inh, t)) = Some (own, u)"
    and s2: "flatten_children es own d u = Some (edges, fb, u2)"
    and s3: "graft_edges own = Some own'"
    and s4: "finish_node f (a, m, tg) (edges @ own') u2 = (e, t')" by (elim flatten_edgeE)
  have g2: "grows u u2" by (rule flatten_grows(2) [OF s2])
  have "grows u2 t'" using grows_finish_node [of u2 f "(a, m, tg)" "edges @ own'"] s4 by simp
  then have le: "length (EdgePool u2) \<le> 65536" using "1.prems"(4) grows_lengths(3) by (meson order_trans)
  then have le1: "length (EdgePool u) \<le> 65536" using grows_lengths(3) [OF g2] by simp
  have u: "pools (S \<union> TargetID ` set own') u \<and> graft_below u (length (NodePool u)) own"
  proof (cases "is_wild (hd f) \<and> m \<noteq> 0 \<and> es \<noteq> []")
    case True
    then have "accept_clone (hd f) (a, m, tg) (map_option (through f d) inh) d t = Some (own, u)" using s1 by simp
    from pools_clone [OF this _ "1.prems"(2) _ le1] True "1.prems"(3) graft_edges_target(1) [OF s3]
    show ?thesis by auto
  next
    case False
    then have "own = map_option (through f d) inh" "u = t" using s1 by auto
    then show ?thesis using "1.prems"(2,3) by (auto elim: pools_mono)
  qed
  then have "pools (S \<union> TargetID ` set own' \<union> TargetID ` set edges) u2 \<and>
      (\<forall>e \<in> set edges. edge_below u2 (length (NodePool u2)) e)"
    using "1.IH" [OF refl s1 refl s2 _ _ le] by blast
  moreover have "graft_below u2 (length (NodePool u2)) own" using u g2 by (blast intro: graft_below_grows)
  ultimately show ?case
    using pools_finish [OF s4, of S] graft_edges_target(2) [OF s3] "1.prems"(4) by (auto simp: Un_ac image_Un)
next
  case (3 child es fb d t)
  from "3.prems"(1) obtain edges' fb1 u e where
    s1: "flatten_children es fb d t = Some (edges', fb1, u)"
    and s2: "flatten_edge child fb1 (if wild_edge child then d + 1 else d) u = Some (e, t')"
    and r: "edges = e # edges'" "fb' = (if wild_edge child then Some (graft_to e) else fb1)" by (elim flatten_childrenE)
  have g: "grows u t'" by (rule flatten_grows(1) [OF s2])
  then have "length (EdgePool u) \<le> 65536" using "3.prems"(4) grows_lengths(3) by (meson order_trans)
  with "3.IH"(1) [OF s1 "3.prems"(2,3)] have i: "pools (S \<union> TargetID ` set edges') u"
    "\<forall>e \<in> set edges'. edge_below u (length (NodePool u)) e" "graft_below u (length (NodePool u)) fb1" by blast+
  from "3.IH"(2) [OF s1 refl refl s2 i(1,3) "3.prems"(4)]
  have "pools (insert (TargetID e) (S \<union> TargetID ` set edges')) t'" "edge_below t' (length (NodePool t')) e" by blast+
  then show ?case using i(2,3) g unfolding r by (auto intro: edge_below_grows graft_below_grows)
qed simp


lemma pools_root_slot:
  assumes "pools S t"
  shows "pools S (t\<lparr>EdgePool := (EdgePool t)[byte c := e]\<rparr>)"
proof -
  let ?t = "t\<lparr>EdgePool := (EdgePool t)[byte c := e]\<rparr>"
  have "layered t" using assms by (simp add: pools_def)
  then have same: "node_edge ?t k i = node_edge t k i"
    if "k < length (NodePool t)" "i < EdgeCount (NodePool t ! k)" for k i
  proof -
    have "byte c \<noteq> EdgeOffset (NodePool t ! k) + i"
      using that \<open>layered t\<close> byte_less [of c] unfolding layered_def by (metis not_less)
    then show ?thesis by (simp add: node_edge_def)
  qed
  have "edge_below ?t = edge_below t" by (simp add: edge_below_def fun_eq_iff)
  moreover have "leads ?t j k \<longleftrightarrow> leads t j k" for j k by (auto simp: leads_def same)
  ultimately show ?thesis using same assms by (simp add: pools_def layered_def covered_def)
qed

definition root_edge :: "route_tree \<Rightarrow> char \<Rightarrow> edge" where
  "root_edge t c = EdgePool t ! byte c"

lemma finalize_roots_pools:
  "finalize_roots cs roots fb t = Some t' \<Longrightarrow> distinct cs \<Longrightarrow> \<forall>c \<in> set cs. TargetID (root_edge t c) = 0 \<Longrightarrow>
     \<forall>c. edge_below t (length (NodePool t)) (root_edge t c) \<Longrightarrow> pools (range (\<lambda>c. TargetID (root_edge t c))) t \<Longrightarrow>
     graft_below t (length (NodePool t)) fb \<Longrightarrow> length (EdgePool t') \<le> 65536 \<Longrightarrow>
     pools (range (\<lambda>c. TargetID (root_edge t' c))) t' \<and> (\<forall>c. edge_below t' (length (NodePool t')) (root_edge t' c))"
proof (induction cs arbitrary: fb t)
  case (Cons b cs)
  show ?case
  proof (cases "roots b")
    case None
    then show ?thesis using Cons by simp
  next
    case (Some be)
    with Cons.prems(1) obtain e t1 where s1: "flatten_edge be fb (if wild_edge be then 1 else 0) t = Some (e, t1)"
      and s2: "finalize_roots cs roots (if wild_edge be then Some (graft_to e) else fb)
        (t1\<lparr>EdgePool := (EdgePool t1)[byte b := e]\<rparr>) = Some t'" by (rule finalize_roots_SomeE)
    let ?t2 = "t1\<lparr>EdgePool := (EdgePool t1)[byte b := e]\<rparr>"
    have g: "grows t t1" by (rule flatten_grows(1) [OF s1])
    have len: "256 \<le> length (EdgePool t)" using Cons.prems(5) by (simp add: pools_def layered_def)
    then have len1: "256 \<le> length (EdgePool t1)" using grows_lengths(3) [OF g] by simp
    have "extends ?t2 t'" by (rule finalize_roots_extends [OF s2]) (use len1 in simp)
    then have le: "length (EdgePool t1) \<le> 65536" using Cons.prems(7) by (simp add: extends_def)
    have slot: "root_edge ?t2 c = (if c = b then e else root_edge t c)" for c
    proof -
      have "byte c < length (EdgePool t)" "byte b < length (EdgePool t1)"
        using len len1 byte_less [of c] byte_less [of b] by linarith+
      moreover have "EdgePool t1 ! byte c = EdgePool t ! byte c" if "byte c < length (EdgePool t)"
        using g that by (auto simp: grows_def prefix_def nth_append)
      ultimately show ?thesis by (auto simp: root_edge_def nth_list_update)
    qed
    from flatten_pools(1) [OF s1 Cons.prems(5,6) le]
    have p: "pools (insert (TargetID e) (range (\<lambda>c. TargetID (root_edge t c)))) t1"
      and e: "edge_below t1 (length (NodePool t1)) e" by simp_all
    have below: "edge_below ?t2 n x \<longleftrightarrow> edge_below t1 n x" for n x by (simp add: edge_below_def)
    have "insert (TargetID e) (range (\<lambda>c. TargetID (root_edge t c))) \<subseteq>
        insert 0 (range (\<lambda>c. TargetID (root_edge ?t2 c)))"
    proof
      fix k
      assume "k \<in> insert (TargetID e) (range (\<lambda>c. TargetID (root_edge t c)))"
      then consider "k = TargetID e" | c where "k = TargetID (root_edge t c)" by auto
      then show "k \<in> insert 0 (range (\<lambda>c. TargetID (root_edge ?t2 c)))"
      proof cases
        case 1
        then have "k = TargetID (root_edge ?t2 b)" by (simp add: slot)
        then show ?thesis by simp
      next
        case 2
        then have "k = 0 \<or> k = TargetID (root_edge ?t2 c)" using Cons.prems(3) by (auto simp: slot)
        then show ?thesis by auto
      qed
    qed
    with pools_root_slot [OF p, of b e] have p2: "pools (range (\<lambda>c. TargetID (root_edge ?t2 c))) ?t2"
      by (rule pools_mono)
    show ?thesis
    proof (rule Cons.IH [OF s2 _ _ _ p2 _ Cons.prems(7)])
      show "distinct cs" using Cons.prems(2) by simp
      show "\<forall>c \<in> set cs. TargetID (root_edge ?t2 c) = 0" using Cons.prems(2,3) by (auto simp: slot)
      show "\<forall>c. edge_below ?t2 (length (NodePool ?t2)) (root_edge ?t2 c)"
        using e Cons.prems(4) g by (auto simp: slot below intro: edge_below_grows)
      show "graft_below ?t2 (length (NodePool ?t2)) (if wild_edge be then Some (graft_to e) else fb)"
        using e graft_below_grows [OF Cons.prems(6) g] by (simp add: below graft_below_def graft_to_def)
    qed
  qed
qed simp

lemma finalize_pools:
  assumes "finalize roots t0 = Some t" and "fits t"
  shows "pools (range (\<lambda>c. TargetID (root_edge t c))) t" and "edge_below t (length (NodePool t)) (root_edge t c)"
proof -
  let ?t = "t0\<lparr>NodePool := [zero_node], EdgePool := replicate 256 zero_edge, FragmentPool := [WildcardGreedy, Wildcard]\<rparr>"
  have root: "root_edge ?t c = zero_edge" for c using byte_less [of c] by (simp add: root_edge_def)
  have zero: "TargetID zero_edge = 0" "edge_below ?t 1 zero_edge" by (simp_all add: zero_edge_def edge_below_def)
  have "pools (range (\<lambda>c. TargetID (root_edge ?t c))) ?t"
    by (simp add: pools_def layered_def covered_def zero_node_def)
  moreover obtain rest where "distinct all_bytes" by (rule all_bytes_split)
  ultimately have "pools (range (\<lambda>c. TargetID (root_edge t c))) t \<and> (\<forall>c. edge_below t (length (NodePool t)) (root_edge t c))"
    using assms(2) zero by (intro finalize_roots_pools [OF assms(1) [unfolded finalize_def]])
      (simp_all add: root fits_def graft_below_def)
  then show "pools (range (\<lambda>c. TargetID (root_edge t c))) t" and "edge_below t (length (NodePool t)) (root_edge t c)"
    by simp_all
qed


subsection \<open>Printing ends and shows every node\<close>

definition shown :: "(nat \<Rightarrow> string list) \<Rightarrow> route_tree \<Rightarrow> string list \<Rightarrow> nat \<Rightarrow> bool" where
  "shown order t ls k \<longleftrightarrow> (\<exists>l \<in> set ls. \<exists>n. sublist (node_info (order n) k (NodePool t ! k)) l)"

lemma shown_append: "shown order t ls k \<or> shown order t ls' k \<Longrightarrow> shown order t (ls @ ls') k"
  by (auto simp: shown_def)

definition prints :: "(nat \<Rightarrow> string list) \<Rightarrow> route_tree \<Rightarrow> nat set \<Rightarrow> string list \<Rightarrow> printing option \<Rightarrow> bool" where
  "prints order t K lines r \<longleftrightarrow> (\<exists>ls. r = Some (Lines (lines @ ls)) \<and> (\<forall>k \<in> K. shown order t ls k))"

lemma print_each_prints:
  assumes "\<And>x lines. x \<in> set xs \<Longrightarrow> prints order t (K x) lines (f x lines)"
  shows "prints order t (\<Union>x \<in> set xs. K x) lines (print_each f xs lines)"
  using assms
proof (induction xs arbitrary: lines)
  case (Cons x xs)
  from Cons.prems [of x lines] obtain ls where x: "f x lines = Some (Lines (lines @ ls))" "\<forall>k \<in> K x. shown order t ls k"
    by (auto simp: prints_def)
  from Cons.IH [of "lines @ ls"] Cons.prems obtain ls' where
    xs: "print_each f xs (lines @ ls) = Some (Lines ((lines @ ls) @ ls'))" "\<forall>k \<in> (\<Union>x \<in> set xs. K x). shown order t ls' k"
    unfolding prints_def by (metis list.set_intros(2))
  with x show ?case unfolding prints_def by (intro exI [of _ "ls @ ls'"]) (auto intro: shown_append)
qed (simp add: prints_def)

lemma node_info_shown: "sublist (node_info order (TargetID e) n) (edge_line order n f e indent isLast)"
  unfolding edge_line_def by (metis append.assoc sublist_appendI)

lemma printEdge_prints:
  assumes "layered t" and "edge_below t (length (NodePool t)) e"
  shows "prints order t {k. (leads t)\<^sup>*\<^sup>* (TargetID e) k} lines (printEdge order t e indent isLast lines)"
  using assms(2)
proof (induction "TargetID e" arbitrary: e indent isLast lines rule: less_induct)
  case less
  let ?j = "TargetID e" and ?node = "NodePool t ! TargetID e"
  from less.prems have j: "?j < length (NodePool t)" by (simp add: edge_below_def)
  obtain f where f: "slice (FragmentPool t) (Offset e) (End e) = Some f"
    using less.prems by (simp add: edge_below_def slice_def)
  define l where "l = edge_line (order (length lines)) ?node f e indent isLast"
  define child where "child i lines = (case idx (EdgePool t) (u16_of (EdgeOffset ?node + i)) of
      None \<Rightarrow> Some Crash
    | Some e' \<Rightarrow> printEdge order t e' (new_prefix indent isLast) (i = EdgeCount ?node - 1) lines)" for i lines
  have run: "printEdge order t e indent isLast lines = print_each child [0..<EdgeCount ?node] (lines @ [l])"
    using j f by (subst printEdge.simps) (simp add: l_def child_def [abs_def])
  have "prints order t {k. (leads t)\<^sup>*\<^sup>* (TargetID (node_edge t ?j i)) k} lines (child i lines)"
    if "i \<in> set [0..<EdgeCount ?node]" for i lines
  proof -
    have b: "edge_below t ?j (node_edge t ?j i)" "EdgeOffset ?node + i < 65536" "EdgeOffset ?node + i < length (EdgePool t)"
      using assms(1) j that by (auto simp: layered_def)
    then have "TargetID (node_edge t ?j i) < ?j" by (simp add: edge_below_def)
    from less.hyps [OF this] b j show ?thesis by (simp add: child_def node_edge_def edge_below_def)
  qed
  then have "prints order t (\<Union>i \<in> set [0..<EdgeCount ?node]. {k. (leads t)\<^sup>*\<^sup>* (TargetID (node_edge t ?j i)) k})
      (lines @ [l]) (print_each child [0..<EdgeCount ?node] (lines @ [l]))" by (rule print_each_prints)
  then obtain ls where
    ls: "print_each child [0..<EdgeCount ?node] (lines @ [l]) = Some (Lines (lines @ l # ls))"
    "\<And>i k. i < EdgeCount ?node \<Longrightarrow> (leads t)\<^sup>*\<^sup>* (TargetID (node_edge t ?j i)) k \<Longrightarrow> shown order t ls k"
    by (auto simp: prints_def)
  have "shown order t (l # ls) k" if "(leads t)\<^sup>*\<^sup>* ?j k" for k
    using that
  proof (cases rule: converse_rtranclpE)
    case base
    then show ?thesis using node_info_shown [of "order (length lines)" e ?node f indent isLast]
      by (auto simp: shown_def l_def)
  next
    case (step m)
    then obtain i where "i < EdgeCount ?node" "(leads t)\<^sup>*\<^sup>* (TargetID (node_edge t ?j i)) k" by (auto simp: leads_def)
    then have "shown order t ls k" by (rule ls(2))
    then show ?thesis using shown_append [of order t "[l]" k ls] by simp
  qed
  with run ls(1) show ?case by (auto simp: prints_def)
qed

text \<open>Every node is reached from a root slot.\<close>

lemma node_reached:
  assumes "pools (range (\<lambda>c. TargetID (root_edge t c))) t" and "0 < k" and "k < length (NodePool t)"
  shows "\<exists>c. TargetID (root_edge t c) \<noteq> 0 \<and> (leads t)\<^sup>*\<^sup>* (TargetID (root_edge t c)) k"
  using assms(2,3)
proof (induction "length (NodePool t) - k" arbitrary: k rule: less_induct)
  case less
  with assms(1) consider c where "k = TargetID (root_edge t c)" | j where "leads t j k"
    unfolding pools_def covered_def by blast
  then show ?case
  proof cases
    case 1
    with less.prems(1) show ?thesis by auto
  next
    case 2
    have "layered t" using assms(1) by (simp add: pools_def)
    then have "k < j" "j < length (NodePool t)" using 2 by (auto simp: layered_def leads_def edge_below_def)
    then obtain c where "TargetID (root_edge t c) \<noteq> 0" "(leads t)\<^sup>*\<^sup>* (TargetID (root_edge t c)) j"
      using less.hyps [of j] less.prems by (meson diff_less_mono2 gr0I less_trans not_less0)
    with 2 show ?thesis by (meson rtranclp.rtrancl_into_rtrancl)
  qed
qed

lemma PrintTree_prints:
  assumes "finalize roots t0 = Some t" and "fits t"
  shows "prints order t {k. 0 < k \<and> k < length (NodePool t)} [''.''] (PrintTree order t)"
proof -
  have p: "pools (range (\<lambda>c. TargetID (root_edge t c))) t" by (rule finalize_pools(1) [OF assms])
  then have lay: "layered t" by (simp add: pools_def)
  define rs where "rs = filter (\<lambda>i. TargetID (EdgePool t ! i) \<noteq> 0) [0..<256]"
  have valid: "validRoots t = Some rs" using lay by (simp add: validRoots_def rs_def layered_def)
  have byte_of: "i = byte (char_of i)" if "i < 256" for i using that by (simp add: byte_char_of)
  have "prints order t {k. (leads t)\<^sup>*\<^sup>* (TargetID (EdgePool t ! (rs ! i))) k} lines
      (printEdge order t (EdgePool t ! (rs ! i)) [] (i = length rs - 1) lines)"
    if "i \<in> set [0..<length rs]" for i lines
  proof (rule printEdge_prints [OF lay])
    have "rs ! i \<in> set rs" using that by simp
    then have "rs ! i < 256" by (simp add: rs_def)
    then have "EdgePool t ! (rs ! i) = root_edge t (char_of (rs ! i))" unfolding root_edge_def by (metis byte_of)
    then show "edge_below t (length (NodePool t)) (EdgePool t ! (rs ! i))" using finalize_pools(2) [OF assms] by simp
  qed
  from print_each_prints [OF this, where lines = "[''.'']"]
  have "prints order t (\<Union>i \<in> set [0..<length rs]. {k. (leads t)\<^sup>*\<^sup>* (TargetID (EdgePool t ! (rs ! i))) k}) [''.'']
      (PrintTree order t)"
    by (simp only: PrintTree_def valid option.case)
  moreover have "{k. 0 < k \<and> k < length (NodePool t)} \<subseteq>
      (\<Union>i \<in> set [0..<length rs]. {k. (leads t)\<^sup>*\<^sup>* (TargetID (EdgePool t ! (rs ! i))) k})"
  proof
    fix k
    assume "k \<in> {k. 0 < k \<and> k < length (NodePool t)}"
    then obtain c where c: "TargetID (root_edge t c) \<noteq> 0" "(leads t)\<^sup>*\<^sup>* (TargetID (root_edge t c)) k"
      using node_reached [OF p] by auto
    then have "byte c \<in> set rs" by (simp add: rs_def root_edge_def)
    then obtain i where "i < length rs" "rs ! i = byte c" by (auto simp: in_set_conv_nth)
    with c(2) show "k \<in> (\<Union>i \<in> set [0..<length rs]. {k. (leads t)\<^sup>*\<^sup>* (TargetID (EdgePool t ! (rs ! i))) k})"
      by (intro UN_I [of i]) (auto simp: root_edge_def)
  qed
  ultimately show ?thesis unfolding prints_def by blast
qed

lemma finalize_first_node:
  assumes "finalize roots t0 = Some t"
  shows "NodePool t ! 0 = zero_node"
  using finalize_roots_extends [OF assms [unfolded finalize_def]] by (auto simp: extends_def prefix_def)


text \<open>C16. \<open>PrintTree\<close> on a built tree within the 16-bit edge offsets ends without a panic, although grafts lead back into the
  tree, and the node of every route in force has its line, with its number and its methods.\<close>

theorem PrintTree_shows_routes:
  assumes "Build raws = Some (Some t)" and "text_routes raws" and "\<forall>raw \<in> set raws. URL raw \<noteq> []"
    and "sum_list (map (\<lambda>raw. length (URL raw)) raws) \<le> 21760"
  shows "\<exists>lines. PrintTree order t = Some (Lines lines) \<and>
    (\<forall>raw. winner raws (lookup_path raw) = Some raw \<longrightarrow>
      (\<exists>k n i. idx (NodePool t) k = Some n \<and> serves t n raw \<and> (\<exists>line \<in> set lines. sublist (node_info (order i) k n) line)))"
proof -
  obtain roots t0 where fin: "finalize roots t0 = Some t" using Build_parts [OF assms(1,2)] by metis
  from PrintTree_prints [OF fin built_fits [OF assms(1,4)], of order] obtain ls where
    ls: "PrintTree order t = Some (Lines ([''.''] @ ls))" "\<And>k. 0 < k \<Longrightarrow> k < length (NodePool t) \<Longrightarrow> shown order t ls k"
    unfolding prints_def by blast
  have "\<exists>k n i. idx (NodePool t) k = Some n \<and> serves t n raw \<and>
      (\<exists>line \<in> set ([''.''] @ ls). sublist (node_info (order i) k n) line)"
    if "winner raws (lookup_path raw) = Some raw" for raw
  proof -
    from winner_in_pool [OF assms(1-3) that] obtain k where
      k: "k < length (NodePool t)" "Methods (NodePool t ! k) \<noteq> 0" "serves t (NodePool t ! k) raw" by (auto simp: in_set_conv_nth)
    with finalize_first_node [OF fin] have "0 < k" by (cases k) (auto simp: zero_node_def)
    with ls(2) k(1) obtain l i where "l \<in> set ls" "sublist (node_info (order i) k (NodePool t ! k)) l"
      unfolding shown_def by blast
    with k(1,3) show ?thesis by (intro exI [of _ k] exI [of _ "NodePool t ! k"] exI [of _ i]) auto
  qed
  with ls(1) show ?thesis by blast
qed

text \<open>The witness has a graft: a request for \<open>h/x/a/c\<close> falls back from the text to the wildcard.\<close>

definition graft_routes :: "raw_node list" where
  "graft_routes = [get_route ''h/x/*'' ''s'', get_route ''h/x/a/b'' ''u'']"

theorem PrintTree_shows_routes_witness:
  "\<exists>t lines. Build graft_routes = Some (Some t) \<and> PrintTree (\<lambda>_. [''POST'', ''GET'']) t = Some (Lines lines) \<and>
     (\<exists>k n. serves t n (get_route ''h/x/a/b'' ''u'') \<and>
       (\<exists>line \<in> set lines. sublist (node_info [''POST'', ''GET''] k n) line))"
proof -
  have ok: "graft_routes \<noteq> []" "text_routes graft_routes" "\<forall>raw \<in> set graft_routes. URL raw \<noteq> []"
    "sum_list (map (\<lambda>raw. length (URL raw)) graft_routes) \<le> 21760"
    "\<forall>raw \<in> set graft_routes. parseMethods (RawMethods raw) \<noteq> 0"
    "\<forall>raw \<in> set graft_routes. count_wilds (star_bytes (URL raw)) \<le> MaxWildcardsPerRoute"
    unfolding graft_routes_def get_route_def text_routes_def by (simp, code_simp+)
  obtain t where t: "Build graft_routes = Some (Some t)" using Build_exists [OF ok(1,2,5,6)] by blast
  have "winner graft_routes (lookup_path (get_route ''h/x/a/b'' ''u'')) = Some (get_route ''h/x/a/b'' ''u'')"
    by (simp add: winner_def graft_routes_def)
  moreover from PrintTree_shows_routes [OF t ok(2-4), of "\<lambda>_. [''POST'', ''GET'']"] obtain lines where
    "PrintTree (\<lambda>_. [''POST'', ''GET'']) t = Some (Lines lines)" and
    "\<And>raw. winner graft_routes (lookup_path raw) = Some raw \<Longrightarrow> \<exists>k n. serves t n raw \<and>
      (\<exists>line \<in> set lines. sublist (node_info [''POST'', ''GET''] k n) line)" by blast
  ultimately show ?thesis using t by blast
qed

end
