(* ===== verification/Ntuc.thy ===== *)
theory Ntuc
  imports Compiler_Correct Options Print_Tree
begin

text \<open>
  \<open>cmd/ntuc/main.go\<close>: the compiler as a program. Files are a map from paths to contents; which calls of the operating
  system succeed is the record \<open>os\<close>. The gob encoder, \<open>strconv.Quote\<close> and the order in which
  \<open>PrintTree\<close> meets the methods are arguments. An exit with
  \<open>log.Fatalf\<close> runs no deferred call, a panic does.
\<close>

datatype stat = IsFile | IsDirectory | NotExist | StatFails

record os =
  os_stat :: "string \<Rightarrow> stat"
  os_create :: "string \<Rightarrow> bool"
  os_write :: "string \<Rightarrow> bool"
  os_remove :: "string \<Rightarrow> bool"
  os_rename :: "string \<Rightarrow> bool"

type_synonym files = "string \<Rightarrow> string option"

text \<open>\<open>Hangs\<close> is a print that does not end.\<close>

datatype exit = Crashed files | Fatal files | Done string files | Hangs files

text \<open>The lines the compiler prints to the standard output.\<close>

definition warning_text :: "(string \<Rightarrow> string) \<Rightarrow> warning \<Rightarrow> string" where
  "warning_text quote w =
     (case w of
        EmptyQuoted n line \<Rightarrow> ''warning: line '' @ Utoa n @ '': empty quoted field is ignored: '' @ quote line
      | EmptyRuleField n v \<Rightarrow> ''warning: line '' @ Utoa n @ '': empty quoted field in rule: '' @ quote v
      | UnexpectedIndent n line \<Rightarrow>
          ''warning: line '' @ Utoa n @ '': unexpected indent without a preceding rule, skipping: '' @ quote line) @ [CHR 0x0A]"

text \<open>\<open>filepath.Clean\<close>: empty and \<open>.\<close> elements go, \<open>..\<close> takes the element before it, or nothing at the root.\<close>

definition clean_element :: "bool \<Rightarrow> string list \<Rightarrow> string \<Rightarrow> string list" where
  "clean_element rooted before e =
     (if e = [] \<or> e = ''.'' then before
      else if e \<noteq> ''..'' then before @ [e]
      else if before \<noteq> [] \<and> last before \<noteq> ''..'' then butlast before
      else if rooted then before
      else before @ [e])"

definition path_Clean :: "string \<Rightarrow> string" where
  "path_Clean p =
     (let rooted = has_prefix p ''/'';
          q = drop 1 (concat (map ((#) (CHR ''/'')) (foldl (clean_element rooted) [] (split_on (CHR ''/'') p))))
      in if rooted then CHR ''/'' # q else if q = [] then ''.'' else q)"

definition path_Join :: "string \<Rightarrow> string \<Rightarrow> string" where
  "path_Join dir name = (if dir = [] then path_Clean name else path_Clean (dir @ CHR ''/'' # name))"

lemma path_Join_examples:
  "path_Join ''/a/../b/./'' ''n'' = ''/b/n'' \<and> path_Join ''../x//y'' ''n'' = ''../x/y/n'' \<and> path_Join ''.'' ''n'' = ''n'' \<and>
   path_Join ''/'' ''n'' = ''/n''"
  by code_simp

definition output_target :: "os \<Rightarrow> string \<Rightarrow> string option" where
  "output_target os output =
     (case os_stat os output of
        IsDirectory \<Rightarrow> Some (path_Join output ''nautrouds.ntu'')
      | StatFails \<Rightarrow> None
      | _ \<Rightarrow> Some output)"

text \<open>The temporary file is created, written, and renamed after the old output is removed. Encoding a nil tree panics,
  and the deferred call removes the temporary file.\<close>

definition write_output :: "(route_tree \<Rightarrow> string) \<Rightarrow> os \<Rightarrow> string \<Rightarrow> route_tree option \<Rightarrow> string \<Rightarrow> files \<Rightarrow> exit" where
  "write_output encode os output tree text fs =
     (case output_target os output of
        None \<Rightarrow> Fatal fs
      | Some target \<Rightarrow>
          let temp = target @ ''.tmp''
          in if \<not> os_create os temp then Fatal fs
             else case tree of
               None \<Rightarrow> Crashed (fs(temp := None))
             | Some t \<Rightarrow>
                 if \<not> os_write os temp then Fatal (fs(temp \<mapsto> []))
                 else let fs1 = fs(temp \<mapsto> encode t)
                   in if fs target \<noteq> None \<and> \<not> os_remove os target then Fatal fs1
                      else let fs2 = fs1(target := None)
                        in if \<not> os_rename os target then Fatal fs2
                           else Done text (fs2(temp := None, target \<mapsto> encode t)))"

record ntuc_flags =
  nf_output :: string
  nf_check :: bool
  nf_print :: bool

text \<open>\<open>tree.PrintTree()\<close>, where the tree of a source without rules is nil.\<close>

definition print_nilable :: "(nat \<Rightarrow> string list) \<Rightarrow> route_tree option \<Rightarrow> printing option" where
  "print_nilable order tree = (case tree of None \<Rightarrow> Some Crash | Some t \<Rightarrow> PrintTree order t)"

text \<open>The source is what opening and reading gives: \<^const>\<open>None\<close> when it cannot be opened, else its text and whether
  reading fails at the end. Printing or encoding a nil tree panics.\<close>

definition ntuc :: "outside \<Rightarrow> (string \<Rightarrow> string list option) \<Rightarrow> (string \<Rightarrow> string) \<Rightarrow> (nat \<Rightarrow> string list) \<Rightarrow>
    (route_tree \<Rightarrow> string) \<Rightarrow> os \<Rightarrow> ntuc_flags \<Rightarrow> (string \<times> bool) option \<Rightarrow> files \<Rightarrow> exit" where
  "ntuc out split quote order encode os flags source fs =
     (case source of
        None \<Rightarrow> Fatal fs
      | Some (content, broken) \<Rightarrow>
          (case compile_run out split content broken of
             Inl (TokenError n SlicePanic ctx) \<Rightarrow> Crashed fs
           | Inl e \<Rightarrow> Fatal fs
           | Inr c \<Rightarrow>
               (case Build (rawNodes c) of
                  None \<Rightarrow> Crashed fs
                | Some tree \<Rightarrow>
                    let text = concat (map (warning_text quote) (co_warnings c))
                    in (case (if nf_print flags then print_nilable order tree else Some (Lines [])) of
                          None \<Rightarrow> Hangs fs
                        | Some Crash \<Rightarrow> Crashed fs
                        | Some (Lines lines) \<Rightarrow>
                            let text = text @ unlines lines
                            in if nf_check flags then Done text fs
                               else if nf_output flags = ''-'' then
                                 (case tree of None \<Rightarrow> Crashed fs | Some t \<Rightarrow> Done (text @ encode t) fs)
                               else write_output encode os (nf_output flags) tree text fs))))"

subsection \<open>What is written\<close>

lemma write_output_done:
  assumes "write_output encode os output tree text fs = Done text' fs'"
  shows "\<exists>target t. output_target os output = Some target \<and> tree = Some t \<and> text' = text \<and>
    fs' = fs(target @ ''.tmp'' := None, target \<mapsto> encode t)"
  using assms
  by (auto simp: write_output_def Let_def split: option.splits if_splits)

lemma write_output_fatal:
  assumes "write_output encode os output tree text fs = Fatal fs'" and "output_target os output = Some target"
  shows "fs' target = fs target \<or> fs' target = None \<and> \<not> os_rename os target"
  using assms by (auto simp: write_output_def Let_def split: option.splits if_splits)


lemma warning_text_nonempty: "warning_text quote w \<noteq> []"
  by (simp add: warning_text_def)

text \<open>C17. What the core decodes from \<open>ntuc -o -\<close> is the encoded tree exactly when the compiler had no warning: the
  warnings are printed to the standard output too, in front of it.\<close>

theorem warnings_precede_tree:
  assumes "compile_run out split content broken = Inr c" and "Build (rawNodes c) = Some (Some t)"
  shows "\<exists>text. ntuc out split quote order encode os \<lparr>nf_output = ''-'', nf_check = False, nf_print = False\<rparr>
      (Some (content, broken)) fs = Done text fs \<and> (text = encode t \<longleftrightarrow> co_warnings c = []) \<and>
    (co_warnings c \<noteq> [] \<longrightarrow> has_prefix text ''warning: line '')"
proof -
  let ?w = "concat (map (warning_text quote) (co_warnings c))"
  have "?w = [] \<longleftrightarrow> co_warnings c = []" using warning_text_nonempty by auto
  moreover have "has_prefix ?w ''warning: line ''" if "co_warnings c \<noteq> []"
    using that by (cases "co_warnings c") (auto simp: warning_text_def split: warning.split)
  ultimately show ?thesis using assms by (auto simp: ntuc_def has_prefix_iff unlines_def)
qed

text \<open>\<open>ntuc -check -print\<close> on a source with rules prints the warnings, then the tree, and ends.\<close>

lemma check_prints_tree:
  assumes "compile_run out split content broken = Inr c" and "Build (rawNodes c) = Some (Some t)"
    and "text_routes (rawNodes c)" and "sum_list (map (\<lambda>raw. length (URL raw)) (rawNodes c)) \<le> 21760"
  shows "\<exists>lines. PrintTree order t = Some (Lines lines) \<and>
    ntuc out split quote order encode os \<lparr>nf_output = output, nf_check = True, nf_print = True\<rparr> (Some (content, broken)) fs =
      Done (concat (map (warning_text quote) (co_warnings c)) @ unlines lines) fs"
proof -
  obtain roots t0 where "finalize roots t0 = Some t" using Build_parts [OF assms(2,3)] by metis
  from PrintTree_prints [OF this built_fits [OF assms(2,4)], of order] obtain lines where "PrintTree order t = Some (Lines lines)"
    by (auto simp: prints_def)
  with assms(1,2) show ?thesis by (simp add: ntuc_def print_nilable_def)
qed

definition stray_lines :: "string list" where
  "stray_lines = [CHR 0x09 # ''auth'', ''h/x s'']"

definition working_os :: os where
  "working_os = \<lparr>os_stat = \<lambda>_. NotExist, os_create = \<lambda>_. True, os_write = \<lambda>_. True, os_remove = \<lambda>_. True, os_rename = \<lambda>_. True\<rparr>"

theorem warnings_precede_tree_witness:
  "\<exists>text. ntuc no_outside split_words (\<lambda>s. s) (\<lambda>_. []) (\<lambda>_. ''gob'') working_os
      \<lparr>nf_output = ''-'', nf_check = False, nf_print = False\<rparr> (Some (unlines stray_lines, False)) Map.empty = Done text Map.empty \<and>
    text \<noteq> ''gob''"
proof -
  let ?raw = "\<lparr>URL = ''h/x'', Service = ''s'', Middlewares = [], RawMethods = ''*'', RawTags = []\<rparr>"
  have "map_sum id (\<lambda>c. (rawNodes c, co_warnings c)) (compile_run no_outside split_words (unlines stray_lines) False) =
      Inr ([?raw], [UnexpectedIndent 1 (CHR 0x09 # ''auth'')])"
    by (subst compile_unlines) (simp add: stray_lines_def MaxScanTokenSize_def, code_simp)
  then obtain c where c: "compile_run no_outside split_words (unlines stray_lines) False = Inr c" "rawNodes c = [?raw]"
    "co_warnings c = [UnexpectedIndent 1 (CHR 0x09 # ''auth'')]" by (auto simp: map_sum_def split: sum.splits)
  have w: "parseMethods (RawMethods ?raw) \<noteq> 0" "count_wilds (star_bytes (URL ?raw)) \<le> MaxWildcardsPerRoute"
    "list_all is_text (URL ?raw)" by code_simp+
  from Build_exists [of "[?raw]"] w obtain t where "Build (rawNodes c) = Some (Some t)" by (auto simp: text_routes_def c(2))
  from warnings_precede_tree [OF c(1) this, where quote = "\<lambda>s. s" and order = "\<lambda>_. []" and encode = "\<lambda>_. ''gob''" and
    os = working_os and fs = Map.empty] obtain msg where
    "ntuc no_outside split_words (\<lambda>s. s) (\<lambda>_. []) (\<lambda>_. ''gob'') working_os
      \<lparr>nf_output = ''-'', nf_check = False, nf_print = False\<rparr> (Some (unlines stray_lines, False)) Map.empty = Done msg Map.empty"
    "msg = ''gob'' \<longleftrightarrow> co_warnings c = []" by (elim exE conjE)
  then show ?thesis using c(3) by (intro exI [of _ msg]) simp
qed


end
