(* ===== verification/Entry_Points.thy ===== *)
theory Entry_Points
  imports Options
begin

text \<open>
  The sockets of the cores that share a directory of entry points: \<open>createEntrypoints\<close>, \<open>cleanLegacySockets\<close> and the exit hook of
  \<open>cmd/core/main.go\<close>, and \<open>StartUDSListener\<close> of \<open>internal/core/proxy/proxy.go\<close>. Every call on the file system is a step of its
  own, and any interleaving of the steps of any number of cores is a run. A core holds the file lock from the start of
  \<open>run\<close> until \<open>run\<close> returns; its listeners are goroutines that go on after that. Closing a listener unlinks its path,
  whoever made the file that is there (the default of package \<open>net\<close>).
\<close>

subsection \<open>Invariants under interference\<close>

inductive interleaved :: "('c \<Rightarrow> 's \<Rightarrow> 's \<Rightarrow> bool) \<Rightarrow> ('s \<Rightarrow> bool) \<Rightarrow> 's \<Rightarrow> 's \<Rightarrow> bool" for step ok s where
  stay: "interleaved step ok s s"
| move: "interleaved step ok s s' \<Longrightarrow> ok s' \<Longrightarrow> step c s' s'' \<Longrightarrow> interleaved step ok s s''"

text \<open>What a component guarantees to the others keeps their invariants.\<close>

locale rely_guarantee =
  fixes step :: "'c \<Rightarrow> 's \<Rightarrow> 's \<Rightarrow> bool" and ok :: "'s \<Rightarrow> bool" and inv :: "'c \<Rightarrow> 's \<Rightarrow> bool" and guar :: "'c \<Rightarrow> 's \<Rightarrow> 's \<Rightarrow> bool"
  assumes own: "step c s s' \<Longrightarrow> inv c s \<Longrightarrow> inv c s' \<and> guar c s s'"
    and stable: "guar d s s' \<Longrightarrow> c \<noteq> d \<Longrightarrow> ok s \<Longrightarrow> inv c s \<Longrightarrow> inv c s'"
begin

lemma always:
  assumes "interleaved step ok s s'" and "\<And>c. inv c s"
  shows "inv c s'"
  using assms(1)
proof (induction arbitrary: c rule: interleaved.induct)
  case (move s' d s'')
  then show ?case using own stable by (cases "c = d") blast+
qed (rule assms(2))

end

subsection \<open>Cores and their listeners\<close>

datatype dir_file = Directory | Plain | Socket nat

text \<open>\<open>Fresh\<close>: the goroutine of the listener has not done anything; \<open>Ready\<close>: a file that was there is removed.\<close>

datatype listener = Absent | Fresh | Ready | Open | Stopped

datatype phase = New | Starting | Cleaning "dir_entry list" | Picking nat nat | Up | Down "string list" | Ended

record entry_core =
  phase :: phase
  socketPathMap :: "string list"
  listeners :: "string \<Rightarrow> listener"

record entry_world =
  files :: "string \<Rightarrow> dir_file option"
  lock :: "nat option"
  cores :: "nat \<Rightarrow> entry_core"

definition new_core :: entry_core where
  "new_core = \<lparr>phase = New, socketPathMap = [], listeners = (\<lambda>_. Absent)\<rparr>"

definition new_world :: "(string \<Rightarrow> dir_file option) \<Rightarrow> entry_world" where
  "new_world fs = \<lparr>files = fs, lock = None, cores = (\<lambda>_. new_core)\<rparr>"

text \<open>\<open>run\<close> has not returned.\<close>

fun in_run :: "phase \<Rightarrow> bool" where
  "in_run Starting = True"
| "in_run (Cleaning _) = True"
| "in_run (Picking _ _) = True"
| "in_run _ = False"

definition set_core :: "nat \<Rightarrow> entry_core \<Rightarrow> entry_world \<Rightarrow> entry_world" where
  "set_core c k s = s\<lparr>cores := (cores s)(c := k)\<rparr>"

definition set_listener :: "string \<Rightarrow> listener \<Rightarrow> entry_core \<Rightarrow> entry_core" where
  "set_listener n l k = k\<lparr>listeners := (listeners k)(n := l)\<rparr>"

definition over :: "entry_core \<Rightarrow> entry_core" where
  "over k = k\<lparr>phase := Ended, listeners := (\<lambda>_. Absent)\<rparr>"

abbreviation core_namer :: "options \<Rightarrow> socketNamer" where
  "core_namer o' \<equiv> newSocketNamer (InstanceID o')"

text \<open>The goroutine that runs \<open>StartUDSListener\<close> for the name \<open>n\<close> of the core \<open>c\<close>, whose state is \<open>k\<close>. In \<open>bind\<close> the listener may be open
  and \<open>os.Chmod\<close> fail; \<open>close\<close> is the end of \<open>Serve\<close>, when the context is cancelled or because of an error.\<close>

inductive listener_step :: "nat \<Rightarrow> entry_world \<Rightarrow> entry_world \<Rightarrow> bool" for c where
  make_room: "k = cores s c \<Longrightarrow> listeners k n = Fresh \<Longrightarrow> files s n \<noteq> None \<Longrightarrow>
    listener_step c s (set_core c (set_listener n Ready k) (s\<lparr>files := (files s)(n := None)\<rparr>))"
| free: "k = cores s c \<Longrightarrow> listeners k n = Fresh \<Longrightarrow> files s n = None \<Longrightarrow>
    listener_step c s (set_core c (set_listener n Ready k) s)"
| bind: "k = cores s c \<Longrightarrow> listeners k n = Ready \<Longrightarrow> files s n = None \<Longrightarrow> l \<in> {Open, Stopped} \<Longrightarrow>
    listener_step c s (set_core c (set_listener n l k) (s\<lparr>files := (files s)(n \<mapsto> Socket c)\<rparr>))"
| give_up: "k = cores s c \<Longrightarrow> listeners k n \<in> {Fresh, Ready} \<Longrightarrow> listener_step c s (set_core c (set_listener n Stopped k) s)"
| close: "k = cores s c \<Longrightarrow> listeners k n = Open \<Longrightarrow>
    listener_step c s (set_core c (set_listener n Stopped k) (s\<lparr>files := (files s)(n := None)\<rparr>))"

text \<open>One step of a core: of its start, of a listener, of its exit. In \<open>hook\<close> the removal may fail; \<open>stop\<close> is the end of the
  process, at any time.\<close>

inductive entry_step :: "(nat \<Rightarrow> options) \<Rightarrow> nat \<Rightarrow> entry_world \<Rightarrow> entry_world \<Rightarrow> bool" for opts c where
  lock: "k = cores s c \<Longrightarrow> phase k = New \<Longrightarrow> lock s = None \<Longrightarrow>
    entry_step opts c s (set_core c (k\<lparr>phase := Starting\<rparr>) (s\<lparr>lock := Some c\<rparr>))"
| read_dir: "k = cores s c \<Longrightarrow> phase k = Starting \<Longrightarrow>
    set listing = {(n, f = Directory) | n f. files s n = Some f} \<Longrightarrow>
    entry_step opts c s (set_core c (k\<lparr>phase := Cleaning listing\<rparr>) s)"
| skip: "k = cores s c \<Longrightarrow> phase k = Cleaning ((n, d) # todo) \<Longrightarrow> d \<or> \<not> Owns (core_namer (opts c)) n \<Longrightarrow>
    entry_step opts c s (set_core c (k\<lparr>phase := Cleaning todo\<rparr>) s)"
| clean: "k = cores s c \<Longrightarrow> phase k = Cleaning ((n, False) # todo) \<Longrightarrow> Owns (core_namer (opts c)) n \<Longrightarrow> files s n \<noteq> None \<Longrightarrow>
    entry_step opts c s (set_core c (k\<lparr>phase := Cleaning todo\<rparr>) (s\<lparr>files := (files s)(n := None)\<rparr>))"
| cleaned: "k = cores s c \<Longrightarrow> phase k = Cleaning [] \<Longrightarrow>
    entry_step opts c s (set_core c (k\<lparr>phase := Picking 0 0\<rparr>) s)"
| taken: "k = cores s c \<Longrightarrow> phase k = Picking i off \<Longrightarrow> int i < EntrypointCount (opts c) \<Longrightarrow>
    files s (Format_name (core_namer (opts c)) (i + off)) \<noteq> None \<Longrightarrow>
    entry_step opts c s (set_core c (k\<lparr>phase := Picking i (off + 1)\<rparr>) s)"
| pick: "k = cores s c \<Longrightarrow> phase k = Picking i off \<Longrightarrow> int i < EntrypointCount (opts c) \<Longrightarrow>
    n = Format_name (core_namer (opts c)) (i + off) \<Longrightarrow> files s n = None \<Longrightarrow>
    entry_step opts c s (set_core c (k\<lparr>phase := Picking (i + 1) off, socketPathMap := socketPathMap k @ [n]\<rparr>) s)"
| launch: "k = cores s c \<Longrightarrow> phase k = Picking i off \<Longrightarrow> EntrypointCount (opts c) \<le> int i \<Longrightarrow>
    entry_step opts c s (set_core c (k\<lparr>phase := Up,
      listeners := (\<lambda>n. if n \<in> set (socketPathMap k) then Fresh else Absent)\<rparr>) s)"
| unlock: "k = cores s c \<Longrightarrow> \<not> in_run (phase k) \<Longrightarrow> lock s = Some c \<Longrightarrow> entry_step opts c s (s\<lparr>lock := None\<rparr>)"
| fail: "k = cores s c \<Longrightarrow> phase k = Starting \<or> (\<exists>todo. phase k = Cleaning todo) \<Longrightarrow> entry_step opts c s (set_core c (over k) s)"
| listening: "listener_step c s s' \<Longrightarrow> entry_step opts c s s'"
| exit: "k = cores s c \<Longrightarrow> phase k = Up \<Longrightarrow> set todo = set (socketPathMap k) \<Longrightarrow> distinct todo \<Longrightarrow>
    entry_step opts c s (set_core c (k\<lparr>phase := Down todo\<rparr>) s)"
| hook: "k = cores s c \<Longrightarrow> phase k = Down (n # todo) \<Longrightarrow> f \<in> {None, files s n} \<Longrightarrow>
    entry_step opts c s (set_core c (k\<lparr>phase := Down todo\<rparr>) (s\<lparr>files := (files s)(n := f)\<rparr>))"
| stop: "k = cores s c \<Longrightarrow> phase k \<noteq> New \<Longrightarrow> entry_step opts c s (set_core c (over k) s)"

subsection \<open>Cores with different instance ids\<close>

definition active :: "entry_core \<Rightarrow> bool" where
  "active k \<longleftrightarrow> phase k \<noteq> New \<and> phase k \<noteq> Ended"

definition one_per_id :: "(nat \<Rightarrow> options) \<Rightarrow> entry_world \<Rightarrow> bool" where
  "one_per_id opts s \<longleftrightarrow> (\<forall>c d. c \<noteq> d \<longrightarrow> InstanceID (opts c) = InstanceID (opts d) \<longrightarrow> \<not> (active (cores s c) \<and> active (cores s d)))"

text \<open>A listener that is to be served: open, and its core has not begun to close it.\<close>

definition serving :: "entry_core \<Rightarrow> string \<Rightarrow> bool" where
  "serving k n \<longleftrightarrow> listeners k n = Open \<and> (phase k = Up \<or> (\<exists>todo. phase k = Down todo \<and> n \<in> set todo))"

definition core_inv :: "(nat \<Rightarrow> options) \<Rightarrow> nat \<Rightarrow> entry_world \<Rightarrow> bool" where
  "core_inv opts c s \<longleftrightarrow>
     (\<forall>n \<in> set (socketPathMap (cores s c)). \<exists>i. n = Format_name (core_namer (opts c)) i) \<and>
     (\<forall>n. listeners (cores s c) n \<noteq> Absent \<longrightarrow> n \<in> set (socketPathMap (cores s c)) \<and>
       (phase (cores s c) = Up \<or> (\<exists>todo. phase (cores s c) = Down todo))) \<and>
     (\<forall>todo. phase (cores s c) = Down todo \<longrightarrow> distinct todo \<and> set todo \<subseteq> set (socketPathMap (cores s c))) \<and>
     (\<forall>n. serving (cores s c) n \<longrightarrow> files s n = Some (Socket c)) \<and>
     (\<forall>n. listeners (cores s c) n = Ready \<longrightarrow> files s n = None)"

definition entry_guar :: "(nat \<Rightarrow> options) \<Rightarrow> nat \<Rightarrow> entry_world \<Rightarrow> entry_world \<Rightarrow> bool" where
  "entry_guar opts d s s' \<longleftrightarrow> (\<forall>c. c \<noteq> d \<longrightarrow> cores s' c = cores s c) \<and>
     (\<forall>n. files s' n \<noteq> files s n \<longrightarrow> active (cores s d) \<and> Owns (core_namer (opts d)) n)"


lemmas entry_simps = set_core_def set_listener_def over_def

lemmas core_inv_simps = core_inv_def entry_guar_def entry_simps serving_def

lemma listener_owned:
  assumes "core_inv opts c s" and "listeners (cores s c) n \<noteq> Absent"
  shows "active (cores s c)" and "Owns (core_namer (opts c)) n" and "n \<in> set (socketPathMap (cores s c))"
    and "phase (cores s c) = Up \<or> (\<exists>todo. phase (cores s c) = Down todo)" and "\<exists>i. n = Format_name (core_namer (opts c)) i"
proof -
  show n: "n \<in> set (socketPathMap (cores s c))" and ph: "phase (cores s c) = Up \<or> (\<exists>todo. phase (cores s c) = Down todo)"
    using assms by (simp_all add: core_inv_def)
  show "\<exists>i. n = Format_name (core_namer (opts c)) i" using n assms(1) by (simp add: core_inv_def)
  then show "Owns (core_namer (opts c)) n" using Format_owned by blast
  show "active (cores s c)" using ph by (auto simp: active_def)
qed

lemma listener_own:
  assumes "listener_step c s s'" and "core_inv opts c s"
  shows "core_inv opts c s' \<and> entry_guar opts c s s'"
  using assms
proof (induction rule: listener_step.induct)
  case (make_room k s n)
  then have "listeners (cores s c) n \<noteq> Absent" by simp
  with listener_owned [OF make_room.prems this] make_room show ?case by (auto simp: core_inv_simps)
next
  case (free k s n)
  then have "listeners (cores s c) n \<noteq> Absent" by simp
  with listener_owned [OF free.prems this] free show ?case by (auto simp: core_inv_simps)
next
  case (bind k s n l)
  then have "listeners (cores s c) n \<noteq> Absent" by simp
  with listener_owned [OF bind.prems this] bind show ?case by (auto simp: core_inv_simps)
next
  case (give_up k s n)
  then have "listeners (cores s c) n \<noteq> Absent" by auto
  with listener_owned [OF give_up.prems this] give_up show ?case by (auto simp: core_inv_simps)
next
  case (close k s n)
  then have "listeners (cores s c) n \<noteq> Absent" by simp
  with listener_owned [OF close.prems this] close show ?case by (auto simp: core_inv_simps)
qed

lemma entry_own:
  assumes "entry_step opts c s s'" and "core_inv opts c s"
  shows "core_inv opts c s' \<and> entry_guar opts c s s'"
  using assms
proof (induction rule: entry_step.induct)
  case (clean k s n todo)
  then show ?case by (auto simp: core_inv_simps active_def)
next
  case (hook k s n todo f)
  then have "active (cores s c)" "Owns (core_namer (opts c)) n" using Format_owned by (force simp: core_inv_def active_def)+
  with hook show ?case by (auto simp: core_inv_simps)
next
  case (listening s s')
  then show ?case by (rule listener_own)
qed (auto simp: core_inv_simps)

lemma entry_stable:
  assumes "entry_guar opts d s s'" and "c \<noteq> d" and "one_per_id opts s" and "core_inv opts c s"
  shows "core_inv opts c s'"
proof -
  have same: "cores s' c = cores s c" using assms(1,2) by (simp add: entry_guar_def)
  have "files s' n = files s n" if "listeners (cores s c) n \<noteq> Absent" for n
  proof (rule ccontr)
    assume "files s' n \<noteq> files s n"
    then have d: "active (cores s d)" "Owns (core_namer (opts d)) n" using assms(1) by (simp_all add: entry_guar_def)
    from listener_owned(5) [OF assms(4) that] obtain i where "n = Format_name (core_namer (opts c)) i" ..
    with d(2) have "InstanceID (opts d) = InstanceID (opts c)" by (simp add: Owns_Format)
    with d(1) listener_owned(1) [OF assms(4) that] assms(2,3) show False by (metis one_per_id_def)
  qed
  then show ?thesis using assms(4) unfolding core_inv_def same serving_def by force
qed

interpretation rg: rely_guarantee "entry_step opts" "one_per_id opts" "core_inv opts" "entry_guar opts" for opts
  using entry_own entry_stable by unfold_locales blast+

lemma new_world_inv: "core_inv opts c (new_world fs)"
  by (simp add: core_inv_def new_world_def new_core_def serving_def)

text \<open>C9. As long as no two running cores have the same instance id, whatever the cores do in whatever order: the file of
  every open listener stays the socket of its core until that core begins to exit, and a listener that has made
  room for its socket finds its name free.\<close>

theorem listeners_keep_their_sockets:
  assumes "interleaved (entry_step opts) (one_per_id opts) (new_world fs) s"
  shows "(serving (cores s c) n \<longrightarrow> files s n = Some (Socket c)) \<and> (listeners (cores s c) n = Ready \<longrightarrow> files s n = None)"
  using rg.always [OF assms new_world_inv, of c] by (simp_all add: core_inv_def)


subsection \<open>Two cores with the same id\<close>

text \<open>A core with one entry point comes up in a directory that holds at most a socket of its name.\<close>

definition up_core :: "string \<Rightarrow> entry_core" where
  "up_core n = \<lparr>phase = Up, socketPathMap = [n], listeners = (\<lambda>_. Absent)(n := Open)\<rparr>"

lemma core_comes_up:
  assumes "interleaved (entry_step opts) ok s0 \<lparr>files = fs, lock = None, cores = ks\<rparr>"
    and ok: "\<And>f l k. ok \<lparr>files = f, lock = l, cores = ks(c := k)\<rparr>" and "ks c = new_core" and "EntrypointCount (opts c) = 1"
    and n: "n = Format_name (core_namer (opts c)) 0" and "fs \<in> {Map.empty, [n \<mapsto> Socket b]}"
  shows "interleaved (entry_step opts) ok s0 \<lparr>files = [n \<mapsto> Socket c], lock = None, cores = ks(c := up_core n)\<rparr>"
proof -
  let ?r = "interleaved (entry_step opts) ok s0"
  define w where "w ph m ls f l = \<lparr>files = f, lock = l, cores = ks(c := \<lparr>phase = ph, socketPathMap = m, listeners = ls\<rparr>)\<rparr>"
    for ph m ls f l
  have one_step: "?r s'" if "?r s" "entry_step opts c s s'" "ok s" for s s' by (rule interleaved.move [OF that(1,3,2)])
  have w_ok: "ok (w ph m ls f l)" for ph m ls f l by (simp add: w_def ok)
  let ?none = "\<lambda>_. Absent"
  have owns: "Owns (core_namer (opts c)) n" unfolding n by (rule Format_owned)
  have fresh: "(\<lambda>m. if m = n then Fresh else Absent) = ?none(n := Fresh)" by (simp add: fun_eq_iff)
  have "ks(c := \<lparr>phase = New, socketPathMap = [], listeners = ?none\<rparr>) = ks" using assms(3) by (auto simp: new_core_def)
  then have "?r (w New [] ?none fs None)" using assms(1) by (simp add: w_def)
  then have r1: "?r (w Starting [] ?none fs (Some c))"
    by (rule one_step [OF _ _ w_ok]) (use entry_step.lock [of _ "w New [] ?none fs None" c opts] in \<open>simp add: w_def set_core_def\<close>)
  have r2: "?r (w (Cleaning []) [] ?none Map.empty (Some c))"
  proof (cases "fs = Map.empty")
    case True
    show ?thesis
      by (rule one_step [OF r1 _ w_ok]) (use entry_step.read_dir [of _ "w Starting [] ?none fs (Some c)" c "[]" opts] True in
        \<open>simp add: w_def set_core_def\<close>)
  next
    case False
    with assms(6) have fs: "fs = [n \<mapsto> Socket b]" by simp
    have listing: "{(n, False)} = {(m, f = Directory) | m f. fs m = Some f}" unfolding fs by (auto split: if_splits)
    have "?r (w (Cleaning [(n, False)]) [] ?none fs (Some c))"
      by (rule one_step [OF r1 _ w_ok]) (use entry_step.read_dir [of _ "w Starting [] ?none fs (Some c)" c "[(n, False)]" opts] listing in
        \<open>simp add: w_def set_core_def\<close>)
    then show ?thesis
      by (rule one_step [OF _ _ w_ok]) (use entry_step.clean [of _ "w (Cleaning [(n, False)]) [] ?none fs (Some c)" c n "[]" opts] fs owns in
        \<open>simp add: w_def set_core_def\<close>)
  qed
  then have "?r (w (Picking 0 0) [] ?none Map.empty (Some c))"
    by (rule one_step [OF _ _ w_ok]) (use entry_step.cleaned [of _ "w (Cleaning []) [] ?none Map.empty (Some c)" c opts] in
      \<open>simp add: w_def set_core_def\<close>)
  then have "?r (w (Picking 1 0) [n] ?none Map.empty (Some c))"
    by (rule one_step [OF _ _ w_ok]) (use entry_step.pick [of _ "w (Picking 0 0) [] ?none Map.empty (Some c)" c 0 0 opts n] assms(4) n in
      \<open>simp add: w_def set_core_def\<close>)
  then have "?r (w Up [n] (?none(n := Fresh)) Map.empty (Some c))"
    by (rule one_step [OF _ _ w_ok]) (use entry_step.launch [of _ "w (Picking 1 0) [n] ?none Map.empty (Some c)" c 1 0 opts] assms(4) fresh in
      \<open>simp add: w_def set_core_def\<close>)
  then have "?r (w Up [n] (?none(n := Fresh)) Map.empty None)"
    by (rule one_step [OF _ _ w_ok]) (use entry_step.unlock [of _ "w Up [n] (?none(n := Fresh)) Map.empty (Some c)" c opts] in
      \<open>simp add: w_def set_core_def\<close>)
  then have "?r (w Up [n] (?none(n := Ready)) Map.empty None)"
    by (rule one_step [OF _ _ w_ok]) (use entry_step.listening [OF listener_step.free, of _ "w Up [n] (?none(n := Fresh)) Map.empty None" c n opts] in
      \<open>simp add: w_def set_core_def set_listener_def\<close>)
  then have "?r (w Up [n] (?none(n := Open)) [n \<mapsto> Socket c] None)"
    by (rule one_step [OF _ _ w_ok]) (use entry_step.listening [OF listener_step.bind, of _ "w Up [n] (?none(n := Ready)) Map.empty None" c n Open opts] in
      \<open>simp add: w_def set_core_def set_listener_def\<close>)
  then show ?thesis by (simp add: w_def up_core_def)
qed



theorem listeners_keep_their_sockets_witness:
  "\<exists>opts s n. interleaved (entry_step opts) (one_per_id opts) (new_world Map.empty) s \<and>
     serving (cores s 0) n \<and> files s n = Some (Socket 0)"
proof -
  obtain o1 :: options where o: "EntrypointCount o1 = 1" using default_options_load by blast
  let ?opts = "\<lambda>_ :: nat. o1" and ?n = "Format_name (core_namer o1) 0"
  have ok: "one_per_id ?opts \<lparr>files = f, lock = l, cores = (\<lambda>_. new_core)(0 := k)\<rparr>" for f l k
    by (simp add: one_per_id_def active_def new_core_def)
  have "interleaved (entry_step ?opts) (one_per_id ?opts) (new_world Map.empty) \<lparr>files = Map.empty, lock = None, cores = \<lambda>_. new_core\<rparr>"
    by (simp add: new_world_def interleaved.stay)
  from core_comes_up [OF this ok, where n = ?n] o have r: "interleaved (entry_step ?opts) (one_per_id ?opts) (new_world Map.empty)
      \<lparr>files = [?n \<mapsto> Socket 0], lock = None, cores = (\<lambda>_. new_core)(0 := up_core ?n)\<rparr>" by simp
  have "serving (up_core ?n) ?n" by (simp add: serving_def up_core_def)
  with listeners_keep_their_sockets [OF r, of 0 ?n] r show ?thesis by (intro exI conjI) (assumption, simp_all)
qed


end
