(* ===== verification/Core_Main.thy ===== *)
theory Core_Main
  imports Config_Watcher Scanner Transport Ntuc Entry_Points
begin

text \<open>
  \<open>run\<close> of \<open>cmd/core/main.go\<close>: the parts of the core are built and started one after the other, and the first error ends
  the start. What the system says is the record \<open>world\<close>; the goroutines the start leaves running are modelled in the
  theories of their parts, the sockets of the entry points and their exit hook in \<open>Entry_Points\<close>.
\<close>

text \<open>\<open>abs_path\<close> is \<open>filepath.Abs\<close>; \<open>w_entries\<close> is what \<open>os.ReadDir\<close> finds in the directory of the entry points.\<close>

record world =
  w_locked :: bool
  w_hub :: bool
  w_config_events :: bool
  w_node_events :: bool
  w_collector :: bool
  w_watch_config :: bool
  w_watch_nodes :: bool
  w_abs :: "string \<Rightarrow> string option"
  w_walk :: "string \<Rightarrow> walk option"
  w_handlers :: "handler list"
  w_found :: found
  w_entries :: "dir_entry list option"
  w_unremovable :: "string \<Rightarrow> bool"

datatype start_error = LockError | HubError | ConfigWatcherError | LoadError | NodeWatcherError | CollectorError |
  ConfigStartError | NodeStartError | EntrypointError

record 'm core =
  c_generation :: "'m generation"
  c_registry :: registry
  c_hub :: hub
  c_transport :: dual_transport
  c_collector :: "string option"
  c_sockets :: "string list"

definition collectorPath :: "options \<Rightarrow> string option" where
  "collectorPath opts =
     (if MetricsPath opts = ''-'' then None
      else Some (path_Join (ServicesDir opts) (if MetricsPath opts \<noteq> [] then MetricsPath opts else ''metrics.sock'')))"

text \<open>\<open>nodescan.New\<close>: the base directory of the scans.\<close>

definition scan_base :: "(string \<Rightarrow> string option) \<Rightarrow> options \<Rightarrow> string option" where
  "scan_base abs_path opts = map_option (trim_right (\<lambda>c. c = CHR ''/'')) (abs_path (ServicesDir opts))"

text \<open>\<open>Watcher.Start\<close>: the directories are watched, then everything is scanned.\<close>

definition start_watcher :: "world \<Rightarrow> string \<Rightarrow> (bool \<times> scan_state) option" where
  "start_watcher wo baseDir =
     (if \<not> w_watch_nodes wo then Some (False, NewRegistry, NewHub)
      else Scan baseDir (w_handlers wo) (w_walk wo) [] (NewRegistry, NewHub))"

definition start_entrypoints :: "options \<Rightarrow> world \<Rightarrow> string list option" where
  "start_entrypoints opts wo = Option.bind (w_entries wo) (createEntrypoints opts (w_unremovable wo))"

definition run :: "outside \<Rightarrow> (request \<Rightarrow> string list) \<Rightarrow> (string \<Rightarrow> string list option) \<Rightarrow> (string \<Rightarrow> route_tree option) \<Rightarrow>
    options \<Rightarrow> world \<Rightarrow> (start_error + 'm core) option" where
  "run out names split decode opts wo =
     (if \<not> w_locked wo then Some (Inl LockError)
      else if \<not> w_hub wo then Some (Inl HubError)
      else if \<not> w_config_events wo then Some (Inl ConfigWatcherError)
      else case LoadInitial out names split decode (NewConfigWatcher (w_abs wo) (ConfigPath opts) (DefaultWelcome opts)) (w_found wo) of
        None \<Rightarrow> None
      | Some None \<Rightarrow> Some (Inl LoadError)
      | Some (Some g) \<Rightarrow>
          (case scan_base (w_abs wo) opts of
             None \<Rightarrow> Some (Inl NodeWatcherError)
           | Some baseDir \<Rightarrow>
               if \<not> w_node_events wo then Some (Inl NodeWatcherError)
               else if collectorPath opts \<noteq> None \<and> \<not> w_collector wo then Some (Inl CollectorError)
               else if \<not> w_watch_config wo then Some (Inl ConfigStartError)
               else case start_watcher wo baseDir of
                 None \<Rightarrow> None
               | Some (False, s) \<Rightarrow> Some (Inl NodeStartError)
               | Some (True, reg, hub) \<Rightarrow>
                   (case start_entrypoints opts wo of
                      None \<Rightarrow> Some (Inl EntrypointError)
                    | Some sockets \<Rightarrow>
                        Some (Inr \<lparr>c_generation = g, c_registry = reg, c_hub = hub, c_transport = New_transport (node_options opts),
                          c_collector = collectorPath opts, c_sockets = sockets\<rparr>))))"

subsection \<open>What a start has done\<close>

lemma run_started:
  assumes "run out names split decode opts wo = Some (Inr core)"
  shows "\<exists>baseDir. scan_base (w_abs wo) opts = Some baseDir \<and>
    LoadInitial out names split decode (NewConfigWatcher (w_abs wo) (ConfigPath opts) (DefaultWelcome opts)) (w_found wo) =
      Some (Some (c_generation core)) \<and>
    scanAll baseDir (w_handlers wo) (w_walk wo baseDir) (NewRegistry, NewHub) = Some (True, c_registry core, c_hub core) \<and>
    start_entrypoints opts wo = Some (c_sockets core)"
  using assms
  by (auto simp: run_def start_watcher_def Scan_def split: if_splits option.splits bool.splits)

lemma scanned:
  assumes "\<forall>h \<in> set hs. handler_legal dial h" and "scanAll baseDir hs entries (NewRegistry, NewHub) = Some (True, r, k)"
    and "Sockets stat visit \<in> set hs" and "Hub dial \<in> set hs"
  shows "\<exists>es. entries = Some es \<and> dom (nodeMap r) = set (sockets_below baseDir sock_ext es) \<and> sick r = {} \<and>
    (\<forall>p \<in> hub_nodes baseDir es. can_dial dial baseDir es p)"
proof -
  obtain es where es: "entries = Some es" using assms(2) by (cases entries) (auto simp: scanAll_def)
  have inv: "scan_inv baseDir (NewRegistry, NewHub)" using NewRegistry_inv(1) by (simp add: scan_inv_def NewRegistry_def)
  from scan_fails_iff [OF assms(1) inv, of es] assms(2,4) have "\<forall>p \<in> hub_nodes baseDir es. can_dial dial baseDir es p"
    by (auto simp: es NewHub_def)
  moreover from scan_result [OF assms(1) inv, of es] assms(2)
  have "scan_view (r, k) = fold (scan_effect baseDir es) hs (scan_view (NewRegistry, NewHub))" by (auto simp: es)
  from arg_cong [OF this, of fst] effect_registered [of baseDir es hs "scan_view (NewRegistry, NewHub)"] assms(3)
  have "reg_abs r = full_spec (set (sockets_below baseDir sock_ext es)) (reg_abs NewRegistry)" by (auto simp: scan_view_def)
  then have "dom (nodeMap r) = set (sockets_below baseDir sock_ext es)" "sick r = {}"
    using NewRegistry_inv(2) by (auto simp: reg_abs_def full_spec_def)
  ultimately show ?thesis using es by blast
qed

text \<open>C7. When the start succeeds, the table is the one \<open>LoadInitial\<close> decides for, and every service is balanced over exactly the
  sockets the services directory held for it.\<close>

theorem started_core_serves_sockets:
  assumes "run out names split decode opts wo = Some (Inr core)" and "\<forall>h \<in> set (w_handlers wo). handler_legal dial h"
    and "Sockets stat visit \<in> set (w_handlers wo)" and "Hub dial \<in> set (w_handlers wo)" and "\<forall>n > 0. rand1 n < n \<and> rand2 n < n"
  shows "\<exists>baseDir es. scan_base (w_abs wo) opts = Some baseDir \<and> w_walk wo baseDir = Some es \<and>
    LoadInitial out names split decode (NewConfigWatcher (w_abs wo) (ConfigPath opts) (DefaultWelcome opts)) (w_found wo) =
      Some (Some (c_generation core)) \<and>
    (\<exists>fs t. GetForwarders load (rand1 (NodeCount svc (c_registry core))) (rand2 (NodeCount svc (c_registry core) - 1)) svc (c_registry core) =
        Some (fs, t) \<and>
      SocketPath ` set fs = {p \<in> set (sockets_below baseDir sock_ext es). service_of baseDir p = svc})"
proof -
  from run_started [OF assms(1)] obtain baseDir where
    b: "scan_base (w_abs wo) opts = Some baseDir"
      "LoadInitial out names split decode (NewConfigWatcher (w_abs wo) (ConfigPath opts) (DefaultWelcome opts)) (w_found wo) =
        Some (Some (c_generation core))"
      "scanAll baseDir (w_handlers wo) (w_walk wo baseDir) (NewRegistry, NewHub) = Some (True, c_registry core, c_hub core)" by blast
  from scanned [OF assms(2) b(3) assms(3,4)] obtain es where
    es: "w_walk wo baseDir = Some es" "dom (nodeMap (c_registry core)) = set (sockets_below baseDir sock_ext es)" "sick (c_registry core) = {}"
    by blast
  have "scan_inv baseDir (NewRegistry, NewHub)" using NewRegistry_inv(1) by (simp add: scan_inv_def NewRegistry_def)
  from scan_result [OF assms(2) this, of es] b(3) es(1) have inv: "reg_inv (service_of baseDir) (c_registry core)"
    by (auto simp: scan_inv_def)
  have path: "SocketPath ` newForwarder svc ` X = X" for X by (auto simp: newForwarder_def image_iff)
  have "spec_nodes (service_of baseDir) svc (reg_abs (c_registry core)) =
      {p \<in> set (sockets_below baseDir sock_ext es). service_of baseDir p = svc}"
    using es(2,3) by (simp add: spec_nodes_def reg_abs_def)
  with Get_inv [OF inv assms(5), of load svc] path b es(1) show ?thesis by metis
qed

text \<open>C8. One \<open>.mmfg\<close> socket that cannot be dialed, such as one a crashed program left behind, keeps the whole core from
  starting, although the same error in a later scan is only logged.\<close>

theorem stale_hub_node_blocks_start:
  assumes "\<forall>h \<in> set (w_handlers wo). handler_legal dial h" and "Hub dial \<in> set (w_handlers wo)"
    and "scan_base (w_abs wo) opts = Some baseDir" and "w_walk wo baseDir = Some es"
    and "p \<in> hub_nodes baseDir es" and "\<not> can_dial dial baseDir es p"
  shows "run out names split decode opts wo \<noteq> Some (Inr core)"
proof
  assume "run out names split decode opts wo = Some (Inr core)"
  from run_started [OF this] assms(3,4)
  have ok: "scanAll baseDir (w_handlers wo) (Some es) (NewRegistry, NewHub) = Some (True, c_registry core, c_hub core)" by auto
  have "scan_inv baseDir (NewRegistry, NewHub)" using NewRegistry_inv(1) by (simp add: scan_inv_def NewRegistry_def)
  from scan_fails_iff [OF assms(1) this, of es] ok assms(2,5,6) show False by (auto simp: NewHub_def)
qed

text \<open>A start without a config file in a system where every call succeeds.\<close>

definition quiet_world :: "walk \<Rightarrow> world" where
  "quiet_world es = \<lparr>w_locked = True, w_hub = True, w_config_events = True, w_node_events = True, w_collector = True,
     w_watch_config = True, w_watch_nodes = True, w_abs = Some, w_walk = (\<lambda>_. Some es),
     w_handlers = core_handlers no_stat sorted_keys (\<lambda>_. []) (\<lambda>_ _ _. False),
     w_found = \<lparr>fo_missing = True, fo_stdin = None, fo_file = None, fo_ntuc = StartError\<rparr>,
     w_entries = Some [], w_unremovable = (\<lambda>_. False)\<rparr>"

definition one_socket :: walk where
  "one_socket = [(''/var/run/nautrouds/services/s'', True), (''/var/run/nautrouds/services/s/a.sock'', False)]"

definition one_mmfg :: walk where
  "one_mmfg = [(''/var/run/nautrouds/services/s'', True), (''/var/run/nautrouds/services/s/a.mmfg'', False)]"

lemma default_base:
  assumes "ServicesDir opts = ''/var/run/nautrouds/services''"
  shows "scan_base Some opts = Some ''/var/run/nautrouds/services''"
proof -
  have "trim_right (\<lambda>c. c = CHR ''/'') ''/var/run/nautrouds/services'' = ''/var/run/nautrouds/services''" by code_simp
  with assms show ?thesis by (simp add: scan_base_def)
qed

theorem stale_hub_node_blocks_start_witness:
  "\<exists>opts. default_options = Some opts \<and>
     (\<forall>core :: unit core. run no_outside (\<lambda>_. []) split_words (\<lambda>_. None) opts (quiet_world one_mmfg) \<noteq> Some (Inr core))"
proof -
  obtain opts where o: "default_options = Some opts" "ServicesDir opts = ''/var/run/nautrouds/services''" using default_options_load by blast
  have p: "''/var/run/nautrouds/services/s/a.mmfg'' \<in> hub_nodes ''/var/run/nautrouds/services'' one_mmfg" by code_simp
  have "\<not> can_dial (\<lambda>_ _ _. False) ''/var/run/nautrouds/services'' one_mmfg ''/var/run/nautrouds/services/s/a.mmfg''"
    by (simp add: can_dial_def)
  then have "run no_outside (\<lambda>_. []) split_words (\<lambda>_. None) opts (quiet_world one_mmfg) \<noteq> Some (Inr core)" for core :: "unit core"
    using stale_hub_node_blocks_start [where wo = "quiet_world one_mmfg" and opts = opts and dial = "\<lambda>_ _ _. False", OF _ _ _ _ p]
      default_base [OF o(2)] sorted_handlers_legal [of no_stat "\<lambda>_. []" "\<lambda>_ _ _. False"]
    by (simp add: quiet_world_def core_handlers_def)
  with o(1) show ?thesis by blast
qed

theorem started_core_serves_sockets_witness:
  "\<exists>opts (core :: unit core) fs t. default_options = Some opts \<and>
     run no_outside (\<lambda>_. []) split_words (\<lambda>_. None) opts (quiet_world one_socket) = Some (Inr core) \<and>
     GetForwarders (\<lambda>_. 0) 0 0 ''s'' (c_registry core) = Some (fs, t) \<and> SocketPath ` set fs = {''/var/run/nautrouds/services/s/a.sock''}"
proof -
  let ?base = "''/var/run/nautrouds/services''" and ?wo = "quiet_world one_socket"
  obtain opts where o: "default_options = Some opts" "ServicesDir opts = ?base" "InstanceID opts = []" "MetricsPath opts = []"
      "DefaultWelcome opts"
    using default_options_load by blast
  have w: "scan_base (w_abs ?wo) opts = Some ?base" "w_walk ?wo = (\<lambda>_. Some one_socket)" using default_base [OF o(2)] by (simp_all add: quiet_world_def)
  have legal: "\<forall>h \<in> set (w_handlers ?wo). handler_legal (\<lambda>_ _ _. False) h" using sorted_handlers_legal by (simp add: quiet_world_def)
  have inv: "scan_inv ?base (NewRegistry, NewHub)" using NewRegistry_inv(1) by (simp add: scan_inv_def NewRegistry_def)
  have h: "hub_nodes ?base one_socket = {}" "sockets_below ?base sock_ext one_socket = [?base @ ''/s/a.sock'']"
    "service_of ?base (?base @ ''/s/a.sock'') = ''s''" by code_simp+
  from scan_fails_iff [OF legal inv, of one_socket] h(1) obtain r k where
    s: "scanAll ?base (w_handlers ?wo) (Some one_socket) (NewRegistry, NewHub) = Some (True, r, k)" by auto
  have "split_words ''$welcome'' = Some [''$welcome'']" by code_simp
  from missing_config_welcome [where split = split_words and decode = "\<lambda>_. None" and out = no_outside and names = "\<lambda>_. []" and
      cw = "NewConfigWatcher (w_abs ?wo) (ConfigPath opts) (DefaultWelcome opts)" and f = "w_found ?wo", OF this] o(5)
  obtain g :: "unit generation" where g: "LoadInitial no_outside (\<lambda>_. []) split_words (\<lambda>_. None)
      (NewConfigWatcher (w_abs ?wo) (ConfigPath opts) (DefaultWelcome opts)) (w_found ?wo) = Some (Some g)"
    by (auto simp: quiet_world_def NewConfigWatcher_def)
  obtain sockets where e: "start_entrypoints opts ?wo = Some sockets"
    by (simp add: start_entrypoints_def quiet_world_def createEntrypoints_def Let_def)
  have "start_watcher ?wo ?base = Some (True, r, k)"
    using s w(2) by (simp add: start_watcher_def Scan_def) (simp add: quiet_world_def)
  with g e w obtain core :: "unit core" where run: "run no_outside (\<lambda>_. []) split_words (\<lambda>_. None) opts ?wo = Some (Inr core)"
    by (simp add: run_def) (simp add: quiet_world_def)
  have hs: "Sockets no_stat sorted_keys \<in> set (w_handlers ?wo)" "Hub (\<lambda>_ _ _. False) \<in> set (w_handlers ?wo)"
    by (simp_all add: quiet_world_def core_handlers_def)
  from started_core_serves_sockets [where ?rand1.0 = "\<lambda>_. 0" and ?rand2.0 = "\<lambda>_. 0" and load = "\<lambda>_. 0" and svc = "''s''", OF run legal hs] w h(2,3)
  obtain fs t where "GetForwarders (\<lambda>_. 0) 0 0 ''s'' (c_registry core) = Some (fs, t)"
    "SocketPath ` set fs = {p \<in> {?base @ ''/s/a.sock''}. service_of ?base p = ''s''}" by auto
  with run o(1) h(3) show ?thesis by (intro exI [of _ opts] exI [of _ core] exI [of _ fs] exI [of _ t]) auto
qed


subsection \<open>The socket of the collector\<close>

text \<open>
  \<open>Start\<close> and \<open>Stop\<close> of \<open>internal/core/metrics/collector.go\<close> on the files of the services directory: what is at the path is removed,
  and closing the listener unlinks the path. The first argument says whether a removal fails, the second whether the system
  lets the core listen.
\<close>

definition Collector_Start :: "(string \<Rightarrow> bool) \<Rightarrow> bool \<Rightarrow> nat \<Rightarrow> string \<Rightarrow> (string \<Rightarrow> dir_file option) \<Rightarrow> (string \<Rightarrow> dir_file option) option" where
  "Collector_Start unremovable listens c socketPath fs =
     (if fs socketPath \<noteq> None \<and> unremovable socketPath then None
      else if \<not> listens then None
      else Some (fs(socketPath \<mapsto> Socket c)))"

definition Collector_Stop :: "string \<Rightarrow> (string \<Rightarrow> dir_file option) \<Rightarrow> (string \<Rightarrow> dir_file option)" where
  "Collector_Stop socketPath fs = fs(socketPath := None)"

text \<open>The path of the collector does not depend on the instance id, although several cores share a services directory: the
  second core takes the socket of the first, and when either ends the other has none.\<close>

theorem second_core_takes_metrics_socket:
  fixes opts opts' :: options
  assumes "ServicesDir opts = ServicesDir opts'" and "MetricsPath opts = MetricsPath opts'"
    and "collectorPath opts = Some p" and "collectorPath opts' = Some p'"
    and "Collector_Start unremovable True c p fs = Some fs1" and "Collector_Start unremovable True d p' fs1 = Some fs2"
  shows "fs2 p = Some (Socket d) \<and> Collector_Stop p fs2 p' = None"
proof -
  have "p = p'" using assms(1-4) by (auto simp: collectorPath_def split: if_splits)
  with assms(5,6) show ?thesis by (auto simp: Collector_Start_def Collector_Stop_def split: if_splits)
qed

theorem second_core_takes_metrics_socket_witness:
  "\<exists>opts p. collectorPath opts = Some p \<and>
     Collector_Start (\<lambda>_. False) True 1 p [p \<mapsto> Socket 0] = Some [p \<mapsto> Socket 1] \<and> Collector_Stop p [p \<mapsto> Socket 1] p = None"
proof -
  obtain opts :: options where "MetricsPath opts = []" using default_options_load by blast
  then obtain p where p: "collectorPath opts = Some p" by (simp add: collectorPath_def)
  have "Collector_Start (\<lambda>_. False) True 0 p Map.empty = Some [p \<mapsto> Socket 0]"
    "Collector_Start (\<lambda>_. False) True 1 p [p \<mapsto> Socket 0] = Some [p \<mapsto> Socket 1]" by (simp_all add: Collector_Start_def)
  from second_core_takes_metrics_socket [OF HOL.refl HOL.refl p p this] p this show ?thesis by blast
qed

end
