(* ===== verification/Logs.thy ===== *)
theory Logs
  imports Options
begin

text \<open>
  \<open>internal/core/logs/loggser.go\<close> and \<open>internal/version/version.go\<close>: how the logger is set up from the environment, and the version
  that is printed. The logger is the record of its settings; the level names of the logging library are an argument, and so
  is the build information of the binary.
\<close>

subsection \<open>The logger\<close>

record log_file =
  lf_path :: string
  lf_max_size :: int
  lf_max_backups :: int
  lf_max_age :: int
  lf_compress :: bool
  lf_json :: bool

text \<open>The settings, and the variables reported as invalid once the logger is there.\<close>

record 'l logger =
  lg_level :: 'l
  lg_json :: bool
  lg_color :: bool
  lg_file :: "log_file option"
  lg_errors :: "string list"

definition log_number :: "(string \<Rightarrow> string option) \<Rightarrow> string \<Rightarrow> string \<Rightarrow> int \<Rightarrow> int \<times> bool" where
  "log_number env key fallback otherwise =
     (case Atoi (getEnv env key fallback) of Some n \<Rightarrow> (n, True) | None \<Rightarrow> (otherwise, False))"

definition InitLogger :: "(string \<Rightarrow> string option) \<Rightarrow> (string \<Rightarrow> 'l option) \<Rightarrow> 'l \<Rightarrow> string \<Rightarrow> 'l logger" where
  "InitLogger env level_of info logLevelStr =
     (let logPath = getEnv env ''NAUTROUDS_LOG_FILE_PATH'' '''';
          stdFormat = getEnv env ''NAUTROUDS_LOG_STD_FORMAT'' '''';
          fileFormat = getEnv env ''NAUTROUDS_LOG_FILE_FORMAT'' '''';
          (maxSize, size_ok) = log_number env ''NAUTROUDS_LOG_MAX_SIZE'' ''50'' 50;
          (maxBackups, backups_ok) = log_number env ''NAUTROUDS_LOG_MAX_BACKUPS'' ''3'' 3;
          (maxAge, age_ok) = log_number env ''NAUTROUDS_LOG_MAX_AGE'' ''28'' 28;
          compress = ParseBool (getEnv env ''NAUTROUDS_LOG_COMPRESS'' ''true'')
      in \<lparr>lg_level = (if logLevelStr = [] then info else case level_of logLevelStr of Some l \<Rightarrow> l | None \<Rightarrow> info),
          lg_json = (stdFormat = ''json''),
          lg_color = (stdFormat = ''console''),
          lg_file = (if logPath = [] then None
             else Some \<lparr>lf_path = logPath, lf_max_size = maxSize, lf_max_backups = maxBackups, lf_max_age = maxAge,
               lf_compress = (case compress of Some b \<Rightarrow> b | None \<Rightarrow> True), lf_json = (fileFormat = ''json'')\<rparr>),
          lg_errors = (if size_ok then [] else [''Invalid NAUTROUDS_LOG_MAX_SIZE'']) @
            (if backups_ok then [] else [''Invalid NAUTROUDS_LOG_MAX_BACKUPS'']) @
            (if age_ok then [] else [''Invalid NAUTROUDS_LOG_MAX_AGE'']) @
            (if compress = None then [''Invalid NAUTROUDS_LOG_COMPRESS''] else [])\<rparr>)"

text \<open>Without any of the variables nothing is reported, and there is no file.\<close>

lemma default_logger:
  "lg_errors (InitLogger Map.empty level_of info []) = [] \<and> lg_file (InitLogger Map.empty level_of info []) = None \<and>
   lg_level (InitLogger Map.empty level_of info []) = info"
proof -
  have "Atoi ''50'' = Some 50" "Atoi ''3'' = Some 3" "Atoi ''28'' = Some 28"
    by (simp_all add: Atoi_def ParseInt_def ParseUint_def digits_value_def is_digit_def byte_def has_prefix_def Let_def)
  then show ?thesis by (simp add: InitLogger_def log_number_def getEnv_def ParseBool_def)
qed

text \<open>A variable of the rotation that does not parse is reported and does not change what it was for.\<close>

theorem bad_log_size_reported:
  assumes "Atoi v = None" and "env ''NAUTROUDS_LOG_MAX_SIZE'' = Some v"
  shows "''Invalid NAUTROUDS_LOG_MAX_SIZE'' \<in> set (lg_errors (InitLogger env level_of info l)) \<and>
    map_option lf_max_size (lg_file (InitLogger env level_of info l)) \<in> {None, Some 50}"
  using assms by (simp add: InitLogger_def log_number_def getEnv_def Let_def split_beta)

theorem bad_log_size_reported_witness:
  "''Invalid NAUTROUDS_LOG_MAX_SIZE'' \<in> set (lg_errors (InitLogger [''NAUTROUDS_LOG_MAX_SIZE'' \<mapsto> ''''] (\<lambda>_. None) (0 :: nat) []))"
  using bad_log_size_reported [of "''''" "[''NAUTROUDS_LOG_MAX_SIZE'' \<mapsto> '''']" "\<lambda>_. None" "0 :: nat" "[]"]
  by (simp add: Atoi_def ParseInt_def ParseUint_def has_prefix_def Let_def)

subsection \<open>The version\<close>

text \<open>The settings of the build, in their order; \<^const>\<open>None\<close> when the binary has no build information.\<close>

definition dirty :: "(string \<times> string) list \<Rightarrow> bool" where
  "dirty settings \<longleftrightarrow> (''vcs.modified'', ''true'') \<in> set settings"

fun build_revision :: "(string \<times> string) list \<Rightarrow> (string \<times> string) list \<Rightarrow> string" where
  "build_revision info [] = ''0.0.0''"
| "build_revision info ((key, revision) # settings) =
     (if key = ''vcs.revision'' then take 7 revision @ (if dirty info then ''-dirty'' else [])
      else build_revision info settings)"

definition Get_version :: "string \<Rightarrow> (string \<times> string) list option \<Rightarrow> string" where
  "Get_version Version info =
     (if Version \<noteq> [] then Version else case info of None \<Rightarrow> ''0.0.0'' | Some settings \<Rightarrow> build_revision settings settings)"

lemma build_revision_eq:
  "build_revision info settings =
     (case map_of settings ''vcs.revision'' of
        None \<Rightarrow> ''0.0.0'' | Some revision \<Rightarrow> take 7 revision @ (if dirty info then ''-dirty'' else []))"
  by (induction settings rule: build_revision.induct) auto

lemma version_length: "Version = [] \<Longrightarrow> length (Get_version Version info) \<le> 13"
  by (auto simp: Get_version_def build_revision_eq split: option.split)

end
