(* ===== verification/Spec2Isabelle.thy ===== *)
theory Spec2Isabelle
  imports Build_Correct Directives Expand Tokenizer Temp_Response Registry_Correct Watcher Serving_Correct Compiler_Print Metrics Core_Main Print_Tree Logs
begin

text \<open>
  Nautrouds routes HTTP requests to services behind Unix sockets. \<open>ntuc\<close> compiles a route file (an Ntufile) to a
  route tree; the core loads the tree, finds the route of each request, runs its middlewares and forwards the
  request to a node of its service. The nodes are sockets in a directory that the core watches. This
  development translates the Go sources under \<open>src/\<close> into HOL functions and relations and proves what makes them
  correct. All paths below are relative to \<open>src/\<close>.

  Conventions. Go strings are byte strings (\<^typ>\<open>string\<close>, a list of bytes), so a rune loop is a byte loop where the
  code only tests for ASCII characters. Machine integers are words or bounded where their width matters: method
  masks and tags are 16 bit words, the edge offsets of the pool are cut to 16 bits, the round robin cursor is a
  32 bit word, the packed grafts are integers with the bit operations of the code. A panic is \<^const>\<open>None\<close> of an
  option type; an error is a value of an error datatype in a sum. Go's map iteration order, random numbers, loads,
  clocks, the results of system calls and of the network are arguments of the definitions, so a theorem holds for
  all of them.

  The theories, by part of the program:

  \<^item> \<open>Prelude\<close>, \<open>Go_Text\<close>, \<open>Base64\<close>, \<open>Http\<close>: what the sources use of Go's \<open>strings\<close>, \<open>bytes\<close>, \<open>strconv\<close>, \<open>path/filepath\<close>,
    \<open>encoding/base64\<close>, \<open>net/http\<close> and \<open>net/url\<close>, with the collections of rewrite rules the others share.

  \<^item> The route tree, \<open>internal/rtree\<close> and \<open>internal/tags\<close>. \<open>Host\<close> and \<open>Method_Masks\<close> hold the helpers of \<open>common.go\<close> and
    \<open>build.go\<close>; \<open>Route_Tree\<close> the data, the trie of \<open>build.go\<close> and the flat pools of \<open>search.go\<close>; \<open>Trie\<close> shows that \<open>insert\<close> is
    the update of a finite map; \<open>Compress\<close> that \<open>compress\<close> keeps the paths; \<open>Flatten\<close> models \<open>finalize\<close> with its grafts
    (where a failed match goes on) and accept clones; \<open>Search\<close> models the loop of \<open>Search\<close> as a
    \<^theory_text>\<open>partial_function\<close>, so that it ends is part of the results. \<open>Search_Refines\<close>, \<open>Search_Correct\<close> and \<open>Search_Root\<close>
    show that the loop on the pools gives the result of a recursive backtracking search on the trie (C1).
    \<open>Matching\<close> and \<open>Priority\<close> say what that search means for lookup paths, \<open>Actions\<close> and \<open>Interpolate\<close> that names and
    the tags in them are read back as written, \<open>Build\<close> is the whole pipeline, \<open>Pool_Size\<close> and \<open>Pool_Leaves\<close> bound and
    describe the pools, \<open>Build_Correct\<close> leads from a request to the raw routes, and \<open>Print_Tree\<close>
    models \<open>PrintTree\<close>, which ends because \<open>flattenNode\<close> writes children before their parents.

  \<^item> The compiler, \<open>internal/compiler\<close>. \<open>Tokenizer\<close> (the state across lines: parentheses, braces, quotes), \<open>Directives\<close>
    (arguments, also \<open>internal/core/builtins\<close>), \<open>Expand\<close> (bracket groups and normal form of URLs), \<open>Compiler\<close> (the line
    trackers and \<open>Parse\<close> with its warnings). \<open>Compiler_Correct\<close> has the invariant of the compiler's state, from which every
    compiled route is checked, and the two causes of a panic; \<open>Compiler_Print\<close> the round trip from printed rules.
    \<open>Ntuc\<close> is the program \<open>cmd/ntuc\<close> with the files it writes.

  \<^item> The registry, \<open>internal/core/registry\<close>. \<open>Load_Balance\<close> has the weights and the three balancers with their
    contract as a locale, \<open>Service_Set\<close> the node list with its map of positions, \<open>Registry\<close> every critical section of
    \<open>registry.go\<close> and \<open>strategy.go\<close>, \<open>Registry_Inv\<close> and \<open>Registry_Ops\<close> the invariant, and \<open>Registry_Correct\<close> the refinement
    of an abstract state of two sets, registered and unhealthy nodes, over all sequences of events.

  \<^item> Discovery, \<open>internal/core/watcher\<close> and \<open>internal/core/mmfg\<close>. \<open>Node_Scan\<close> (the paths of a walk), \<open>Mmfg_Hub\<close>
    (which nodes are dialed), \<open>Scanner\<close> (scans by the three handlers, whose contract is a locale: their order does not matter),
    \<open>Watcher\<close> (file events, dirty services and the signal between two goroutines as a step relation with an invariant).

  \<^item> Serving, \<open>internal/core/proxy\<close> and what it calls. \<open>Temp_Response\<close> (the pooled writer and route options),
    \<open>Virtual_Services\<close> and \<open>Builtin_Middlewares\<close> (all builtins), \<open>Forwarding\<close> (failures of a node, retries, middleware calls,
    probes), \<open>Transport\<close> (the settings of a node's transports and its load), \<open>Generation\<close> (a table in service and its caches), \<open>Serving\<close> (\<open>ServeHTTP\<close>). \<open>Serving_Correct\<close> shows that serving
    refines a reference without tree and caches.

  \<^item> The core as a program, \<open>cmd/core\<close>, \<open>internal/core/options\<close>, \<open>configwatcher\<close> and \<open>metrics\<close>. \<open>Options\<close> (options and the
    sockets to listen on), \<open>Config_Watcher\<close> (the first table, and reloads as a step relation), \<open>Collector\<close> (the frames of
    pushed metrics), \<open>Metrics\<close> (the declared metrics, the calls on them and the own time of a request), \<open>Core_Main\<close> (the
    start: what is built in which order and which errors end it), \<open>Entry_Points\<close> (the sockets of several cores in one directory,
    from the start to the exit hook, as a step relation whose invariant comes from a rely-guarantee locale), \<open>Logs\<close>
    (the settings of the logger, and the version).

  This theory holds the properties that lead through several parts: from the text of a config to the answer of a
  request, and from the nodes of a service to the answer and back.

  Bounds and fuel. Nothing runs on fuel: loops are structural, have a measure, or, for \<open>Search\<close> and
  \<open>printEdge\<close>, are a \<^theory_text>\<open>partial_function\<close> with a proof that they end. A pool built from routes with at most 21760 bytes of URL fits the
  16-bit edge offsets (256 root slots and at most three edges for a byte); the code has no check, and beyond that the offsets wrap. Routes have at
  most 32 wildcards, which \<open>Build\<close> enforces; lines of a config have less than 65536 bytes, which the line reader
  enforces; frames have at most 1 MB. Requests whose key starts with one of the two bytes that stand for wildcards
  are left out of the theorems about searches.

  Arguments, with what is assumed of them where something is: \<open>shlex.Split\<close> (words without quotes, escapes and comments are
  split at blanks), the gob encoder and decoder (a written tree is read back), the manifold library behind \<open>mmfg\<close>,
  the CRC, the protobuf decoder, the reverse proxy's exchange with a node, JSON and metrics texts,
  \<open>netip\<close> and CIDR parsing, \<open>ParseFloat\<close>, \<open>ParseDuration\<close>, \<open>filepath.Abs\<close>.

  Not modelled: log output; the numbers that go to the metrics, apart from the durations of a request and pushed payloads; the
  reverse proxy in \<open>forwarder.go\<close> beyond its error handler and its clock, and the buffers of \<open>buffer_pool.go\<close>, which configure the
  standard library; \<open>Flush\<close>, which passes a call on; creating directories in \<open>cmd/core/main.go\<close>; the stubs for systems without
  Unix sockets; the programs under \<open>benchmark\<close> and \<open>examples\<close>, which measure and demonstrate the router.
\<close>

subsection \<open>From the text of a config to the answer of a request\<close>

lemma block_methods:
  assumes "rule_ok out r"
  shows "parseMethods (rb_methods r) \<noteq> 0"
proof (rule checked_methods_have_a_bit)
  have "check_methods [] (rb_methods r) = None" using assms by (simp add: rule_ok_def)
  then show "fst (ValidateMethods (rb_methods r))" "\<not> methods_missing (rb_methods r)"
    by (auto simp: check_methods_def split: prod.splits if_splits)
  show "\<forall>c \<in> set (rb_methods r). byte c \<notin> {10, 11, 12, 13}"
    using assms by (auto simp: rule_ok_def word_text_def list_all_iff is_space_def)
qed

text \<open>A static external middleware written without arguments makes loading panic.\<close>

definition loads_mw :: "string \<Rightarrow> bool" where
  "loads_mw e \<longleftrightarrow> Analyze e \<noteq> [] \<or> has_prefix e ''$'' \<or> (\<forall>f. ParseDirective e \<noteq> Some (f, []))"

definition loadable :: "raw_node list \<Rightarrow> bool" where
  "loadable raws \<longleftrightarrow> raws \<noteq> [] \<and> text_routes raws \<and> sum_list (map (\<lambda>raw. length (URL raw)) raws) \<le> 21760 \<and>
     (\<forall>raw \<in> set raws. URL raw \<noteq> [] \<and> count_wilds (star_bytes (URL raw)) \<le> MaxWildcardsPerRoute \<and> list_all loads_mw (Middlewares raw))"

lemma loadable_serves:
  assumes "loadable raws" and "\<forall>raw \<in> set raws. parseMethods (RawMethods raw) \<noteq> 0"
    and "lookup_key r \<noteq> []" and "\<not> is_wild (hd (lookup_key r))"
  shows "\<exists>t g. Build raws = Some (Some t) \<and> UpdateGeneration (e_out env) (e_names env) t = Some g \<and>
    (ServeHTTP env g w r reg nodes = map_option (\<lambda>w'. (None, (new_serving w r reg nodes)\<lparr>sv_w := w'\<rparr>))
       (http_Error ''Resource Not Found'' 404 (newTrackedResponseWriter w)) \<or>
     (\<exists>n raw. winner raws (lookup_path raw) = Some raw \<and> matches (lookup_path raw) (lookup_key r) \<and>
       ServeHTTP env g w r reg nodes = map_option (Pair (Some n)) (spec_serve env raw (new_serving w r reg nodes))))"
proof -
  from assms(1) have u: "raws \<noteq> []" "text_routes raws" "\<forall>raw \<in> set raws. URL raw \<noteq> []"
    "\<forall>raw \<in> set raws. count_wilds (star_bytes (URL raw)) \<le> MaxWildcardsPerRoute"
    "sum_list (map (\<lambda>raw. length (URL raw)) raws) \<le> 21760" "\<forall>raw \<in> set raws. list_all loads_mw (Middlewares raw)"
    by (auto simp: loadable_def)
  from Build_exists [OF u(1,2) assms(2) u(4)] obtain t where t: "Build raws = Some (Some t)" by blast
  have "\<not> (winner raws (lookup_path raw) = Some raw \<and> e \<in> set (Middlewares raw) \<and> Analyze e = [] \<and>
      \<not> has_prefix e ''$'' \<and> ParseDirective e = Some (f, []))" for raw e f
    using u(6) by (auto simp: list_all_iff loads_mw_def dest!: winner_Some)
  then have "(InitCaches (e_out env) (e_names env) (new_generation t) :: 'a generation option) \<noteq> None"
    unfolding loading_panics [OF t u(2,3)] by blast
  then obtain g :: "'a generation" where g: "InitCaches (e_out env) (e_names env) (new_generation t) = Some g" by blast
  from serve_table [OF t u(2) built_fits [OF t u(5)] u(3) g assms(3,4), of w reg nodes] t g show ?thesis
    by (auto simp: UpdateGeneration_def)
qed


definition ok_block :: rule_block where
  "ok_block = \<lparr>rb_methods = ''GET'', rb_url = ''h/x'', rb_service = (''$ok'', None), rb_tags = [], rb_middlewares = []\<rparr>"


subsection \<open>From the nodes of a service to the answer, and back\<close>

definition node_up :: "'w network \<Rightarrow> string \<Rightarrow> request \<Rightarrow> tracked \<Rightarrow> bool" where
  "node_up net p r w \<longleftrightarrow> (\<forall>s. \<exists>w' s'. proxy_to net p r w s = (Inr w', s'))"

lemma forward_loop_live:
  assumes "isSafeMethod (r_method r)" and "\<not> HasRetryLimit opts"
    and "\<forall>p \<in> SocketPath ` set fs. p \<in> n_failed n \<or> node_down net p r w \<or> node_up net p r w"
    and "\<exists>p \<in> SocketPath ` set fs. p \<notin> n_failed n \<and> node_up net p r w"
  shows "\<exists>w' n' p s s'. forward_loop net opts 0 fs w r n = (Some w', n') \<and> p \<in> SocketPath ` set fs \<and> p \<notin> n_failed n \<and>
    proxy_to net p r w s = (Inr w', s')"
proof -
  let ?live = "\<lambda>f. SocketPath f \<notin> n_failed n \<and> node_up net (SocketPath f) r w"
  have "\<exists>f \<in> set fs. ?live f" using assms(4) by auto
  from split_list_first_prop [OF this] obtain pre f post where fs: "fs = pre @ f # post" "?live f" "\<forall>g \<in> set pre. \<not> ?live g"
    by blast
  then have "\<forall>g \<in> set pre. SocketPath g \<in> n_failed n \<or> node_down net (SocketPath g) r w" using assms(3) by auto
  then obtain m where m: "n_failed m \<subseteq> n_failed n \<union> SocketPath ` set pre"
    "forward_loop net opts 0 fs w r n = forward_loop net opts 0 (f # post) w r m"
    using forward_loop_skips [OF assms(1,2), of pre n net w 0 "f # post"] fs(1) by auto
  have "SocketPath f \<notin> SocketPath ` set pre" using fs(2,3) by auto
  then have f: "SocketPath f \<notin> n_failed m" using m(1) fs(2) by blast
  from fs(2) obtain w' s' where "proxy_to net (SocketPath f) r w (n_world m) = (Inr w', s')" unfolding node_up_def by blast
  with f have "forward_loop net opts 0 (f # post) w r m = (Some w', m\<lparr>n_world := s'\<rparr>)" by (simp add: Forward_def)
  with m(2) fs(1,2) \<open>proxy_to net (SocketPath f) r w (n_world m) = (Inr w', s')\<close> show ?thesis by auto
qed

text \<open>The reports of failed nodes, as the registry receives them.\<close>

definition failures :: "(string \<Rightarrow> bool) \<Rightarrow> string list \<Rightarrow> event list" where
  "failures refused ps = map (\<lambda>p. Failure p (refused p)) ps"

lemma failures_ok: "events_ok so (failures refused ps) s"
  by (induction ps arbitrary: s) (auto simp: failures_def)

lemma spec_failures: "spec_nodes so svc (fold (spec so) (failures refused ps) s) = spec_nodes so svc s - set ps"
proof (induction ps arbitrary: s)
  case (Cons p ps)
  have "spec_nodes so svc (spec so (Failure p (refused p)) s) = spec_nodes so svc s - {p}"
    by (auto simp: spec_nodes_def)
  with Cons [of "spec so (Failure p (refused p)) s"] show ?case by (auto simp: failures_def)
qed (simp add: failures_def)


definition up_and_gone :: "event list" where
  "up_and_gone = [FullScan (\<lambda>_ _. False) [] [(''s'', [''/gone'', ''/up''])]]"


end
